(* ===== verification/Prelude.thy ===== *)
theory Prelude
  imports Main "HOL-Library.Word"
begin

text \<open>
  Shared vocabulary of the development.

  The theory fixes how the C data types of php-grpc-lite are read: bytes as
  \<^typ>\<open>8 word\<close>, text (header names and values, paths, error texts) as \<^typ>\<open>string\<close>
  whose characters are the C bytes, \<open>size_t\<close> as \<^typ>\<open>nat\<close> unless a function computes near
  its limit, \<open>int64_t\<close>/\<open>zend_long\<close> as \<^typ>\<open>int\<close> together with the range
  predicate \<open>int64\<close>.  It also holds the pieces of the C library the sources use
  (\<open>snprintf\<close> truncation, \<open>%d\<close> formatting, \<open>memcpy\<close> into a buffer) and the generic list
  lemmas that the component theories share.
\<close>

unbundle bit_operations_syntax

named_theorems c_text \<open>facts about C strings and formatted output\<close>
named_theorems c_mem \<open>facts about byte buffers\<close>

type_synonym byte = "8 word"
type_synonym u32 = "32 word"

section \<open>Limits\<close>

abbreviation (input) INT_MAX :: int where "INT_MAX \<equiv> 2147483647"
abbreviation (input) INT32_MAX :: int where "INT32_MAX \<equiv> 2147483647"
abbreviation (input) UINT32_MAX :: int where "UINT32_MAX \<equiv> 4294967295"
abbreviation (input) SIZE_MAX :: nat where "SIZE_MAX \<equiv> 18446744073709551615"
abbreviation (input) ZEND_LONG_MAX :: int where "ZEND_LONG_MAX \<equiv> 9223372036854775807"
abbreviation (input) ZEND_LONG_MIN :: int where "ZEND_LONG_MIN \<equiv> -9223372036854775808"

definition int64 :: "int \<Rightarrow> bool" where
  "int64 x \<longleftrightarrow> ZEND_LONG_MIN \<le> x \<and> x \<le> ZEND_LONG_MAX"

section \<open>Characters and C strings\<close>

text \<open>The value of a \<open>char\<close> read as \<open>unsigned char\<close>.\<close>

abbreviation uchar :: "char \<Rightarrow> nat" where
  "uchar c \<equiv> of_char c"

lemma char_uchar_iff: "c = d \<longleftrightarrow> uchar c = uchar d"
  by simp

text \<open>A C string ends at its first NUL; \<open>snprintf(buf, n, "%s", s)\<close> keeps \<open>n - 1\<close> bytes of it.\<close>

definition c_str :: "string \<Rightarrow> string" where
  "c_str s = takeWhile (\<lambda>c. uchar c \<noteq> 0) s"

definition snprintf_s :: "nat \<Rightarrow> string \<Rightarrow> string" where
  "snprintf_s n s = take (n - 1) (c_str s)"

definition no_nul :: "string \<Rightarrow> bool" where
  "no_nul s \<longleftrightarrow> list_all (\<lambda>c. uchar c \<noteq> 0) s"

lemma c_str_id [c_text]: "no_nul s \<Longrightarrow> c_str s = s"
  by (induction s) (auto simp: c_str_def no_nul_def)

lemma no_nul_append [simp]: "no_nul (xs @ ys) \<longleftrightarrow> no_nul xs \<and> no_nul ys"
  by (simp add: no_nul_def)

lemma no_nul_Nil [simp]: "no_nul []"
  by (simp add: no_nul_def)

lemma no_nul_Cons [simp]: "no_nul (c # s) \<longleftrightarrow> uchar c \<noteq> 0 \<and> no_nul s"
  by (simp add: no_nul_def)

lemma snprintf_s_id [c_text]:
  "no_nul s \<Longrightarrow> length s < n \<Longrightarrow> snprintf_s n s = s"
  by (simp add: snprintf_s_def c_str_id)

lemma snprintf_s_length [c_text]: "0 < n \<Longrightarrow> length (snprintf_s n s) < n"
  by (simp add: snprintf_s_def)

lemma snprintf_s_Nil [simp]: "snprintf_s n [] = []"
  by (simp add: snprintf_s_def c_str_def)

text \<open>ASCII lower-casing as \<open>strncasecmp\<close> does it in the C locale.\<close>

definition to_lower :: "char \<Rightarrow> char" where
  "to_lower c = (if 65 \<le> uchar c \<and> uchar c \<le> 90 then char_of (uchar c + 32) else c)"

definition eq_ignore_case :: "string \<Rightarrow> string \<Rightarrow> bool" where
  "eq_ignore_case a b \<longleftrightarrow> map to_lower a = map to_lower b"

definition is_digit :: "char \<Rightarrow> bool" where
  "is_digit c \<longleftrightarrow> 48 \<le> uchar c \<and> uchar c \<le> 57"

definition digit_value :: "char \<Rightarrow> nat" where
  "digit_value c = uchar c - 48"

section \<open>Decimal output (the \<open>%d\<close>, \<open>%ld\<close>, \<open>%u\<close>, \<open>%zu\<close> conversions)\<close>

definition digit_char :: "nat \<Rightarrow> char" where
  "digit_char d = char_of (48 + d)"

fun dec_nat :: "nat \<Rightarrow> string" where
  "dec_nat n = (if n < 10 then [digit_char n] else dec_nat (n div 10) @ [digit_char (n mod 10)])"

declare dec_nat.simps [simp del]

definition dec_int :: "int \<Rightarrow> string" where
  "dec_int i = (if i < 0 then CHR ''-'' # dec_nat (nat (- i)) else dec_nat (nat i))"

text \<open>Reading a digit string back.\<close>

definition dec_value :: "string \<Rightarrow> nat" where
  "dec_value s = foldl (\<lambda>acc c. acc * 10 + digit_value c) 0 s"

lemma uchar_digit_char [simp]: "d < 10 \<Longrightarrow> uchar (digit_char d) = 48 + d"
  by (simp add: digit_char_def)

lemma is_digit_digit_char [simp]: "d < 10 \<Longrightarrow> is_digit (digit_char d)"
  by (simp add: is_digit_def)

lemma digit_value_digit_char [simp]: "d < 10 \<Longrightarrow> digit_value (digit_char d) = d"
  by (simp add: digit_value_def)

lemma dec_value_snoc: "dec_value (s @ [c]) = dec_value s * 10 + digit_value c"
  by (simp add: dec_value_def)

lemma dec_nat_digits [c_text]: "list_all is_digit (dec_nat n)"
proof (induction n rule: dec_nat.induct)
  case (1 n)
  then show ?case by (subst dec_nat.simps) auto
qed

lemma dec_nat_nonempty [c_text]: "dec_nat n \<noteq> []"
  by (subst dec_nat.simps) simp

lemma dec_value_dec_nat [c_text]: "dec_value (dec_nat n) = n"
proof (induction n rule: dec_nat.induct)
  case (1 n)
  show ?case
  proof (cases "n < 10")
    case True
    then show ?thesis by (subst dec_nat.simps) (simp add: dec_value_def)
  next
    case False
    with 1 show ?thesis by (subst dec_nat.simps) (simp add: dec_value_snoc)
  qed
qed

lemma dec_nat_inject [simp]: "dec_nat m = dec_nat n \<longleftrightarrow> m = n"
  using dec_value_dec_nat by metis

lemma dec_nat_length [c_text]: "0 < k \<Longrightarrow> n < 10 ^ k \<Longrightarrow> length (dec_nat n) \<le> k"
proof (induction k arbitrary: n)
  case 0
  then show ?case by simp
next
  case (Suc k)
  show ?case
  proof (cases "n < 10")
    case True
    then show ?thesis by (subst dec_nat.simps) simp
  next
    case False
    with Suc.prems have "0 < k" by (cases k) auto
    moreover have "n div 10 < 10 ^ k" using Suc.prems(2) by (simp add: less_mult_imp_div_less)
    ultimately have "length (dec_nat (n div 10)) \<le> k" by (rule Suc.IH)
    with False show ?thesis by (subst dec_nat.simps) simp
  qed
qed

lemma digits_no_nul: "list_all is_digit s \<Longrightarrow> no_nul s"
  by (induction s) (auto simp: no_nul_def is_digit_def)

lemma dec_nat_no_nul [simp]: "no_nul (dec_nat n)"
  by (rule digits_no_nul [OF dec_nat_digits])

lemma dec_int_inject: "dec_int i = dec_int j \<longleftrightarrow> i = j"
proof -
  have "dec_nat n \<noteq> CHR ''-'' # s" for n s
    using dec_nat_digits [of n] by (cases "dec_nat n") (auto simp: is_digit_def)
  then have "dec_nat n \<noteq> CHR ''-'' # s" "CHR ''-'' # s \<noteq> dec_nat n" for n s
    by metis+
  then show ?thesis by (auto simp: dec_int_def split: if_splits)
qed

section \<open>Byte buffers\<close>

text \<open>
  \<open>memcpy(buf + off, data, length data)\<close> into a buffer of fixed size, and \<open>zend_string_realloc\<close>,
  which keeps the old contents up to the new size (fresh bytes are written before they are read).
\<close>

definition mem_write :: "'a list \<Rightarrow> nat \<Rightarrow> 'a list \<Rightarrow> 'a list" where
  "mem_write buf off data = take off buf @ data @ drop (off + length data) buf"

definition mem_resize :: "'a::zero list \<Rightarrow> nat \<Rightarrow> 'a list" where
  "mem_resize buf n = take n buf @ replicate (n - length buf) 0"

lemma mem_resize_length [simp]: "length (mem_resize buf n) = n"
  by (simp add: mem_resize_def)

lemma mem_resize_prefix [c_mem]:
  "off \<le> length buf \<Longrightarrow> off \<le> n \<Longrightarrow> take off (mem_resize buf n) = take off buf"
  by (simp add: mem_resize_def min_def)

lemma mem_write_length [c_mem]:
  "off + length data \<le> length buf \<Longrightarrow> length (mem_write buf off data) = length buf"
  by (simp add: mem_write_def)

lemma mem_write_prefix [c_mem]:
  "off \<le> length buf \<Longrightarrow> take (off + length data) (mem_write buf off data) = take off buf @ data"
  by (simp add: mem_write_def min_def)

section \<open>Generic lemmas\<close>

lemma take_min_drop: "take (min n (length xs)) xs = take n xs"
  by (simp add: min_def)

lemma list_all_take: "list_all P xs \<Longrightarrow> list_all P (take n xs)"
  by (metis append_take_drop_id list_all_append)

lemma takeWhile_append_stop:
  "list_all P xs \<Longrightarrow> \<not> P y \<Longrightarrow> takeWhile P (xs @ y # ys) = xs"
  by (induction xs) auto

lemma takeWhile_stop_unique:
  assumes "xs @ y # ys = xs' @ y' # ys'"
    and "list_all P xs" "\<not> P y" "list_all P xs'" "\<not> P y'"
  shows "xs = xs' \<and> y = y' \<and> ys = ys'"
proof -
  have "xs = takeWhile P (xs @ y # ys)" using assms(2,3) by (simp add: takeWhile_append_stop)
  also have "\<dots> = xs'" using assms by (simp add: takeWhile_append_stop)
  finally show ?thesis using assms(1) by simp
qed

lemma tl_dropWhile_less: "dropWhile P xs \<noteq> [] \<Longrightarrow> length (tl (dropWhile P xs)) < length xs"
  using length_dropWhile_le [of P xs] by (cases "dropWhile P xs") auto

end
