(* ===== verification/Protocol_Core.thy ===== *)
theory Protocol_Core
  imports Prelude
begin

text \<open>
  The pure wire helpers of \<open>src/src/protocol_core.c\<close>: parsing of the \<open>grpc-status\<close> value, the
  content-type and encoding predicates, the hex digit value, and the \<open>grpc-timeout\<close> formatter;
  with them \<open>grpc_protocol_decode_message\<close>, the percent decoder of \<open>grpc-message\<close>.
\<close>

section \<open>grpc-status\<close>

text \<open>The loop of the parser: \<open>None\<close> is the early \<open>return -1\<close> on a non-digit.\<close>

fun parse_status_loop :: "string \<Rightarrow> int \<Rightarrow> int option" where
  "parse_status_loop [] status = Some status"
| "parse_status_loop (c # cs) status =
     (if uchar c < 48 \<or> 57 < uchar c then None
      else parse_status_loop cs (status * 10 + (int (uchar c) - 48)))"

definition grpc_protocol_parse_status_value :: "string \<Rightarrow> int" where
  "grpc_protocol_parse_status_value v =
     (if length v = 0 \<or> 2 < length v \<or> (1 < length v \<and> hd v = CHR ''0'') then -1
      else case parse_status_loop v 0 of
             None \<Rightarrow> -1
           | Some status \<Rightarrow> if status \<le> 16 then status else -1)"

section \<open>content-type and grpc-encoding\<close>

definition grpc_protocol_is_valid_content_type :: "string \<Rightarrow> bool" where
  "grpc_protocol_is_valid_content_type v =
     (let prefix = ''application/grpc''; prefix_len = length prefix in
      if length v < prefix_len \<or> \<not> eq_ignore_case (take prefix_len v) prefix then False
      else if length v = prefix_len then True
      else (v ! prefix_len = CHR ''+'' \<and> prefix_len + 1 < length v) \<or> v ! prefix_len = CHR '';'')"

definition grpc_protocol_is_identity_encoding :: "string \<Rightarrow> bool" where
  "grpc_protocol_is_identity_encoding v \<longleftrightarrow>
     length v = length ''identity'' \<and> eq_ignore_case (take (length ''identity'') v) ''identity''"

section \<open>Hex digits and percent decoding\<close>

definition grpc_lite_hex_value :: "nat \<Rightarrow> int" where
  "grpc_lite_hex_value ch =
     (if 48 \<le> ch \<and> ch \<le> 57 then int ch - 48
      else if 65 \<le> ch \<and> ch \<le> 70 then int ch - 65 + 10
      else if 97 \<le> ch \<and> ch \<le> 102 then int ch - 97 + 10
      else -1)"

text \<open>
  The loop over \<open>index\<close> is the recursion over the remaining suffix; the test
  \<open>index + 2 < valuelen\<close> is that two more bytes follow the percent sign.
\<close>

fun grpc_protocol_decode_message :: "string \<Rightarrow> string" where
  "grpc_protocol_decode_message [] = []"
| "grpc_protocol_decode_message (c # cs) =
     (case (c = CHR ''%'', cs) of
        (True, h # l # rest) \<Rightarrow>
          (let high = grpc_lite_hex_value (uchar h); low = grpc_lite_hex_value (uchar l) in
           if 0 \<le> high \<and> 0 \<le> low
           then char_of (nat (push_bit 4 high OR low)) # grpc_protocol_decode_message rest
           else c # grpc_protocol_decode_message cs)
      | _ \<Rightarrow> c # grpc_protocol_decode_message cs)"

section \<open>grpc-timeout\<close>

text \<open>C's \<open>/\<close> and \<open>%\<close> agree with \<open>div\<close> and \<open>mod\<close> here: the operands are positive.\<close>

definition grpc_lite_ceil_div_timeout :: "int \<Rightarrow> int \<Rightarrow> int" where
  "grpc_lite_ceil_div_timeout v u = v div u + (if v mod u \<noteq> 0 then 1 else 0)"

definition timeout_value_unit :: "int \<Rightarrow> int \<times> char" where
  "timeout_value_unit timeout_us =
     (if timeout_us \<le> 99999999 then (timeout_us, CHR ''u'')
      else if grpc_lite_ceil_div_timeout timeout_us 1000 \<le> 99999999
        then (grpc_lite_ceil_div_timeout timeout_us 1000, CHR ''m'')
      else if grpc_lite_ceil_div_timeout timeout_us 1000000 \<le> 99999999
        then (grpc_lite_ceil_div_timeout timeout_us 1000000, CHR ''S'')
      else if grpc_lite_ceil_div_timeout timeout_us 60000000 \<le> 99999999
        then (grpc_lite_ceil_div_timeout timeout_us 60000000, CHR ''M'')
      else (let v = grpc_lite_ceil_div_timeout timeout_us 3600000000
            in (if 99999999 < v then 99999999 else v, CHR ''H'')))"

text \<open>
  The formatter returns the text written to the buffer, \<open>[]\<close> where the C function returns 0
  (no timeout, or the text does not fit the buffer).
\<close>

definition grpc_lite_format_timeout_us :: "nat \<Rightarrow> int \<Rightarrow> string" where
  "grpc_lite_format_timeout_us buffer_len timeout_us =
     (if buffer_len = 0 \<or> timeout_us \<le> 0 then []
      else (let (v, u) = timeout_value_unit timeout_us; text = dec_int v @ [u]
            in if buffer_len \<le> length text then [] else text))"

section \<open>The status value parser accepts exactly the canonical decimals 0 to 16\<close>

lemma two_digit_cases:
  assumes "length v \<le> 2" "v \<noteq> []"
  obtains c where "v = [c]" | c d where "v = [c, d]"
  using assms by (cases v; cases "tl v") auto

lemma dec_nat_one: "n < 10 \<Longrightarrow> dec_nat n = [digit_char n]"
  by (subst dec_nat.simps) simp

lemma dec_nat_two:
  "10 \<le> n \<Longrightarrow> n < 100 \<Longrightarrow> dec_nat n = [digit_char (n div 10), digit_char (n mod 10)]"
  by (subst dec_nat.simps) (simp add: dec_nat_one)

lemma digit_char_uchar: "48 \<le> uchar c \<Longrightarrow> digit_char (uchar c - 48) = c"
  by (simp add: digit_char_def)

lemma parse_status_digits:
  "list_all is_digit v \<Longrightarrow> parse_status_loop v s = Some (s * 10 ^ length v + int (dec_value v))"
proof (induction v rule: rev_induct)
  case Nil
  then show ?case by (simp add: dec_value_def)
next
  case (snoc c v)
  have loop_append: "parse_status_loop (xs @ ys) t = Option.bind (parse_status_loop xs t) (parse_status_loop ys)"
    for xs ys t by (induction xs arbitrary: t) auto
  from snoc.prems have "list_all is_digit v" and "is_digit c" by simp_all
  then have c: "48 \<le> uchar c" "uchar c \<le> 57" by (simp_all add: is_digit_def)
  with snoc.IH \<open>list_all is_digit v\<close> have "parse_status_loop v s = Some (s * 10 ^ length v + int (dec_value v))" by simp
  with c show ?case
    by (simp add: loop_append dec_value_snoc digit_value_def algebra_simps)
qed

lemma parse_status_nondigit:
  "\<not> list_all is_digit v \<Longrightarrow> parse_status_loop v s = None"
  by (induction v arbitrary: s) (auto simp: is_digit_def)

lemma parse_status_of_dec:
  assumes "n \<le> 16"
  shows "grpc_protocol_parse_status_value (dec_nat n) = int n"
proof (cases "n < 10")
  case True
  with assms show ?thesis
    by (simp add: grpc_protocol_parse_status_value_def dec_nat_one)
next
  case False
  with assms have n: "10 \<le> n" "n < 100" "n div 10 = 1" by auto
  have "uchar (digit_char 1) \<noteq> uchar CHR ''0''" by (simp del: of_char_eq_iff)
  then have ne: "digit_char 1 \<noteq> CHR ''0''" by metis
  have "parse_status_loop (dec_nat n) 0 = Some (int n)"
    by (simp add: parse_status_digits dec_nat_digits dec_value_dec_nat)
  with assms n ne show ?thesis
    by (simp add: grpc_protocol_parse_status_value_def dec_nat_two)
qed

lemma canonical_decimal:
  assumes "list_all is_digit v" "v \<noteq> []" "length v \<le> 2" "length v = 1 \<or> hd v \<noteq> CHR ''0''"
  shows "dec_nat (dec_value v) = v"
  using assms(3,2)
proof (cases rule: two_digit_cases)
  case (1 c)
  with assms(1) have "48 \<le> uchar c" "uchar c \<le> 57" by (simp_all add: is_digit_def)
  with 1 show ?thesis
    by (simp add: dec_value_def digit_value_def dec_nat_one digit_char_uchar)
next
  case (2 c d)
  with assms have c: "48 \<le> uchar c" "uchar c \<le> 57" and d: "48 \<le> uchar d" "uchar d \<le> 57"
    and nz: "c \<noteq> CHR ''0''"
    by (simp_all add: is_digit_def)
  from nz have "uchar c \<noteq> 48"
    by (simp add: char_uchar_iff [of c] del: of_char_eq_iff)
  define x where "x = uchar c - 48"
  define y where "y = uchar d - 48"
  have xy: "1 \<le> x" "x \<le> 9" "y \<le> 9"
    using c d \<open>uchar c \<noteq> 48\<close> by (auto simp: x_def y_def)
  have "dec_value v = x * 10 + y"
    by (simp add: 2 dec_value_def digit_value_def x_def y_def)
  then have "dec_nat (dec_value v) = [digit_char x, digit_char y]"
    using xy by (simp add: dec_nat_two)
  then show ?thesis using 2 c d by (simp add: x_def y_def digit_char_uchar)
qed

lemma parse_status_range: "-1 \<le> grpc_protocol_parse_status_value v \<and> grpc_protocol_parse_status_value v \<le> 16"
proof (cases "list_all is_digit v")
  case True
  then show ?thesis
    by (simp add: grpc_protocol_parse_status_value_def parse_status_digits)
next
  case False
  then show ?thesis
    by (simp add: grpc_protocol_parse_status_value_def parse_status_nondigit)
qed

lemma parse_status_complete:
  assumes "grpc_protocol_parse_status_value v = int n"
  shows "n \<le> 16 \<and> v = dec_nat n"
proof -
  from assms have ok: "0 \<le> grpc_protocol_parse_status_value v" by simp
  then have shape: "v \<noteq> []" "length v \<le> 2" "length v = 1 \<or> hd v \<noteq> CHR ''0''"
    and d: "list_all is_digit v"
    by (auto simp: grpc_protocol_parse_status_value_def parse_status_nondigit
        not_less le_Suc_eq split: if_splits)
       (use parse_status_nondigit in fastforce)+
  then have "grpc_protocol_parse_status_value v = int (dec_value v)"
    using ok by (auto simp: grpc_protocol_parse_status_value_def parse_status_digits split: if_splits)
  with assms have "dec_value v = n" by simp
  with shape d have "v = dec_nat n" using canonical_decimal by metis
  then show ?thesis using assms parse_status_range [of v] by simp
qed


section \<open>The timeout formatter never shortens a deadline\<close>

text \<open>Microseconds per \<open>grpc-timeout\<close> unit (gRPC over HTTP/2, Timeout-Unit).\<close>

definition timeout_unit_us :: "char \<Rightarrow> int" where
  "timeout_unit_us u =
     (if u = CHR ''u'' then 1 else if u = CHR ''m'' then 1000 else if u = CHR ''S'' then 1000000
      else if u = CHR ''M'' then 60000000 else if u = CHR ''H'' then 3600000000 else 0)"

lemma ceil_div_bounds:
  assumes "0 < u"
  shows "v \<le> grpc_lite_ceil_div_timeout v u * u"
    and "(grpc_lite_ceil_div_timeout v u - 1) * u < v"
proof -
  define q r where "q = v div u" and "r = v mod u"
  have eq: "v = q * u + r" and lo: "0 \<le> r" and hi: "r < u"
    using assms by (simp_all add: q_def r_def)
  have c: "grpc_lite_ceil_div_timeout v u = q + (if r \<noteq> 0 then 1 else 0)"
    by (simp add: grpc_lite_ceil_div_timeout_def q_def r_def)
  show "v \<le> grpc_lite_ceil_div_timeout v u * u"
    using c lo hi by (subst eq) (simp add: algebra_simps)
  show "(grpc_lite_ceil_div_timeout v u - 1) * u < v"
    using c lo hi by (subst (2) eq) (simp add: algebra_simps)
qed

lemma ceil_div_pos:
  assumes "0 < u" "0 < v"
  shows "0 < grpc_lite_ceil_div_timeout v u"
proof (rule ccontr)
  assume "\<not> ?thesis"
  then have "grpc_lite_ceil_div_timeout v u * u \<le> 0"
    using assms(1) by (simp add: mult_nonpos_nonneg)
  with ceil_div_bounds(1) [OF assms(1), of v] assms(2) show False by simp
qed

lemma timeout_scaled_ok:
  assumes "0 < t" "0 < k" "timeout_unit_us u = k" "grpc_lite_ceil_div_timeout t k \<le> 99999999"
  shows "0 < grpc_lite_ceil_div_timeout t k
    \<and> (grpc_lite_ceil_div_timeout t k - 1) * timeout_unit_us u < t
    \<and> t \<le> grpc_lite_ceil_div_timeout t k * timeout_unit_us u"
  using assms ceil_div_bounds [of k t] ceil_div_pos [of k t] by simp

lemma timeout_value_unit_bounds:
  assumes t: "0 < t"
  shows "case timeout_value_unit t of (v, u) \<Rightarrow>
     0 < v \<and> v \<le> 99999999 \<and> u \<in> {CHR ''u'', CHR ''m'', CHR ''S'', CHR ''M'', CHR ''H''}
     \<and> (v - 1) * timeout_unit_us u < t
     \<and> (t \<le> v * timeout_unit_us u \<or> (v = 99999999 \<and> u = CHR ''H''))"
proof -
  have units: "timeout_unit_us CHR ''u'' = 1" "timeout_unit_us CHR ''m'' = 1000"
    "timeout_unit_us CHR ''S'' = 1000000" "timeout_unit_us CHR ''M'' = 60000000"
    "timeout_unit_us CHR ''H'' = 3600000000"
    by (simp_all add: timeout_unit_us_def)
  let ?c = "grpc_lite_ceil_div_timeout t"
  consider (us) "t \<le> 99999999" | (ms) "\<not> t \<le> 99999999" "?c 1000 \<le> 99999999"
    | (sec) "\<not> t \<le> 99999999" "\<not> ?c 1000 \<le> 99999999" "?c 1000000 \<le> 99999999"
    | (min) "\<not> t \<le> 99999999" "\<not> ?c 1000 \<le> 99999999" "\<not> ?c 1000000 \<le> 99999999"
        "?c 60000000 \<le> 99999999"
    | (hour) "\<not> t \<le> 99999999" "\<not> ?c 1000 \<le> 99999999" "\<not> ?c 1000000 \<le> 99999999"
        "\<not> ?c 60000000 \<le> 99999999"
    by blast
  then show ?thesis
  proof cases
    case us
    then show ?thesis using t by (simp add: timeout_value_unit_def units)
  next
    case ms
    then show ?thesis using timeout_scaled_ok [OF t _ units(2)]
      by (simp add: timeout_value_unit_def units)
  next
    case sec
    then show ?thesis using timeout_scaled_ok [OF t _ units(3)]
      by (simp add: timeout_value_unit_def units)
  next
    case min
    then show ?thesis using timeout_scaled_ok [OF t _ units(4)]
      by (simp add: timeout_value_unit_def units)
  next
    case hour
    have "0 < ?c 3600000000" "t \<le> ?c 3600000000 * 3600000000" "(?c 3600000000 - 1) * 3600000000 < t"
      using ceil_div_bounds [of 3600000000 t] ceil_div_pos [of 3600000000 t] t by simp_all
    then show ?thesis using hour by (simp add: timeout_value_unit_def units Let_def)
  qed
qed

text \<open>
  C2. For every positive timeout the header text fits the caller's 32 byte buffer and is a decimal of
  at most eight digits followed by a unit; the encoded duration is never shorter than the requested
  one, except at the cap of 99999999 hours, and overshoots it by less than one unit.
\<close>

theorem format_timeout_rounds_up:
  assumes "0 < t"
  shows "\<exists>v u. grpc_lite_format_timeout_us 32 t = dec_nat v @ [u]
     \<and> 0 < v \<and> length (dec_nat v) \<le> 8
     \<and> u \<in> {CHR ''u'', CHR ''m'', CHR ''S'', CHR ''M'', CHR ''H''}
     \<and> (int v - 1) * timeout_unit_us u < t
     \<and> (t \<le> int v * timeout_unit_us u \<or> (v = 99999999 \<and> u = CHR ''H''))"
proof -
  obtain v u where vu: "timeout_value_unit t = (v, u)" by (metis surj_pair)
  note b = timeout_value_unit_bounds [OF assms, unfolded vu prod.case]
  define n where "n = nat v"
  have n: "v = int n" using b by (simp add: n_def)
  have len: "length (dec_nat n) \<le> 8" using b n by (intro dec_nat_length) simp_all
  have "grpc_lite_format_timeout_us 32 t = dec_nat n @ [u]"
    using assms len vu n by (simp add: grpc_lite_format_timeout_us_def dec_int_def)
  with b n len show ?thesis by auto
qed

theorem format_timeout_rounds_up_witness:
  "(0::int) < 100000001 \<and> grpc_lite_format_timeout_us 32 100000001 = ''100001m''
   \<and> (\<exists>v u. grpc_lite_format_timeout_us 32 100000001 = dec_nat v @ [u]
        \<and> (int v - 1) * timeout_unit_us u < 100000001)"
proof -
  have h: "(0::int) < 100000001" by simp
  have "grpc_lite_format_timeout_us 32 100000001 = ''100001m''"
    by (simp add: grpc_lite_format_timeout_us_def timeout_value_unit_def
        grpc_lite_ceil_div_timeout_def dec_int_def dec_nat.simps digit_char_def char_of_def bit_0)
  moreover have "\<exists>v u. grpc_lite_format_timeout_us 32 100000001 = dec_nat v @ [u]
        \<and> (int v - 1) * timeout_unit_us u < 100000001"
    using format_timeout_rounds_up [OF h] by blast
  ultimately show ?thesis by simp
qed

section \<open>Percent decoding inverts percent encoding\<close>

text \<open>
  The encoder a server applies to \<open>grpc-message\<close> (gRPC over HTTP/2, Percent-Encoded): printable
  ASCII other than the percent sign stays, every other byte becomes \<open>%XX\<close>.
\<close>

definition hex_char :: "nat \<Rightarrow> char" where
  "hex_char d = char_of (if d < 10 then 48 + d else 55 + d)"

definition percent_encode_char :: "char \<Rightarrow> string" where
  "percent_encode_char c =
     (if 32 \<le> uchar c \<and> uchar c \<le> 126 \<and> c \<noteq> CHR ''%'' then [c]
      else [CHR ''%'', hex_char (uchar c div 16), hex_char (uchar c mod 16)])"

definition percent_encode :: "string \<Rightarrow> string" where
  "percent_encode s = concat (map percent_encode_char s)"

lemma hex_value_hex_char: "d < 16 \<Longrightarrow> grpc_lite_hex_value (uchar (hex_char d)) = int d"
  by (simp add: hex_char_def grpc_lite_hex_value_def)

lemma nibbles_join: "nat (push_bit 4 (int (n div 16)) OR int (n mod 16)) = n"
proof -
  have "push_bit 4 (int (n div 16)) OR int (n mod 16) = int (push_bit 4 (n div 16) OR n mod 16)"
    by (simp add: of_nat_or_eq of_nat_push_bit)
  also have "push_bit 4 (n div 16) OR n mod 16 = push_bit 4 (drop_bit 4 n) OR take_bit 4 n"
    by (simp add: drop_bit_eq_div take_bit_eq_mod)
  also have "\<dots> = n"
    by (rule bit_eqI) (auto simp: bit_simps)
  finally show ?thesis by simp
qed

lemma decode_message_escape:
  "grpc_protocol_decode_message
     (CHR ''%'' # hex_char (uchar c div 16) # hex_char (uchar c mod 16) # rest) =
   c # grpc_protocol_decode_message rest"
proof -
  have "uchar c < 256" by simp
  then have "uchar c div 16 < 16" by (simp add: less_mult_imp_div_less)
  then show ?thesis by (simp add: hex_value_hex_char nibbles_join)
qed

lemma decode_message_plain:
  "c \<noteq> CHR ''%'' \<Longrightarrow> grpc_protocol_decode_message (c # cs) = c # grpc_protocol_decode_message cs"
  by simp

declare grpc_protocol_decode_message.simps(2) [simp del]

text \<open>
  C3. Decoding a percent-encoded status message gives back the original bytes, whatever they are.
\<close>

theorem decode_message_roundtrip: "grpc_protocol_decode_message (percent_encode s) = s"
proof (induction s)
  case Nil
  show ?case by (simp add: percent_encode_def)
next
  case (Cons c s)
  have "percent_encode (c # s) = percent_encode_char c @ percent_encode s"
    by (simp add: percent_encode_def)
  with Cons show ?case
    by (simp add: percent_encode_char_def decode_message_escape decode_message_plain)
qed

lemma decode_message_no_percent:
  "CHR ''%'' \<notin> set s \<Longrightarrow> grpc_protocol_decode_message s = s"
  by (induction s) (auto simp: decode_message_plain)

end
