(* ===== verification/Transport_Core.thy ===== *)
theory Transport_Core
  imports Prelude
begin

text \<open>
  The pure transport helpers of \<open>src/src/transport_core.c\<close>: authority construction, the clamping of
  configured limits to the widths HTTP/2 and C give them, and the input validators.
\<close>

section \<open>Constants of \<open>transport_core.h\<close>\<close>

definition GRPC_LITE_DEFAULT_MAX_RECEIVE_MESSAGE_BYTES :: nat where
  "GRPC_LITE_DEFAULT_MAX_RECEIVE_MESSAGE_BYTES = 64 * 1024 * 1024"
definition GRPC_LITE_HTTP2_DEFAULT_WINDOW_SIZE :: int where
  "GRPC_LITE_HTTP2_DEFAULT_WINDOW_SIZE = 65535"
definition GRPC_LITE_HTTP2_MAX_WINDOW_SIZE :: int where
  "GRPC_LITE_HTTP2_MAX_WINDOW_SIZE = 2147483647"
definition GRPC_LITE_HTTP2_DEFAULT_MAX_FRAME_SIZE :: int where
  "GRPC_LITE_HTTP2_DEFAULT_MAX_FRAME_SIZE = 16384"
definition GRPC_LITE_HTTP2_MAX_FRAME_SIZE :: int where
  "GRPC_LITE_HTTP2_MAX_FRAME_SIZE = 16777215"
definition GRPC_LITE_MAX_REQUEST_METADATA_VALUES :: nat where
  "GRPC_LITE_MAX_REQUEST_METADATA_VALUES = 256"
definition GRPC_LITE_REQUEST_FIXED_HEADER_COUNT :: nat where
  "GRPC_LITE_REQUEST_FIXED_HEADER_COUNT = 8"
definition GRPC_LITE_MAX_RESPONSE_METADATA_ENTRIES :: nat where
  "GRPC_LITE_MAX_RESPONSE_METADATA_ENTRIES = 128"
definition GRPC_LITE_DEFAULT_RESPONSE_METADATA_BYTES :: nat where
  "GRPC_LITE_DEFAULT_RESPONSE_METADATA_BYTES = 64 * 1024"
definition GRPC_LITE_DEFAULT_SERVER_STREAMING_READ_AHEAD_MESSAGES :: nat where
  "GRPC_LITE_DEFAULT_SERVER_STREAMING_READ_AHEAD_MESSAGES = 32"
definition GRPC_LITE_DEFAULT_SERVER_STREAMING_READ_AHEAD_BYTES :: nat where
  "GRPC_LITE_DEFAULT_SERVER_STREAMING_READ_AHEAD_BYTES = 8 * 1024 * 1024"
definition GRPC_LITE_DEFAULT_METADATA_HARD_BYTES :: nat where
  "GRPC_LITE_DEFAULT_METADATA_HARD_BYTES = 16 * 1024"
definition GRPC_LITE_MAX_PERSISTENT_CONNECTIONS :: nat where
  "GRPC_LITE_MAX_PERSISTENT_CONNECTIONS = 128"
definition GRPC_LITE_AUTHORITY_BUFFER_SIZE :: nat where
  "GRPC_LITE_AUTHORITY_BUFFER_SIZE = 512"
definition GRPC_LITE_H2_WRITE_COALESCE_MIN_CAPACITY :: nat where
  "GRPC_LITE_H2_WRITE_COALESCE_MIN_CAPACITY = 65536"
definition GRPC_LITE_H2_WRITE_COALESCE_MAX_CAPACITY :: nat where
  "GRPC_LITE_H2_WRITE_COALESCE_MAX_CAPACITY = 1024 * 1024"

lemmas transport_consts =
  GRPC_LITE_DEFAULT_MAX_RECEIVE_MESSAGE_BYTES_def GRPC_LITE_HTTP2_DEFAULT_WINDOW_SIZE_def
  GRPC_LITE_HTTP2_MAX_WINDOW_SIZE_def GRPC_LITE_HTTP2_DEFAULT_MAX_FRAME_SIZE_def
  GRPC_LITE_HTTP2_MAX_FRAME_SIZE_def GRPC_LITE_MAX_REQUEST_METADATA_VALUES_def
  GRPC_LITE_REQUEST_FIXED_HEADER_COUNT_def GRPC_LITE_MAX_RESPONSE_METADATA_ENTRIES_def
  GRPC_LITE_DEFAULT_RESPONSE_METADATA_BYTES_def
  GRPC_LITE_DEFAULT_SERVER_STREAMING_READ_AHEAD_MESSAGES_def
  GRPC_LITE_DEFAULT_SERVER_STREAMING_READ_AHEAD_BYTES_def
  GRPC_LITE_DEFAULT_METADATA_HARD_BYTES_def GRPC_LITE_MAX_PERSISTENT_CONNECTIONS_def
  GRPC_LITE_AUTHORITY_BUFFER_SIZE_def GRPC_LITE_H2_WRITE_COALESCE_MIN_CAPACITY_def
  GRPC_LITE_H2_WRITE_COALESCE_MAX_CAPACITY_def

section \<open>Authority\<close>

text \<open>
  A NULL \<open>authority\<close> pointer is \<open>None\<close>.  The explicit authority is copied up to
  \<open>buffer_len - 1\<close> bytes; the result is the buffer read as a C string up to the terminating NUL
  the function writes.
\<close>

definition build_authority :: "nat \<Rightarrow> string \<Rightarrow> int \<Rightarrow> string option \<Rightarrow> string" where
  "build_authority buffer_len host port auth =
     (case auth of
        Some a \<Rightarrow> if 0 < length a
                  then take (if length a < buffer_len - 1 then length a else buffer_len - 1) a
                  else snprintf_s buffer_len (c_str host @ '':'' @ dec_int port)
      | None \<Rightarrow> snprintf_s buffer_len (c_str host @ '':'' @ dec_int port))"

section \<open>Effective limits\<close>

definition effective_max_receive_message_bytes :: "int \<Rightarrow> nat" where
  "effective_max_receive_message_bytes n =
     (if n = -1 then SIZE_MAX
      else if 0 < n then nat n
      else GRPC_LITE_DEFAULT_MAX_RECEIVE_MESSAGE_BYTES)"

definition effective_http2_window_size :: "int \<Rightarrow> u32" where
  "effective_http2_window_size configured =
     (if configured < GRPC_LITE_HTTP2_DEFAULT_WINDOW_SIZE
        then word_of_int GRPC_LITE_HTTP2_DEFAULT_WINDOW_SIZE
      else if GRPC_LITE_HTTP2_MAX_WINDOW_SIZE < configured
        then word_of_int GRPC_LITE_HTTP2_MAX_WINDOW_SIZE
      else word_of_int configured)"

definition effective_http2_max_frame_size :: "int \<Rightarrow> u32" where
  "effective_http2_max_frame_size configured =
     (if configured < GRPC_LITE_HTTP2_DEFAULT_MAX_FRAME_SIZE
        then word_of_int GRPC_LITE_HTTP2_DEFAULT_MAX_FRAME_SIZE
      else if GRPC_LITE_HTTP2_MAX_FRAME_SIZE < configured
        then word_of_int GRPC_LITE_HTTP2_MAX_FRAME_SIZE
      else word_of_int configured)"

definition h2_write_coalesce_capacity_for_max_frame_size :: "u32 \<Rightarrow> nat" where
  "h2_write_coalesce_capacity_for_max_frame_size max_frame_size =
     (let capacity = 4 * (unat max_frame_size + 9) in
      if capacity < GRPC_LITE_H2_WRITE_COALESCE_MIN_CAPACITY
        then GRPC_LITE_H2_WRITE_COALESCE_MIN_CAPACITY
      else if GRPC_LITE_H2_WRITE_COALESCE_MAX_CAPACITY < capacity
        then GRPC_LITE_H2_WRITE_COALESCE_MAX_CAPACITY
      else capacity)"

definition effective_http2_max_header_list_size :: "int \<Rightarrow> u32" where
  "effective_http2_max_header_list_size configured =
     (if configured < 0 then 0
      else if UINT32_MAX < configured then word_of_int UINT32_MAX
      else word_of_int configured)"

text \<open>
  The soft metadata limit is scaled by 1.25 in double precision.  Values are counted in quarters, so
  that the product is the natural number \<open>5 * n\<close>; \<open>round_double\<close> rounds a natural number to 53
  significant bits, ties to even, which is what the conversion to \<open>double\<close> and the multiplication
  do (a scale by a power of two is exact).
\<close>

definition round_at :: "nat \<Rightarrow> nat \<Rightarrow> nat" where
  "round_at e n =
     (let q = n div 2 ^ e; r = n mod 2 ^ e; half = 2 ^ e div 2 in
      (if half < r \<or> (r = half \<and> odd q) then q + 1 else q) * 2 ^ e)"

fun bit_length :: "nat \<Rightarrow> nat" where
  "bit_length n = (if n = 0 then 0 else Suc (bit_length (n div 2)))"

declare bit_length.simps [simp del]

definition round_double :: "nat \<Rightarrow> nat" where
  "round_double n = (if bit_length n \<le> 53 then n else round_at (bit_length n - 53) n)"

definition effective_max_response_metadata_bytes :: "int \<Rightarrow> int \<Rightarrow> nat" where
  "effective_max_response_metadata_bytes soft_limit hard_limit =
     (if 0 \<le> hard_limit then (if SIZE_MAX < nat hard_limit then SIZE_MAX else nat hard_limit)
      else if 0 \<le> soft_limit then
        (let derived4 = round_double (5 * round_double (nat soft_limit)) in
         if 4 * round_double SIZE_MAX < derived4 then SIZE_MAX
         else if derived4 < 4 * GRPC_LITE_DEFAULT_METADATA_HARD_BYTES
           then GRPC_LITE_DEFAULT_METADATA_HARD_BYTES
         else derived4 div 4)
      else GRPC_LITE_DEFAULT_RESPONSE_METADATA_BYTES)"

section \<open>Validators\<close>

fun contains_nul_or_control :: "string \<Rightarrow> bool" where
  "contains_nul_or_control [] = False"
| "contains_nul_or_control (c # cs) =
     (if uchar c = 0 \<or> uchar c < 32 \<or> uchar c = 127 then True else contains_nul_or_control cs)"

fun contains_authority_forbidden_char :: "string \<Rightarrow> bool" where
  "contains_authority_forbidden_char [] = False"
| "contains_authority_forbidden_char (c # cs) =
     (if c = CHR ''@'' \<or> c = CHR ''/'' \<or> c = CHR 0x5C \<or> uchar c \<le> 32 \<or> uchar c = 127 then True
      else contains_authority_forbidden_char cs)"

text \<open>An error text is \<open>Some\<close>, the NULL result of a valid input is \<open>None\<close>.\<close>

fun validate_path_loop :: "nat \<Rightarrow> bool \<Rightarrow> string \<Rightarrow> string option" where
  "validate_path_loop index second_slash_seen [] =
     (if second_slash_seen then None else Some ''invalid gRPC method path'')"
| "validate_path_loop index second_slash_seen (c # cs) =
     (if uchar c \<le> 32 \<or> uchar c = 127 then Some ''invalid gRPC method path''
      else validate_path_loop (Suc index) (second_slash_seen \<or> (0 < index \<and> c = CHR ''/'')) cs)"

definition validate_grpc_path :: "string \<Rightarrow> string option" where
  "validate_grpc_path path =
     (if length path < 3 \<or> hd path \<noteq> CHR ''/'' then Some ''invalid gRPC method path''
      else validate_path_loop 0 False path)"

definition validate_channel_inputs ::
    "string \<Rightarrow> string \<Rightarrow> int \<Rightarrow> string option \<Rightarrow> string option \<Rightarrow> string option" where
  "validate_channel_inputs key host port auth tls_name =
     (let auth_len = (case auth of None \<Rightarrow> 0 | Some a \<Rightarrow> length a);
          tls_len = (case tls_name of None \<Rightarrow> 0 | Some a \<Rightarrow> length a) in
      if length key = 0 \<or> 512 < length key \<or> contains_nul_or_control key
        then Some ''invalid grpc_lite connection key''
      else if length host = 0 \<or> contains_nul_or_control host then Some ''invalid gRPC target host''
      else if port \<le> 0 \<or> 65535 < port then Some ''invalid gRPC target port''
      else if 0 < auth_len \<and>
              (GRPC_LITE_AUTHORITY_BUFFER_SIZE \<le> auth_len
               \<or> contains_authority_forbidden_char (the auth))
        then Some ''invalid gRPC authority''
      else if auth_len = 0 \<and>
              GRPC_LITE_AUTHORITY_BUFFER_SIZE \<le> length host + 1 + length (dec_int port)
        then Some ''gRPC authority is too long''
      else if 0 < tls_len \<and> contains_authority_forbidden_char (the tls_name)
        then Some ''invalid TLS verify name''
      else None)"

section \<open>Properties\<close>

lemma http2_window_bounds:
  "65535 \<le> uint (effective_http2_window_size n) \<and> uint (effective_http2_window_size n) \<le> 2147483647"
  by (auto simp: effective_http2_window_size_def transport_consts uint_word_of_int)

lemma http2_frame_bounds:
  "16384 \<le> uint (effective_http2_max_frame_size n) \<and> uint (effective_http2_max_frame_size n) \<le> 16777215"
  by (auto simp: effective_http2_max_frame_size_def transport_consts uint_word_of_int)

text \<open>
  C4. Whatever the INI settings hold, the SETTINGS values and window the connection announces are
  legal HTTP/2: windows between 65535 and $2^{31}-1$, frame size between $2^{14}$ and $2^{24}-1$; a
  setting already in the legal range is used unchanged, and the write buffer is between 64 KiB and
  1 MiB and holds at least one full DATA frame whenever that frame is no larger than the cap.
\<close>

theorem http2_settings_legal:
  "65535 \<le> uint (effective_http2_window_size n) \<and> uint (effective_http2_window_size n) \<le> 2147483647
   \<and> (65535 \<le> n \<and> n \<le> 2147483647 \<longrightarrow> uint (effective_http2_window_size n) = n)
   \<and> 16384 \<le> uint (effective_http2_max_frame_size m) \<and> uint (effective_http2_max_frame_size m) \<le> 16777215
   \<and> (16384 \<le> m \<and> m \<le> 16777215 \<longrightarrow> uint (effective_http2_max_frame_size m) = m)
   \<and> (let cap = h2_write_coalesce_capacity_for_max_frame_size (effective_http2_max_frame_size m) in
      65536 \<le> cap \<and> cap \<le> 1048576
      \<and> (unat (effective_http2_max_frame_size m) + 9 \<le> 1048576
         \<longrightarrow> unat (effective_http2_max_frame_size m) + 9 \<le> cap))"
  using http2_window_bounds [of n] http2_frame_bounds [of m]
  by (auto simp: effective_http2_window_size_def effective_http2_max_frame_size_def transport_consts
      uint_word_of_int h2_write_coalesce_capacity_for_max_frame_size_def Let_def)

theorem http2_settings_legal_witness:
  "(65535::int) \<le> 8388608 \<and> (8388608::int) \<le> 2147483647
   \<and> uint (effective_http2_window_size 8388608) = 8388608
   \<and> (16384::int) \<le> 16384 \<and> (16384::int) \<le> 16777215
   \<and> uint (effective_http2_max_frame_size 16384) = 16384
   \<and> unat (effective_http2_max_frame_size 16384) + 9 \<le> 1048576
   \<and> unat (effective_http2_max_frame_size 16384) + 9
       \<le> h2_write_coalesce_capacity_for_max_frame_size (effective_http2_max_frame_size 16384)"
proof -
  have f: "effective_http2_max_frame_size 16384 = 16384"
    by (simp add: effective_http2_max_frame_size_def transport_consts)
  show ?thesis using http2_settings_legal [of 8388608 16384] by (simp add: f Let_def)
qed

lemma bit_length_le: "n < 2 ^ k \<Longrightarrow> bit_length n \<le> k"
proof (induction k arbitrary: n)
  case 0
  then show ?case by (simp add: bit_length.simps)
next
  case (Suc k)
  then have "n div 2 < 2 ^ k" by (simp add: less_mult_imp_div_less)
  then have "bit_length (n div 2) \<le> k" by (rule Suc.IH)
  then show ?case by (subst bit_length.simps) simp
qed

lemma round_double_exact: "n < 2 ^ 53 \<Longrightarrow> round_double n = n"
  using bit_length_le [of n 53] by (simp add: round_double_def)

text \<open>
  C5. The response metadata limit is the hard limit when one is configured; with a soft limit alone
  (up to $2^{50}$) it is exactly \<open>max 16384 (soft * 1.25)\<close> rounded down, so never below the soft
  limit; with neither it is 64 KiB.
\<close>

theorem response_metadata_limit:
  assumes "int64 soft" and "int64 hard" and "soft < 2 ^ 50"
  shows "effective_max_response_metadata_bytes soft hard =
      (if 0 \<le> hard then nat hard
       else if 0 \<le> soft then max 16384 (5 * nat soft div 4)
       else 65536)
    \<and> (0 \<le> hard \<or> soft \<le> int (effective_max_response_metadata_bytes soft hard))"
proof (cases "0 \<le> hard \<or> soft < 0")
  case True
  then show ?thesis using assms(2)
    by (auto simp: effective_max_response_metadata_bytes_def transport_consts int64_def)
next
  case False
  define n where "n = nat soft"
  have n: "n < 2 ^ 50" "soft = int n" using assms(3) False by (simp_all add: n_def nat_less_iff)
  have r: "round_double (5 * round_double n) = 5 * n"
    using n by (simp add: round_double_exact)
  have big: "round_double SIZE_MAX \<ge> 2 ^ 63"
    by (simp add: round_double_def round_at_def bit_length.simps Let_def)
  have "16384 \<le> 5 * n div 4 \<longleftrightarrow> \<not> 5 * n < 65536" by arith
  then have "effective_max_response_metadata_bytes soft hard = max 16384 (5 * n div 4)"
    using False n big
    by (simp add: effective_max_response_metadata_bytes_def transport_consts r Let_def max_def)
  then show ?thesis using False n by auto
qed

theorem response_metadata_limit_witness:
  "int64 20000 \<and> int64 (-1) \<and> (20000::int) < 2 ^ 50
   \<and> effective_max_response_metadata_bytes 20000 (-1) = 25000"
proof -
  have h: "int64 20000" "int64 (-1)" "(20000::int) < 2 ^ 50" by (simp_all add: int64_def)
  show ?thesis using response_metadata_limit [OF h] h by simp
qed

section \<open>What the validators guarantee\<close>

lemma contains_nul_or_control_iff:
  "contains_nul_or_control s \<longleftrightarrow> (\<exists>c \<in> set s. uchar c < 32 \<or> uchar c = 127)"
  by (induction s) auto

lemma contains_authority_forbidden_char_iff:
  "contains_authority_forbidden_char s \<longleftrightarrow>
     (\<exists>c \<in> set s. c \<in> {CHR ''@'', CHR ''/'', CHR 0x5C} \<or> uchar c \<le> 32 \<or> uchar c = 127)"
  by (induction s) auto

lemma no_control_no_nul: "\<not> contains_nul_or_control s \<Longrightarrow> no_nul s"
  by (force simp: contains_nul_or_control_iff no_nul_def list_all_iff)

lemma validate_path_loop_valid:
  "validate_path_loop i seen s = None \<longleftrightarrow>
     (\<forall>c \<in> set s. 32 < uchar c \<and> uchar c \<noteq> 127)
     \<and> (seen \<or> (\<exists>k < length s. 0 < i + k \<and> s ! k = CHR ''/''))"
proof (induction s arbitrary: i seen)
  case Nil
  then show ?case by simp
next
  case (Cons c cs)
  have "(\<exists>k < length (c # cs). 0 < i + k \<and> (c # cs) ! k = CHR ''/'') \<longleftrightarrow>
      (0 < i \<and> c = CHR ''/'') \<or> (\<exists>k < length cs. 0 < Suc i + k \<and> cs ! k = CHR ''/'')"
    by (auto simp: less_Suc_eq_0_disj)
  with Cons show ?case by auto
qed

text \<open>
  C6. \<open>validate_grpc_path\<close> accepts exactly the paths \<open>/service/method\<close>: at least three bytes, a
  leading slash, a further slash, and neither a space, a control byte nor DEL anywhere, so an
  accepted path cannot split a header line.
\<close>

theorem validate_grpc_path_accepts:
  "validate_grpc_path path = None \<longleftrightarrow>
     3 \<le> length path \<and> path ! 0 = CHR ''/''
     \<and> (\<exists>k. 0 < k \<and> k < length path \<and> path ! k = CHR ''/'')
     \<and> (\<forall>k < length path. 32 < uchar (path ! k) \<and> uchar (path ! k) \<noteq> 127)"
proof (cases "path = []")
  case True
  then show ?thesis by (simp add: validate_grpc_path_def)
next
  case False
  then show ?thesis
    by (auto simp: validate_grpc_path_def validate_path_loop_valid hd_conv_nth not_less
        all_set_conv_all_nth)
qed

theorem validate_grpc_path_accepts_witness:
  "validate_grpc_path ''/helloworld.Greeter/SayHello'' = None
   \<and> (\<exists>k. 0 < k \<and> ''/helloworld.Greeter/SayHello'' ! k = CHR ''/'')"
proof -
  have "validate_grpc_path ''/helloworld.Greeter/SayHello'' = None"
    by (simp add: validate_grpc_path_def)
  then show ?thesis
    using validate_grpc_path_accepts [of "''/helloworld.Greeter/SayHello''"] by blast
qed

lemma validated_authority:
  assumes "validate_channel_inputs key host port auth tls_name = None"
  shows "no_nul host" "host \<noteq> []" "0 < port" "port \<le> 65535"
    and "auth = Some a \<Longrightarrow> a \<noteq> [] \<Longrightarrow> length a < 512 \<and> \<not> contains_authority_forbidden_char a"
    and "auth = None \<or> auth = Some [] \<Longrightarrow> length host + 1 + length (dec_int port) < 512"
  using assms
  by (auto simp: validate_channel_inputs_def transport_consts Let_def no_control_no_nul
      split: if_splits option.splits)

text \<open>
  C7. For inputs the channel validator accepted, the 512 byte authority buffer is never truncated:
  \<open>:authority\<close> is the configured authority byte for byte, or \<open>host:port\<close> when none is configured.
\<close>

theorem authority_not_truncated:
  assumes "validate_channel_inputs key host port auth tls_name = None"
  shows "build_authority GRPC_LITE_AUTHORITY_BUFFER_SIZE host port auth =
    (case auth of Some a \<Rightarrow> if a \<noteq> [] then a else host @ '':'' @ dec_int port
                | None \<Rightarrow> host @ '':'' @ dec_int port)"
proof -
  note v = validated_authority [OF assms]
  have plain: "no_nul (host @ '':'' @ dec_int port)"
    using v(1,3) by (simp add: dec_int_def)
  have hp: "snprintf_s 512 (c_str host @ '':'' @ dec_int port) = host @ '':'' @ dec_int port"
    if "auth = None \<or> auth = Some []"
    using v(6) [OF that] plain v(1) by (simp add: c_str_id snprintf_s_id)
  show ?thesis
    using v(5) hp
    by (auto simp: build_authority_def transport_consts split: option.splits)
qed

theorem authority_not_truncated_witness:
  "validate_channel_inputs ''k'' ''example.com'' 443 None None = None
   \<and> build_authority GRPC_LITE_AUTHORITY_BUFFER_SIZE ''example.com'' 443 None = ''example.com'' @ '':'' @ dec_int 443"
proof -
  have h: "validate_channel_inputs ''k'' ''example.com'' 443 None None = None"
    by (simp add: validate_channel_inputs_def transport_consts dec_int_def dec_nat.simps)
  then show ?thesis using authority_not_truncated [OF h] by simp
qed

end
