(* ===== verification/Exchange_State.thy ===== *)
theory Exchange_State
  imports Prelude
begin

text \<open>
  The state the transport keeps: the per-RPC exchange \<open>grpc_call\<close> and its lists
  (\<open>grpc_exchange_state.h\<close>), the shared HTTP/2 connection \<open>h2_connection\<close> and the persistent cache
  entry (\<open>transport.h\<close>), the result structures (\<open>grpc_result.h\<close>) and the status constants
  (\<open>grpc_constants.h\<close>).  Pointers to connections and calls are addresses (\<open>conn_id\<close>, \<open>call_id\<close>) into
  stores, a NULL pointer is \<open>None\<close>; privately owned strings and queues are values.  Fields that exist
  only in the benchmark build are left out.
\<close>

type_synonym conn_id = nat
type_synonym call_id = nat

section \<open>Status and error codes\<close>

abbreviation (input) GRPC_STATUS_OK :: int where "GRPC_STATUS_OK \<equiv> 0"
abbreviation (input) GRPC_STATUS_CANCELLED :: int where "GRPC_STATUS_CANCELLED \<equiv> 1"
abbreviation (input) GRPC_STATUS_UNKNOWN :: int where "GRPC_STATUS_UNKNOWN \<equiv> 2"
abbreviation (input) GRPC_STATUS_DEADLINE_EXCEEDED :: int where "GRPC_STATUS_DEADLINE_EXCEEDED \<equiv> 4"
abbreviation (input) GRPC_STATUS_PERMISSION_DENIED :: int where "GRPC_STATUS_PERMISSION_DENIED \<equiv> 7"
abbreviation (input) GRPC_STATUS_RESOURCE_EXHAUSTED :: int where "GRPC_STATUS_RESOURCE_EXHAUSTED \<equiv> 8"
abbreviation (input) GRPC_STATUS_UNIMPLEMENTED :: int where "GRPC_STATUS_UNIMPLEMENTED \<equiv> 12"
abbreviation (input) GRPC_STATUS_INTERNAL :: int where "GRPC_STATUS_INTERNAL \<equiv> 13"
abbreviation (input) GRPC_STATUS_UNAVAILABLE :: int where "GRPC_STATUS_UNAVAILABLE \<equiv> 14"
abbreviation (input) GRPC_STATUS_UNAUTHENTICATED :: int where "GRPC_STATUS_UNAUTHENTICATED \<equiv> 16"

text \<open>HTTP/2 error codes (RFC 9113, section 7) under their nghttp2 names.\<close>

abbreviation (input) NGHTTP2_NO_ERROR :: nat where "NGHTTP2_NO_ERROR \<equiv> 0"
abbreviation (input) NGHTTP2_PROTOCOL_ERROR :: nat where "NGHTTP2_PROTOCOL_ERROR \<equiv> 1"
abbreviation (input) NGHTTP2_REFUSED_STREAM :: nat where "NGHTTP2_REFUSED_STREAM \<equiv> 7"
abbreviation (input) NGHTTP2_CANCEL :: nat where "NGHTTP2_CANCEL \<equiv> 8"
abbreviation (input) NGHTTP2_ENHANCE_YOUR_CALM :: nat where "NGHTTP2_ENHANCE_YOUR_CALM \<equiv> 11"
abbreviation (input) NGHTTP2_INADEQUATE_SECURITY :: nat where "NGHTTP2_INADEQUATE_SECURITY \<equiv> 12"

text \<open>nghttp2 library return codes the sources name.\<close>

abbreviation (input) NGHTTP2_ERR_INVALID_ARGUMENT :: int where "NGHTTP2_ERR_INVALID_ARGUMENT \<equiv> -501"
abbreviation (input) NGHTTP2_ERR_TEMPORAL_CALLBACK_FAILURE :: int where
  "NGHTTP2_ERR_TEMPORAL_CALLBACK_FAILURE \<equiv> -521"
abbreviation (input) NGHTTP2_ERR_CALLBACK_FAILURE :: int where "NGHTTP2_ERR_CALLBACK_FAILURE \<equiv> -902"

text \<open>Linux errno values the sources test or set.\<close>

abbreviation (input) EINTR :: int where "EINTR \<equiv> 4"
abbreviation (input) EAGAIN :: int where "EAGAIN \<equiv> 11"
abbreviation (input) EINVAL :: int where "EINVAL \<equiv> 22"
abbreviation (input) EMSGSIZE :: int where "EMSGSIZE \<equiv> 90"
abbreviation (input) ECONNRESET :: int where "ECONNRESET \<equiv> 104"
abbreviation (input) ETIMEDOUT :: int where "ETIMEDOUT \<equiv> 110"

section \<open>The exchange\<close>

record metadata_entry =
  me_key :: string
  me_value :: string
  me_trailing :: bool

record grpc_call =
  connection :: "conn_id option"
  next_active_stream :: "call_id option"
  method_path :: "string option"
  stream_id :: int
  retry_attempt :: nat
  stream_registered :: bool
  connection_owned :: bool
  stream_closed :: bool
  grpc_status :: int
  grpc_message :: "string option"
  stream_error_code :: nat
  stream_reset_seen :: bool
  locally_cancelled :: bool
  connection_broken :: bool
  stream_refused_seen :: bool
  http_status :: int
  compressed_response_seen :: bool
  response_message_too_large :: bool
  malformed_response_frame :: bool
  metadata_too_large :: bool
  content_type_seen :: bool
  invalid_content_type :: bool
  unsupported_response_encoding :: bool
  response_queue_limit_exceeded :: bool
  content_type :: "string option"
  grpc_encoding :: "string option"
  discard_response_body :: bool
  invalid_grpc_status :: bool
  grpc_status_seen :: bool
  initial_grpc_status_seen :: bool
  initial_headers_end_stream :: bool
  trailing_headers_seen :: bool
  response_message_count :: nat
  max_response_messages :: nat
  max_receive_message_bytes :: nat
  timed_out :: bool
  last_io_errno :: int
  last_ssl_error :: int
  last_io_error_detail :: string
  deadline_abs_us :: nat
  decode_response_incrementally :: bool
  direct_response_payload :: bool
  queue_response_payloads :: bool
  response_queue :: "byte list list"
  response_queue_count :: nat
  response_queue_bytes :: nat
  metadata_list :: "metadata_entry list"
  metadata_entry_count :: nat
  metadata_bytes :: nat
  max_response_metadata_bytes :: nat
  response_header_buf :: "byte list"
  response_header_len :: nat
  response_payload_len :: u32
  response_payload_offset :: nat
  response_payload :: "byte list option"
  response_body :: "byte list"
  grpc_header :: "byte list"
  grpc_header_len :: nat
  request_bytes :: "byte list"
  request_offset :: nat

text \<open>The structure after \<open>memset(&call, 0, sizeof(call))\<close>.\<close>

definition grpc_call_zero :: grpc_call where
  "grpc_call_zero = \<lparr>
     connection = None, next_active_stream = None, method_path = None, stream_id = 0,
     retry_attempt = 0, stream_registered = False, connection_owned = False, stream_closed = False,
     grpc_status = 0, grpc_message = None, stream_error_code = 0, stream_reset_seen = False,
     locally_cancelled = False, connection_broken = False, stream_refused_seen = False,
     http_status = 0, compressed_response_seen = False, response_message_too_large = False,
     malformed_response_frame = False, metadata_too_large = False, content_type_seen = False,
     invalid_content_type = False, unsupported_response_encoding = False,
     response_queue_limit_exceeded = False, content_type = None, grpc_encoding = None,
     discard_response_body = False, invalid_grpc_status = False, grpc_status_seen = False,
     initial_grpc_status_seen = False, initial_headers_end_stream = False,
     trailing_headers_seen = False, response_message_count = 0, max_response_messages = 0,
     max_receive_message_bytes = 0, timed_out = False, last_io_errno = 0, last_ssl_error = 0,
     last_io_error_detail = [], deadline_abs_us = 0, decode_response_incrementally = False,
     direct_response_payload = False, queue_response_payloads = False, response_queue = [],
     response_queue_count = 0, response_queue_bytes = 0, metadata_list = [],
     metadata_entry_count = 0, metadata_bytes = 0, max_response_metadata_bytes = 0,
     response_header_buf = [0, 0, 0, 0, 0], response_header_len = 0, response_payload_len = 0,
     response_payload_offset = 0, response_payload = None, response_body = [],
     grpc_header = [0, 0, 0, 0, 0], grpc_header_len = 0, request_bytes = [], request_offset = 0\<rparr>"

section \<open>The connection\<close>

text \<open>
  \<open>'ss\<close> is the state of the nghttp2 session object, which is opaque to the sources.  The pointers
  \<open>ssl\<close> and \<open>ssl_ctx\<close> are only tested against NULL by the code modelled here; the write
  buffer is its filled prefix (\<open>write_buffer_len\<close> is the length of the list).
\<close>

record 'ss h2_connection =
  h2_fd :: int
  h2_tls :: bool
  h2_persistent :: bool
  h2_ssl :: bool
  h2_session :: "'ss option"
  h2_authority :: string
  h2_dead :: bool
  h2_draining :: bool
  h2_detached_from_cache :: bool
  h2_active_stream_count :: nat
  h2_stream_owner_count :: nat
  h2_active_streams :: "call_id option"
  h2_current_io_call :: "call_id option"
  h2_current_read_call :: "call_id option"
  h2_current_write_deadline_abs_us :: nat
  h2_current_write_timed_out :: bool
  h2_write_buffer :: "byte list"
  h2_write_buffer_cap :: nat
  h2_write_coalescing :: bool
  h2_recv_scratch_len :: nat
  h2_setup_deadline_abs_us :: nat
  h2_setup_timed_out :: bool
  h2_last_error :: int
  h2_last_io_errno :: int
  h2_last_ssl_error :: int
  h2_tls_verify_result :: int
  h2_last_error_detail :: string
  h2_negotiated_protocol :: string
  h2_last_goaway_error_code :: nat
  h2_last_goaway_stream_id :: int

record persistent_connection_entry =
  pe_connection :: conn_id
  pe_connection_key_identity :: string

text \<open>The INI settings kept in the module globals (\<open>module.h\<close>).\<close>

record module_globals =
  http2_stream_window_size :: int
  http2_connection_window_size :: int
  http2_max_frame_size :: int
  http2_max_header_list_size :: int
  server_streaming_read_ahead_max_messages :: int
  server_streaming_read_ahead_max_bytes :: int
  preflight_drain_max_bytes :: int

section \<open>Results\<close>

datatype grpc_lite_refused_kind =
  GRPC_LITE_REFUSED_NONE | GRPC_LITE_REFUSED_GOAWAY | GRPC_LITE_REFUSED_RST_STREAM

record grpc_lite_status_result =
  sr_code :: int
  sr_details :: string

record grpc_lite_attempt_outcome =
  transparent_retryable_unprocessed :: bool
  refused_kind :: grpc_lite_refused_kind
  response_started :: bool

section \<open>Library functions the transport calls\<close>

text \<open>
  The functions of nghttp2, OpenSSL, PHP and libc that the sources call and that are not part of
  the repository are the fields of this record; every definition that calls one takes the record
  as an argument.  A session function returns the new session state.
\<close>

record 'ss lib =
  nghttp2_session_get_stream_user_data :: "'ss \<Rightarrow> int \<Rightarrow> call_id option"
  nghttp2_session_set_stream_user_data :: "'ss \<Rightarrow> int \<Rightarrow> call_id option \<Rightarrow> 'ss \<times> int"
  nghttp2_submit_rst_stream :: "'ss \<Rightarrow> int \<Rightarrow> nat \<Rightarrow> 'ss \<times> int"
  nghttp2_submit_request :: "'ss \<Rightarrow> (string \<times> string) list \<Rightarrow> call_id \<Rightarrow> 'ss \<times> int"
  nghttp2_is_fatal :: "int \<Rightarrow> bool"
  nghttp2_strerror :: "int \<Rightarrow> string"
  libc_strerror :: "int \<Rightarrow> string"
  zstr_max_len :: nat

section \<open>Connection flags and errors\<close>

definition set_connection_error_detail :: "string \<Rightarrow> 'ss h2_connection \<Rightarrow> 'ss h2_connection" where
  "set_connection_error_detail detail c = c\<lparr>h2_last_error_detail := snprintf_s 256 detail\<rparr>"

definition mark_connection_dead :: "'ss lib \<Rightarrow> int \<Rightarrow> 'ss h2_connection \<Rightarrow> 'ss h2_connection" where
  "mark_connection_dead L error_code c =
     (let c = c\<lparr>h2_dead := True, h2_last_error := error_code\<rparr> in
      if 0 < error_code then
        (let c = c\<lparr>h2_last_io_errno := error_code\<rparr> in
         if h2_last_error_detail c = []
         then c\<lparr>h2_last_error_detail := snprintf_s 256 (libc_strerror L error_code)\<rparr> else c)
      else if error_code < 0 then
        (if h2_last_error_detail c = []
         then c\<lparr>h2_last_error_detail := snprintf_s 256 (''nghttp2 error: '' @ c_str (nghttp2_strerror L error_code))\<rparr>
         else c)
      else if h2_last_error_detail c = []
        then c\<lparr>h2_last_error_detail := snprintf_s 256 ''connection closed''\<rparr>
      else c)"

definition mark_connection_draining :: "int \<Rightarrow> nat \<Rightarrow> 'ss h2_connection \<Rightarrow> 'ss h2_connection" where
  "mark_connection_draining last_stream_id error_code c =
     c\<lparr>h2_draining := True, h2_last_goaway_stream_id := last_stream_id,
       h2_last_goaway_error_code := error_code\<rparr>"

text \<open>Both predicates are false on a NULL connection.\<close>

definition connection_usable :: "'ss h2_connection option \<Rightarrow> bool" where
  "connection_usable co \<longleftrightarrow>
     (case co of None \<Rightarrow> False
      | Some c \<Rightarrow> 0 \<le> h2_fd c \<and> h2_session c \<noteq> None \<and> \<not> h2_dead c \<and> \<not> h2_draining c)"

definition connection_io_allowed :: "'ss h2_connection option \<Rightarrow> bool" where
  "connection_io_allowed co \<longleftrightarrow>
     (case co of None \<Rightarrow> False
      | Some c \<Rightarrow> 0 \<le> h2_fd c \<and> h2_session c \<noteq> None \<and> \<not> h2_dead c)"

definition grpc_call_note_connection_broken ::
    "'ss h2_connection option \<Rightarrow> grpc_call \<Rightarrow> grpc_call" where
  "grpc_call_note_connection_broken co call =
     (if timed_out call then call
      else (let call = call\<lparr>connection_broken := True\<rparr> in
        case co of
          None \<Rightarrow> call
        | Some c \<Rightarrow>
          (let call = (if last_io_error_detail call = [] \<and> h2_last_error_detail c \<noteq> []
                       then call\<lparr>last_io_error_detail := snprintf_s 256 (h2_last_error_detail c)\<rparr>
                       else call)
           in if last_io_errno call = 0 then call\<lparr>last_io_errno := h2_last_io_errno c\<rparr> else call)))"

text \<open>
  The RST submission made from inside a session callback: the session may be NULL; a fatal return
  kills the connection and unwinds the callback.
\<close>

definition grpc_protocol_submit_rst_stream_in_callback ::
    "'ss lib \<Rightarrow> nat \<Rightarrow> 'ss h2_connection \<Rightarrow> grpc_call \<Rightarrow> int \<times> 'ss h2_connection" where
  "grpc_protocol_submit_rst_stream_in_callback L error_code c call =
     (case h2_session c of
        None \<Rightarrow> (0, c)
      | Some ss \<Rightarrow>
          if stream_id call \<le> 0 then (0, c)
          else (let (ss', rv) = nghttp2_submit_rst_stream L ss (stream_id call) error_code;
                    c = c\<lparr>h2_session := Some ss'\<rparr>
                in if nghttp2_is_fatal L rv
                   then (NGHTTP2_ERR_CALLBACK_FAILURE, mark_connection_dead L rv c)
                   else (0, c)))"

lemma mark_connection_dead_dead [simp]: "h2_dead (mark_connection_dead L e c)"
  by (simp add: mark_connection_dead_def Let_def)

lemma mark_connection_dead_keeps [simp]:
  "h2_fd (mark_connection_dead L e c) = h2_fd c"
  "h2_session (mark_connection_dead L e c) = h2_session c"
  "h2_draining (mark_connection_dead L e c) = h2_draining c"
  "h2_detached_from_cache (mark_connection_dead L e c) = h2_detached_from_cache c"
  "h2_active_streams (mark_connection_dead L e c) = h2_active_streams c"
  "h2_active_stream_count (mark_connection_dead L e c) = h2_active_stream_count c"
  "h2_stream_owner_count (mark_connection_dead L e c) = h2_stream_owner_count c"
  "h2_current_read_call (mark_connection_dead L e c) = h2_current_read_call c"
  by (simp_all add: mark_connection_dead_def Let_def)

lemma mark_connection_dead_detail:
  "h2_last_error_detail c \<noteq> [] \<Longrightarrow> h2_last_error_detail (mark_connection_dead L e c) = h2_last_error_detail c"
  by (simp add: mark_connection_dead_def Let_def)

lemma dead_not_allowed [simp]:
  "\<not> connection_io_allowed (Some (mark_connection_dead L e c))"
  "\<not> connection_usable (Some (mark_connection_dead L e c))"
  by (simp_all add: connection_io_allowed_def connection_usable_def)

lemma usable_io_allowed: "connection_usable co \<Longrightarrow> connection_io_allowed co"
  by (simp add: connection_usable_def connection_io_allowed_def split: option.splits)

lemma submit_rst_keeps [simp]:
  assumes "grpc_protocol_submit_rst_stream_in_callback L e c call = (rv, c')"
  shows "h2_current_read_call c' = h2_current_read_call c"
    and "rv = 0 \<or> rv = NGHTTP2_ERR_CALLBACK_FAILURE \<and> h2_dead c'"
  using assms
  by (auto simp: grpc_protocol_submit_rst_stream_in_callback_def Let_def
      split: option.splits if_splits prod.splits)

section \<open>A concrete instance\<close>

text \<open>
  A library whose functions all succeed and an open, idle connection; the examples evaluate the model
  on them.
\<close>

definition example_lib :: "unit lib" where
  "example_lib = \<lparr>
     nghttp2_session_get_stream_user_data = (\<lambda>_ _. None),
     nghttp2_session_set_stream_user_data = (\<lambda>ss _ _. (ss, 0)),
     nghttp2_submit_rst_stream = (\<lambda>ss _ _. (ss, 0)),
     nghttp2_submit_request = (\<lambda>ss _ _. (ss, 1)),
     nghttp2_is_fatal = (\<lambda>rv. rv < -900),
     nghttp2_strerror = (\<lambda>_. ''error''),
     libc_strerror = (\<lambda>_. ''error''),
     zstr_max_len = 9223372036854775807\<rparr>"

definition example_connection :: "unit h2_connection" where
  "example_connection = \<lparr>
     h2_fd = 3, h2_tls = False, h2_persistent = True, h2_ssl = False, h2_session = Some (),
     h2_authority = ''localhost'', h2_dead = False, h2_draining = False, h2_detached_from_cache = False,
     h2_active_stream_count = 0, h2_stream_owner_count = 0, h2_active_streams = None,
     h2_current_io_call = None, h2_current_read_call = None, h2_current_write_deadline_abs_us = 0,
     h2_current_write_timed_out = False, h2_write_buffer = [], h2_write_buffer_cap = 0,
     h2_write_coalescing = False, h2_recv_scratch_len = 0, h2_setup_deadline_abs_us = 0,
     h2_setup_timed_out = False, h2_last_error = 0, h2_last_io_errno = 0, h2_last_ssl_error = 0,
     h2_tls_verify_result = 0, h2_last_error_detail = [], h2_negotiated_protocol = [],
     h2_last_goaway_error_code = 0, h2_last_goaway_stream_id = 0\<rparr>"

definition example_globals :: module_globals where
  "example_globals = \<lparr>http2_stream_window_size = 0, http2_connection_window_size = 0,
     http2_max_frame_size = 0, http2_max_header_list_size = 0,
     server_streaming_read_ahead_max_messages = 2, server_streaming_read_ahead_max_bytes = 100,
     preflight_drain_max_bytes = 0\<rparr>"

lemmas example_defs = example_lib_def example_connection_def example_globals_def grpc_call_zero_def

end
