(* ===== verification/Status_Core.thy ===== *)
theory Status_Core
  imports Exchange_State Protocol_Core
begin

text \<open>
  How a finished exchange becomes a gRPC status: \<open>src/src/status_core.c\<close> (code, response-started test,
  retry outcome) and the status text of \<open>grpc_lite_status_details_from_call\<close> and
  \<open>resolve_grpc_call_status\<close> in \<open>src/src/transport.c\<close>.
\<close>

section \<open>Status code\<close>

definition http_status_to_grpc :: "int \<Rightarrow> int" where
  "http_status_to_grpc st =
     (if st = 400 then GRPC_STATUS_INTERNAL
      else if st = 401 then GRPC_STATUS_UNAUTHENTICATED
      else if st = 403 then GRPC_STATUS_PERMISSION_DENIED
      else if st = 404 then GRPC_STATUS_UNIMPLEMENTED
      else if st = 429 \<or> st = 502 \<or> st = 503 \<or> st = 504 then GRPC_STATUS_UNAVAILABLE
      else if st < 0 then GRPC_STATUS_UNAVAILABLE else GRPC_STATUS_UNKNOWN)"

definition reset_code_to_grpc :: "nat \<Rightarrow> int" where
  "reset_code_to_grpc code =
     (if code = NGHTTP2_CANCEL then GRPC_STATUS_CANCELLED
      else if code = NGHTTP2_REFUSED_STREAM then GRPC_STATUS_UNAVAILABLE
      else if code = NGHTTP2_ENHANCE_YOUR_CALM then GRPC_STATUS_RESOURCE_EXHAUSTED
      else if code = NGHTTP2_INADEQUATE_SECURITY then GRPC_STATUS_PERMISSION_DENIED
      else if code \<in> {0, 1, 2, 3, 4, 5, 6, 9, 10, 13} then GRPC_STATUS_INTERNAL
      else GRPC_STATUS_UNKNOWN)"

definition grpc_lite_status_code_from_call :: "grpc_call \<Rightarrow> bool \<Rightarrow> int" where
  "grpc_lite_status_code_from_call call cancelled =
     (if timed_out call then GRPC_STATUS_DEADLINE_EXCEEDED
      else if cancelled then GRPC_STATUS_CANCELLED
      else if invalid_grpc_status call then GRPC_STATUS_UNKNOWN
      else if grpc_status call < 0 \<and> http_status call \<noteq> 200 then http_status_to_grpc (http_status call)
      else if invalid_content_type call then GRPC_STATUS_UNKNOWN
      else if response_message_too_large call \<or> metadata_too_large call \<or> response_queue_limit_exceeded call
        then GRPC_STATUS_RESOURCE_EXHAUSTED
      else if malformed_response_frame call then GRPC_STATUS_INTERNAL
      else if compressed_response_seen call \<or> unsupported_response_encoding call then GRPC_STATUS_INTERNAL
      else if 0 \<le> grpc_status call then grpc_status call
      else if stream_refused_seen call then GRPC_STATUS_UNAVAILABLE
      else if stream_reset_seen call then reset_code_to_grpc (stream_error_code call)
      else if connection_broken call then GRPC_STATUS_UNAVAILABLE
      else if stream_closed call \<and> stream_error_code call = NGHTTP2_NO_ERROR \<and> http_status call = 200
           \<and> \<not> initial_headers_end_stream call \<and> \<not> trailing_headers_seen call
        then GRPC_STATUS_INTERNAL
      else GRPC_STATUS_UNKNOWN)"

section \<open>Retry outcome\<close>

text \<open>A NULL call counts as started.\<close>

definition grpc_lite_call_response_started :: "grpc_call option \<Rightarrow> bool" where
  "grpc_lite_call_response_started callo =
     (case callo of
        None \<Rightarrow> True
      | Some call \<Rightarrow>
          if 0 \<le> http_status call \<or> 0 < metadata_entry_count call \<or> grpc_status_seen call
             \<or> initial_grpc_status_seen call \<or> 0 \<le> grpc_status call then True
          else if metadata_too_large call \<or> content_type_seen call \<or> invalid_content_type call
             \<or> unsupported_response_encoding call \<or> invalid_grpc_status call
             \<or> response_queue_limit_exceeded call \<or> grpc_message call \<noteq> None then True
          else if 0 < response_message_count call \<or> response_queue call \<noteq> [] then True
          else if response_header_len call \<noteq> 0 \<or> response_payload_len call \<noteq> 0
             \<or> response_payload_offset call \<noteq> 0 \<or> response_payload call \<noteq> None then True
          else if 0 < length (response_body call) then True
          else False)"

definition grpc_lite_refused_kind_from_call :: "grpc_call option \<Rightarrow> grpc_lite_refused_kind" where
  "grpc_lite_refused_kind_from_call callo =
     (case callo of
        None \<Rightarrow> GRPC_LITE_REFUSED_NONE
      | Some call \<Rightarrow>
          if stream_refused_seen call then GRPC_LITE_REFUSED_GOAWAY
          else if stream_reset_seen call \<and> stream_error_code call = NGHTTP2_REFUSED_STREAM
            then GRPC_LITE_REFUSED_RST_STREAM
          else GRPC_LITE_REFUSED_NONE)"

definition grpc_lite_attempt_outcome_from_call ::
    "grpc_call option \<Rightarrow> bool \<Rightarrow> grpc_lite_attempt_outcome" where
  "grpc_lite_attempt_outcome_from_call callo userland_response_observed =
     (let started = grpc_lite_call_response_started callo;
          kind = grpc_lite_refused_kind_from_call callo
      in \<lparr>transparent_retryable_unprocessed =
            (case callo of
               None \<Rightarrow> False
             | Some call \<Rightarrow> kind \<noteq> GRPC_LITE_REFUSED_NONE \<and> retry_attempt call = 0
                            \<and> \<not> started \<and> \<not> userland_response_observed),
          refused_kind = kind,
          response_started = started\<rparr>)"

section \<open>Status details\<close>

definition details_for_code :: "grpc_call \<Rightarrow> int \<Rightarrow> string" where
  "details_for_code call code =
     (if code = GRPC_STATUS_DEADLINE_EXCEEDED then ''HTTP/2 transport deadline exceeded''
      else if code = GRPC_STATUS_UNAVAILABLE then
        (if stream_reset_seen call then ''HTTP/2 stream reset: '' @ dec_nat (stream_error_code call) else [])
      else if code = GRPC_STATUS_RESOURCE_EXHAUSTED then
        (if response_queue_limit_exceeded call then ''server streaming read-ahead queue limit exceeded''
         else ''received message exceeds maximum size'')
      else if code = GRPC_STATUS_INTERNAL then
        (if malformed_response_frame call then ''malformed gRPC response frame''
         else if unsupported_response_encoding call then
           (case grpc_encoding call of
              Some e \<Rightarrow> if 0 < length e then ''unsupported grpc-encoding: '' @ c_str e
                        else ''unsupported grpc-encoding''
            | None \<Rightarrow> ''unsupported grpc-encoding'')
         else if compressed_response_seen call then ''compressed gRPC messages are not supported''
         else if stream_reset_seen call then ''HTTP/2 stream reset: '' @ dec_nat (stream_error_code call)
         else if stream_closed call \<and> grpc_status call < 0
           then ''server closed the stream without sending trailers''
         else ''malformed gRPC response frame'')
      else if code = GRPC_STATUS_CANCELLED then ''Cancelled''
      else [])"

definition grpc_lite_status_details_from_call ::
    "'ss h2_connection option \<Rightarrow> grpc_call \<Rightarrow> int \<Rightarrow> string" where
  "grpc_lite_status_details_from_call co call code =
     (if (case grpc_message call of Some m \<Rightarrow> 0 < length m | None \<Rightarrow> False) then the (grpc_message call)
      else if code = GRPC_STATUS_DEADLINE_EXCEEDED \<and> timed_out call then ''HTTP/2 transport deadline exceeded''
      else if stream_refused_seen call then ''HTTP/2 stream refused by GOAWAY''
      else if last_io_error_detail call \<noteq> [] then last_io_error_detail call
      else if (case co of Some c \<Rightarrow> h2_last_error_detail c \<noteq> [] | None \<Rightarrow> False)
        then h2_last_error_detail (the co)
      else if http_status call \<noteq> 200
        then ''HTTP status '' @ dec_int (http_status call) @ '' without grpc-status''
      else if invalid_content_type call then
        (case content_type call of
           Some t \<Rightarrow> if 0 < length t then ''invalid gRPC content-type: '' @ c_str t
                     else ''invalid gRPC content-type''
         | None \<Rightarrow> ''invalid gRPC content-type'')
      else if invalid_grpc_status call then ''invalid grpc-status trailer''
      else details_for_code call code)"

definition resolve_grpc_call_status ::
    "'ss h2_connection option \<Rightarrow> grpc_call \<Rightarrow> bool \<Rightarrow> grpc_lite_status_result" where
  "resolve_grpc_call_status co call cancelled =
     (let code = grpc_lite_status_code_from_call call cancelled
      in \<lparr>sr_code = code, sr_details = grpc_lite_status_details_from_call co call code\<rparr>)"

section \<open>Properties of the status taxonomy\<close>

lemma http_status_to_grpc_range: "0 < http_status_to_grpc st \<and> http_status_to_grpc st \<le> 16"
  by (simp add: http_status_to_grpc_def)

lemma reset_code_to_grpc_range: "0 < reset_code_to_grpc e \<and> reset_code_to_grpc e \<le> 16"
  by (simp add: reset_code_to_grpc_def)

lemmas taxonomy_ranges = http_status_to_grpc_range reset_code_to_grpc_range

lemma status_ok_flags:
  "grpc_lite_status_code_from_call call cancelled = GRPC_STATUS_OK \<longleftrightarrow>
     grpc_status call = 0 \<and> \<not> timed_out call \<and> \<not> cancelled \<and> \<not> invalid_grpc_status call
     \<and> \<not> invalid_content_type call \<and> \<not> response_message_too_large call
     \<and> \<not> metadata_too_large call \<and> \<not> response_queue_limit_exceeded call
     \<and> \<not> malformed_response_frame call \<and> \<not> compressed_response_seen call
     \<and> \<not> unsupported_response_encoding call"
proof -
  have "http_status_to_grpc st \<noteq> 0" "reset_code_to_grpc e \<noteq> 0" for st e
    using http_status_to_grpc_range [of st] reset_code_to_grpc_range [of e] by linarith+
  then show ?thesis by (auto simp: grpc_lite_status_code_from_call_def)
qed

text \<open>
  C8. An exchange resolves to \<open>STATUS_OK\<close> exactly when the server sent a valid \<open>grpc-status: 0\<close> and
  nothing else went wrong: no deadline expiry, no cancellation, no content-type, size, framing,
  queue or compression failure.  In particular no HTTP status alone, and no connection event,
  produces OK.
\<close>

theorem status_ok_iff:
  "grpc_lite_status_code_from_call call cancelled = GRPC_STATUS_OK \<longleftrightarrow>
     grpc_status call = 0 \<and> \<not> timed_out call \<and> \<not> cancelled \<and> \<not> invalid_grpc_status call
     \<and> \<not> invalid_content_type call \<and> \<not> response_message_too_large call
     \<and> \<not> metadata_too_large call \<and> \<not> response_queue_limit_exceeded call
     \<and> \<not> malformed_response_frame call \<and> \<not> compressed_response_seen call
     \<and> \<not> unsupported_response_encoding call"
  by (rule status_ok_flags)

text \<open>The resolved code is one of the seventeen gRPC codes, provided the stored status is one the parser produced.\<close>

lemma status_code_in_range:
  assumes "-1 \<le> grpc_status call" and "grpc_status call \<le> 16"
  shows "0 \<le> grpc_lite_status_code_from_call call cancelled
       \<and> grpc_lite_status_code_from_call call cancelled \<le> 16"
  using assms taxonomy_ranges(1) [of "http_status call"] taxonomy_ranges(2) [of "stream_error_code call"]
  by (simp add: grpc_lite_status_code_from_call_def)

section \<open>Properties of the retry outcome\<close>

lemma response_started_iff:
  "grpc_lite_call_response_started (Some call) \<longleftrightarrow>
     0 \<le> http_status call \<or> 0 < metadata_entry_count call \<or> grpc_status_seen call
     \<or> initial_grpc_status_seen call \<or> 0 \<le> grpc_status call
     \<or> metadata_too_large call \<or> content_type_seen call \<or> invalid_content_type call
     \<or> unsupported_response_encoding call \<or> invalid_grpc_status call
     \<or> response_queue_limit_exceeded call \<or> grpc_message call \<noteq> None
     \<or> 0 < response_message_count call \<or> response_queue call \<noteq> []
     \<or> response_header_len call \<noteq> 0 \<or> response_payload_len call \<noteq> 0
     \<or> response_payload_offset call \<noteq> 0 \<or> response_payload call \<noteq> None
     \<or> response_body call \<noteq> []"
  by (simp add: grpc_lite_call_response_started_def)


definition refused_call :: grpc_call where
  "refused_call = grpc_call_zero\<lparr>grpc_status := -1, http_status := -1, stream_refused_seen := True\<rparr>"


text \<open>
  A \<open>RST_STREAM\<close> that arrives before any response header is reported as UNAVAILABLE whatever its
  error code: the mapping of reset codes is reached only once \<open>:status 200\<close> has been seen.
\<close>

lemma reset_before_headers_unavailable:
  assumes "stream_reset_seen call" "http_status call = -1" "grpc_status call = -1"
    and "\<not> timed_out call" "\<not> invalid_grpc_status call"
  shows "grpc_lite_status_code_from_call call False = GRPC_STATUS_UNAVAILABLE"
  using assms by (simp add: grpc_lite_status_code_from_call_def http_status_to_grpc_def)

text \<open>
  The details text follows the code: a non-empty server message wins, and a deadline is reported as
  such even when tearing the stream down recorded a transport error.
\<close>

lemma details_message_wins:
  "grpc_message call = Some m \<Longrightarrow> m \<noteq> [] \<Longrightarrow> sr_details (resolve_grpc_call_status co call cancelled) = m"
  by (simp add: resolve_grpc_call_status_def grpc_lite_status_details_from_call_def Let_def)

lemma details_deadline:
  assumes "timed_out call" "grpc_message call = None \<or> grpc_message call = Some []"
  shows "resolve_grpc_call_status co call cancelled =
    \<lparr>sr_code = GRPC_STATUS_DEADLINE_EXCEEDED, sr_details = ''HTTP/2 transport deadline exceeded''\<rparr>"
  using assms
  by (auto simp: resolve_grpc_call_status_def grpc_lite_status_details_from_call_def
      grpc_lite_status_code_from_call_def Let_def)

end
