(* ===== verification/Response_Parser.thy ===== *)
theory Response_Parser
  imports Exchange_State Protocol_Core Transport_Core
begin

text \<open>
  The incremental parser of gRPC Length-Prefixed-Messages in DATA chunks (\<open>src/src/transport.c\<close>):
  the direct decoder used by unary and server streaming calls, the length validator of the body
  aggregation path, the read-ahead limit and the response queue.  One pass of a \<open>while\<close> body is a
  definition of its own; a pass that neither consumes input nor changes the state is \<open>IterStuck\<close>,
  and the loop then returns \<open>None\<close> (the C loop would not end).
\<close>

section \<open>Message header\<close>

definition grpc_protocol_set_message_header :: "grpc_call \<Rightarrow> nat \<Rightarrow> grpc_call" where
  "grpc_protocol_set_message_header call payload_len =
     call\<lparr>grpc_header :=
            [0, word_of_nat (drop_bit 24 payload_len AND 255), word_of_nat (drop_bit 16 payload_len AND 255),
             word_of_nat (drop_bit 8 payload_len AND 255), word_of_nat (payload_len AND 255)],
          grpc_header_len := 5\<rparr>"

definition message_length_of_header :: "byte list \<Rightarrow> u32" where
  "message_length_of_header buf =
     push_bit 24 (ucast (buf ! 1)) OR push_bit 16 (ucast (buf ! 2)) OR push_bit 8 (ucast (buf ! 3))
     OR ucast (buf ! 4)"

section \<open>Read-ahead limit and response queue\<close>

definition effective_server_streaming_read_ahead_max_messages :: "module_globals \<Rightarrow> nat" where
  "effective_server_streaming_read_ahead_max_messages G =
     (if 0 < server_streaming_read_ahead_max_messages G
      then nat (server_streaming_read_ahead_max_messages G)
      else GRPC_LITE_DEFAULT_SERVER_STREAMING_READ_AHEAD_MESSAGES)"

definition effective_server_streaming_read_ahead_max_bytes :: "module_globals \<Rightarrow> nat" where
  "effective_server_streaming_read_ahead_max_bytes G =
     (if 0 < server_streaming_read_ahead_max_bytes G
      then nat (server_streaming_read_ahead_max_bytes G)
      else GRPC_LITE_DEFAULT_SERVER_STREAMING_READ_AHEAD_BYTES)"

text \<open>
  \<open>this\<close> is the address of the call; the limit applies only while another call drives the read.
\<close>

definition foreign_reader :: "'ss h2_connection \<Rightarrow> call_id \<Rightarrow> grpc_call \<Rightarrow> bool" where
  "foreign_reader c this call \<longleftrightarrow>
     connection call \<noteq> None
     \<and> (case h2_current_read_call c of None \<Rightarrow> False | Some r \<Rightarrow> r \<noteq> this)"

definition server_streaming_read_ahead_limit_would_exceed ::
    "module_globals \<Rightarrow> 'ss h2_connection \<Rightarrow> call_id \<Rightarrow> grpc_call \<Rightarrow> nat \<Rightarrow> bool" where
  "server_streaming_read_ahead_limit_would_exceed G c this call payload_len =
     (let max_messages = effective_server_streaming_read_ahead_max_messages G;
          max_bytes = effective_server_streaming_read_ahead_max_bytes G
      in queue_response_payloads call \<and> foreign_reader c this call
         \<and> (max_messages \<le> response_queue_count call
            \<or> max_bytes < payload_len
            \<or> max_bytes - payload_len < response_queue_bytes call))"

text \<open>The three assignments that drop the message being parsed.\<close>

definition reset_frame_state :: "grpc_call \<Rightarrow> grpc_call" where
  "reset_frame_state call =
     call\<lparr>response_header_len := 0, response_payload_len := 0, response_payload_offset := 0\<rparr>"

definition mark_server_streaming_read_ahead_limit_exceeded ::
    "'ss lib \<Rightarrow> 'ss h2_connection \<Rightarrow> grpc_call \<Rightarrow> int \<times> 'ss h2_connection \<times> grpc_call" where
  "mark_server_streaming_read_ahead_limit_exceeded L c call =
     (let call = reset_frame_state (call\<lparr>response_queue_limit_exceeded := True, discard_response_body := True\<rparr>);
          (rv, c) = grpc_protocol_submit_rst_stream_in_callback L NGHTTP2_CANCEL c call
      in (rv, c, call))"

definition enqueue_response_payload ::
    "'ss lib \<Rightarrow> module_globals \<Rightarrow> call_id \<Rightarrow> byte list \<Rightarrow> 'ss h2_connection \<Rightarrow> grpc_call
      \<Rightarrow> int \<times> 'ss h2_connection \<times> grpc_call" where
  "enqueue_response_payload L G this payload c call =
     (if server_streaming_read_ahead_limit_would_exceed G c this call (length payload)
      then mark_server_streaming_read_ahead_limit_exceeded L c call
      else (0, c, call\<lparr>response_queue := response_queue call @ [payload],
                       response_queue_count := response_queue_count call + 1,
                       response_queue_bytes := response_queue_bytes call + length payload\<rparr>))"

definition free_queued_response_payloads :: "grpc_call \<Rightarrow> grpc_call" where
  "free_queued_response_payloads call =
     call\<lparr>response_queue := [], response_queue_count := 0, response_queue_bytes := 0\<rparr>"

definition grpc_protocol_flag_compressed_message :: "grpc_call \<Rightarrow> grpc_call" where
  "grpc_protocol_flag_compressed_message call =
     (let call = (case grpc_encoding call of
                    Some e \<Rightarrow> if \<not> grpc_protocol_is_identity_encoding e
                              then call\<lparr>unsupported_response_encoding := True\<rparr>
                              else call\<lparr>compressed_response_seen := True\<rparr>
                  | None \<Rightarrow> call\<lparr>compressed_response_seen := True\<rparr>)
      in call\<lparr>discard_response_body := True\<rparr>)"

section \<open>The direct decoder\<close>

datatype 'ss iter =
    IterReturn int "'ss h2_connection" grpc_call
  | IterContinue "'ss h2_connection" grpc_call "byte list"
  | IterStuck

text \<open>A rejected message: flags already set on \<open>call\<close>, frame state dropped, stream reset.\<close>

definition direct_reject ::
    "'ss lib \<Rightarrow> 'ss h2_connection \<Rightarrow> grpc_call \<Rightarrow> byte list \<Rightarrow> 'ss iter" where
  "direct_reject L c call rest =
     (let call = reset_frame_state call;
          (rv, c) = grpc_protocol_submit_rst_stream_in_callback L NGHTTP2_CANCEL c call
      in if rv \<noteq> 0 then IterReturn NGHTTP2_ERR_CALLBACK_FAILURE c call else IterContinue c call rest)"

text \<open>The message is complete: the frame state is dropped, the payload queued or released.\<close>

definition direct_message_complete ::
    "'ss lib \<Rightarrow> module_globals \<Rightarrow> call_id \<Rightarrow> 'ss h2_connection \<Rightarrow> grpc_call \<Rightarrow> byte list \<Rightarrow> byte list
      \<Rightarrow> 'ss iter" where
  "direct_message_complete L G this c call payload rest =
     (let call = reset_frame_state (call\<lparr>response_payload := None\<rparr>)
      in if queue_response_payloads call then
           (case enqueue_response_payload L G this payload c call of
              (rv, c, call) \<Rightarrow> if rv \<noteq> 0 then IterReturn (-1) c call else IterContinue c call rest)
         else IterContinue c call rest)"

text \<open>
  \<open>need\<close> and \<open>take\<close>: the \<open>size_t\<close> subtraction wraps when the offset is past the length; the wrapped
  value is larger than any chunk.
\<close>

definition payload_take :: "nat \<Rightarrow> nat \<Rightarrow> nat \<Rightarrow> nat" where
  "payload_take plen off avail =
     (let need = (if off \<le> plen then plen - off else SIZE_MAX)
      in if need < avail then need else avail)"

text \<open>The payload part of the body: copy what the chunk holds, enqueue a complete message.\<close>

definition direct_payload_step ::
    "'ss lib \<Rightarrow> module_globals \<Rightarrow> call_id \<Rightarrow> 'ss h2_connection \<Rightarrow> grpc_call \<Rightarrow> byte list \<Rightarrow> 'ss iter" where
  "direct_payload_step L G this c call rest =
     (case response_payload call of
        None \<Rightarrow> IterStuck
      | Some buf \<Rightarrow>
          (let plen = unat (response_payload_len call);
               n = payload_take plen (response_payload_offset call) (length rest);
               required = response_payload_offset call + n;
               buf = (if 0 < n \<and> length buf < required then mem_resize buf required else buf);
               buf = (if 0 < n then mem_write buf (response_payload_offset call) (take n rest) else buf);
               call = call\<lparr>response_payload := Some buf, response_payload_offset := required\<rparr>;
               rest = drop n rest
           in if required = plen then direct_message_complete L G this c call buf rest
              else IterContinue c call rest))"

text \<open>
  The header is complete: the message is counted when the call has a message limit, then come the
  five checks in source order, each with the flags it sets (they share the tail \<open>direct_reject\<close>), the
  read-ahead limit and the payload buffer.
\<close>

definition direct_open_message :: "grpc_call \<Rightarrow> grpc_call" where
  "direct_open_message call =
     (let call = call\<lparr>response_payload_len := message_length_of_header (response_header_buf call)\<rparr>
      in if 0 < max_response_messages call
         then call\<lparr>response_message_count := response_message_count call + 1\<rparr> else call)"

definition direct_header_check :: "'ss lib \<Rightarrow> grpc_call \<Rightarrow> grpc_call option" where
  "direct_header_check L call =
     (if 0 < max_response_messages call \<and> max_response_messages call < response_message_count call
        then Some (call\<lparr>malformed_response_frame := True, discard_response_body := True\<rparr>)
      else if max_receive_message_bytes call < unat (response_payload_len call)
        then Some (call\<lparr>response_message_too_large := True, discard_response_body := True\<rparr>)
      else if zstr_max_len L < unat (response_payload_len call)
        then Some (call\<lparr>response_message_too_large := True, discard_response_body := True\<rparr>)
      else if 1 < response_header_buf call ! 0
        then Some (call\<lparr>malformed_response_frame := True, discard_response_body := True\<rparr>)
      else if response_header_buf call ! 0 = 1
        then Some (grpc_protocol_flag_compressed_message call)
      else None)"

definition direct_header_complete ::
    "'ss lib \<Rightarrow> module_globals \<Rightarrow> call_id \<Rightarrow> 'ss h2_connection \<Rightarrow> grpc_call \<Rightarrow> byte list \<Rightarrow> 'ss iter" where
  "direct_header_complete L G this c call rest =
     (let call = direct_open_message call;
          plen = unat (response_payload_len call)
      in case direct_header_check L call of
           Some rejected \<Rightarrow> direct_reject L c rejected rest
         | None \<Rightarrow>
             if server_streaming_read_ahead_limit_would_exceed G c this call plen
             then (case mark_server_streaming_read_ahead_limit_exceeded L c call of
                     (rv, c, call) \<Rightarrow> IterReturn rv c call)
             else direct_payload_step L G this c
                    (call\<lparr>response_payload_offset := 0,
                          response_payload :=
                            Some (replicate (if plen < length rest then plen else length rest) 0)\<rparr>)
                    rest)"

definition direct_iteration ::
    "'ss lib \<Rightarrow> module_globals \<Rightarrow> call_id \<Rightarrow> 'ss h2_connection \<Rightarrow> grpc_call \<Rightarrow> byte list \<Rightarrow> 'ss iter" where
  "direct_iteration L G this c call data =
     (if response_header_len call < 5 then
        (let need = 5 - response_header_len call;
             n = (if need < length data then need else length data);
             call = call\<lparr>response_header_buf :=
                           mem_write (response_header_buf call) (response_header_len call) (take n data),
                         response_header_len := response_header_len call + n\<rparr>;
             rest = drop n data
         in if response_header_len call < 5 then IterContinue c call rest
            else direct_header_complete L G this c call rest)
      else direct_payload_step L G this c call data)"

definition direct_stopped :: "grpc_call \<Rightarrow> bool" where
  "direct_stopped call \<longleftrightarrow>
     response_message_too_large call \<or> compressed_response_seen call
     \<or> unsupported_response_encoding call \<or> malformed_response_frame call"

definition iter_measure :: "grpc_call \<Rightarrow> byte list \<Rightarrow> nat" where
  "iter_measure call data = 2 * length data + (if response_header_len call < 5 then 0 else 1)"

lemma header_len_frame_state [simp]: "response_header_len (reset_frame_state call) = 0"
  by (simp add: reset_frame_state_def)

lemma direct_reject_shape:
  "direct_reject L c call rest = IterContinue c' call' rest' \<Longrightarrow>
     rest' = rest \<and> response_header_len call' = 0"
  by (auto simp: direct_reject_def Let_def split: prod.splits if_splits)

lemma mark_limit_header_len:
  "mark_server_streaming_read_ahead_limit_exceeded L c call = (rv, c', call') \<Longrightarrow> response_header_len call' = 0"
  by (auto simp: mark_server_streaming_read_ahead_limit_exceeded_def Let_def split: prod.splits)

lemma enqueue_header_len:
  "enqueue_response_payload L G this p c call = (rv, c', call') \<Longrightarrow> response_header_len call = 0 \<Longrightarrow>
     response_header_len call' = 0"
  by (auto simp: enqueue_response_payload_def mark_limit_header_len split: if_splits)

lemma direct_message_complete_shape:
  "direct_message_complete L G this c call payload rest = IterContinue c' call' rest' \<Longrightarrow>
     rest' = rest \<and> response_header_len call' = 0"
  by (auto simp: direct_message_complete_def Let_def dest: enqueue_header_len
      split: if_splits prod.splits)

lemma direct_payload_step_shape:
  assumes "direct_payload_step L G this c call data = IterContinue c' call' rest'"
  shows "length rest' < length data \<or> rest' = data \<and> (response_header_len call' = 0 \<or> data = [])"
proof -
  define plen where "plen = unat (response_payload_len call)"
  define off where "off = response_payload_offset call"
  define n where "n = payload_take plen off (length data)"
  have zero: "data = [] \<or> off + n = plen" if "n = 0"
    using that by (auto simp: n_def payload_take_def Let_def split: if_splits)
  have "rest' = drop n data \<and> (off + n = plen \<longrightarrow> response_header_len call' = 0)"
  proof (cases "off + n = plen")
    case True
    then show ?thesis using assms
      by (simp add: direct_payload_step_def Let_def plen_def off_def n_def split: option.splits)
         (drule direct_message_complete_shape, simp)
  next
    case False
    then show ?thesis using assms
      by (auto simp add: direct_payload_step_def Let_def plen_def off_def n_def split: option.splits)
  qed
  then show ?thesis using zero by (cases "n = 0"; cases data) auto
qed

lemma direct_header_complete_shape:
  assumes "direct_header_complete L G this c call rest = IterContinue c' call' rest'"
  shows "length rest' \<le> length rest"
  using assms
  by (auto simp: direct_header_complete_def Let_def dest!: direct_reject_shape direct_payload_step_shape
      split: if_splits prod.splits option.splits)

lemma direct_iteration_decreases:
  assumes "direct_iteration L G this c call data = IterContinue c' call' rest'" and "data \<noteq> []"
  shows "iter_measure call' rest' < iter_measure call data"
proof (cases "response_header_len call < 5")
  case True
  define n where "n = (if 5 - response_header_len call < length data then 5 - response_header_len call
    else length data)"
  have n: "0 < n" "n \<le> length data" using True assms(2) by (auto simp: n_def)
  have "length rest' \<le> length (drop n data)"
    using assms(1) True
    by (auto simp: direct_iteration_def n_def [symmetric] Let_def dest: direct_header_complete_shape
        split: if_splits)
  then have "length rest' < length data" using n by simp
  then show ?thesis using True by (simp add: iter_measure_def)
next
  case False
  then have "direct_payload_step L G this c call data = IterContinue c' call' rest'"
    using assms(1) by (simp add: direct_iteration_def)
  then show ?thesis
    using direct_payload_step_shape assms(2) False by (fastforce simp: iter_measure_def)
qed

function direct_loop ::
    "'ss lib \<Rightarrow> module_globals \<Rightarrow> call_id \<Rightarrow> 'ss h2_connection \<Rightarrow> grpc_call \<Rightarrow> byte list
      \<Rightarrow> (int \<times> 'ss h2_connection \<times> grpc_call) option" where
  "direct_loop L G this c call data =
     (if data = [] \<or> direct_stopped call then Some (0, c, call)
      else case direct_iteration L G this c call data of
             IterReturn rv c' call' \<Rightarrow> Some (rv, c', call')
           | IterContinue c' call' rest \<Rightarrow> direct_loop L G this c' call' rest
           | IterStuck \<Rightarrow> None)"
  by pat_completeness auto
termination
  by (relation "measure (\<lambda>(L, G, this, c, call, data). iter_measure call data)")
     (auto dest: direct_iteration_decreases)

declare direct_loop.simps [simp del]

definition grpc_protocol_process_response_data_direct ::
    "'ss lib \<Rightarrow> module_globals \<Rightarrow> call_id \<Rightarrow> 'ss h2_connection \<Rightarrow> grpc_call \<Rightarrow> byte list
      \<Rightarrow> (int \<times> 'ss h2_connection \<times> grpc_call) option" where
  "grpc_protocol_process_response_data_direct L G this c call data =
     (if grpc_status_seen call then
        (let call = call\<lparr>invalid_grpc_status := True, discard_response_body := True\<rparr>;
             (rv, c) = grpc_protocol_submit_rst_stream_in_callback L NGHTTP2_CANCEL c call
         in Some (rv, c, call))
      else if discard_response_body call then Some (0, c, call)
      else direct_loop L G this c call data)"

section \<open>The length validator of the aggregating path\<close>

text \<open>
  The same framing automaton without a payload buffer.  Every rejection returns the result of the RST
  submission at once and leaves the frame state as it is.
\<close>

definition validate_reject ::
    "'ss lib \<Rightarrow> 'ss h2_connection \<Rightarrow> grpc_call \<Rightarrow> 'ss iter" where
  "validate_reject L c call =
     (let (rv, c) = grpc_protocol_submit_rst_stream_in_callback L NGHTTP2_CANCEL c call
      in IterReturn rv c call)"

definition validate_payload_step :: "'ss h2_connection \<Rightarrow> grpc_call \<Rightarrow> byte list \<Rightarrow> 'ss iter" where
  "validate_payload_step c call rest =
     (if 0 < response_payload_len call then
        (let plen = unat (response_payload_len call);
             n = payload_take plen (response_payload_offset call) (length rest);
             call = call\<lparr>response_payload_offset := response_payload_offset call + n\<rparr>
         in IterContinue c (if response_payload_offset call = plen then reset_frame_state call else call)
              (drop n rest))
      else IterStuck)"

definition validate_header_complete ::
    "'ss lib \<Rightarrow> 'ss h2_connection \<Rightarrow> grpc_call \<Rightarrow> byte list \<Rightarrow> 'ss iter" where
  "validate_header_complete L c call rest =
     (let call = direct_open_message call
      in if 0 < max_response_messages call \<and> max_response_messages call < response_message_count call
           then validate_reject L c (call\<lparr>malformed_response_frame := True, discard_response_body := True\<rparr>)
         else if 1 < response_header_buf call ! 0
           then validate_reject L c (call\<lparr>malformed_response_frame := True, discard_response_body := True\<rparr>)
         else if response_header_buf call ! 0 = 1
           then validate_reject L c (grpc_protocol_flag_compressed_message call)
         else
           (let call = call\<lparr>response_payload_offset := 0\<rparr>
            in if max_receive_message_bytes call < unat (response_payload_len call)
                 then validate_reject L c (call\<lparr>response_message_too_large := True, discard_response_body := True\<rparr>)
               else if response_payload_len call = 0
                 then IterContinue c (reset_frame_state call) rest
               else validate_payload_step c call rest))"

definition validate_iteration ::
    "'ss lib \<Rightarrow> 'ss h2_connection \<Rightarrow> grpc_call \<Rightarrow> byte list \<Rightarrow> 'ss iter" where
  "validate_iteration L c call data =
     (if response_header_len call < 5 then
        (let need = 5 - response_header_len call;
             n = (if need < length data then need else length data);
             call = call\<lparr>response_header_buf :=
                           mem_write (response_header_buf call) (response_header_len call) (take n data),
                         response_header_len := response_header_len call + n\<rparr>;
             rest = drop n data
         in if response_header_len call < 5 then IterContinue c call rest
            else validate_header_complete L c call rest)
      else validate_payload_step c call data)"

lemma validate_payload_step_shape:
  assumes "validate_payload_step c call data = IterContinue c' call' rest'"
  shows "length rest' < length data \<or> rest' = data \<and> (response_header_len call' = 0 \<or> data = [])"
proof -
  define plen where "plen = unat (response_payload_len call)"
  define off where "off = response_payload_offset call"
  define n where "n = payload_take plen off (length data)"
  have "data = [] \<or> off + n = plen" if "n = 0"
    using that by (auto simp: n_def payload_take_def Let_def split: if_splits)
  moreover have "rest' = drop n data \<and> (off + n = plen \<longrightarrow> response_header_len call' = 0)"
    using assms by (auto simp: validate_payload_step_def Let_def plen_def off_def n_def split: if_splits)
  ultimately show ?thesis by (cases "n = 0"; cases data) auto
qed

lemma validate_header_complete_shape:
  "validate_header_complete L c call rest = IterContinue c' call' rest' \<Longrightarrow> length rest' \<le> length rest"
  by (auto simp: validate_header_complete_def validate_reject_def Let_def dest!: validate_payload_step_shape
      split: if_splits prod.splits)

lemma validate_iteration_decreases:
  assumes "validate_iteration L c call data = IterContinue c' call' rest'" and "data \<noteq> []"
  shows "iter_measure call' rest' < iter_measure call data"
proof (cases "response_header_len call < 5")
  case True
  define n where "n = (if 5 - response_header_len call < length data then 5 - response_header_len call
    else length data)"
  have n: "0 < n" "n \<le> length data" using True assms(2) by (auto simp: n_def)
  have "length rest' \<le> length (drop n data)"
    using assms(1) True
    by (auto simp: validate_iteration_def n_def [symmetric] Let_def dest: validate_header_complete_shape
        split: if_splits)
  then have "length rest' < length data" using n by simp
  then show ?thesis using True by (simp add: iter_measure_def)
next
  case False
  then have "validate_payload_step c call data = IterContinue c' call' rest'"
    using assms(1) by (simp add: validate_iteration_def)
  then show ?thesis
    using validate_payload_step_shape assms(2) False by (fastforce simp: iter_measure_def)
qed

function validate_loop ::
    "'ss lib \<Rightarrow> 'ss h2_connection \<Rightarrow> grpc_call \<Rightarrow> byte list \<Rightarrow> (int \<times> 'ss h2_connection \<times> grpc_call) option" where
  "validate_loop L c call data =
     (if data = [] \<or> response_message_too_large call then Some (0, c, call)
      else case validate_iteration L c call data of
             IterReturn rv c' call' \<Rightarrow> Some (rv, c', call')
           | IterContinue c' call' rest \<Rightarrow> validate_loop L c' call' rest
           | IterStuck \<Rightarrow> None)"
  by pat_completeness auto
termination
  by (relation "measure (\<lambda>(L, c, call, data). iter_measure call data)")
     (auto dest: validate_iteration_decreases)

declare validate_loop.simps [simp del]

definition grpc_protocol_validate_response_message_lengths ::
    "'ss lib \<Rightarrow> 'ss h2_connection \<Rightarrow> grpc_call \<Rightarrow> byte list \<Rightarrow> (int \<times> 'ss h2_connection \<times> grpc_call) option" where
  "grpc_protocol_validate_response_message_lengths L c call data =
     (if grpc_status_seen call then
        (let call = call\<lparr>invalid_grpc_status := True, discard_response_body := True\<rparr>;
             (rv, c) = grpc_protocol_submit_rst_stream_in_callback L NGHTTP2_CANCEL c call
         in Some (rv, c, call))
      else validate_loop L c call data)"

text \<open>
  The DATA callback for the call registered on the stream (\<open>this\<close> is its address); the lookup of
  the call is in the connection component.
\<close>

definition on_data_chunk_recv_callback ::
    "'ss lib \<Rightarrow> module_globals \<Rightarrow> call_id \<Rightarrow> int \<Rightarrow> byte list \<Rightarrow> 'ss h2_connection \<Rightarrow> grpc_call
      \<Rightarrow> (int \<times> 'ss h2_connection \<times> grpc_call) option" where
  "on_data_chunk_recv_callback L G this sid data c call =
     (if sid \<noteq> stream_id call \<or> data = [] then Some (0, c, call)
      else if direct_response_payload call \<and> decode_response_incrementally call \<and> queue_response_payloads call then
        (case grpc_protocol_process_response_data_direct L G this c call data of
           None \<Rightarrow> None
         | Some (rv, c, call) \<Rightarrow> Some (if rv \<noteq> 0 then NGHTTP2_ERR_CALLBACK_FAILURE else 0, c, call))
      else
        (case grpc_protocol_validate_response_message_lengths L c call data of
           None \<Rightarrow> None
         | Some (rv, c, call) \<Rightarrow>
             if rv \<noteq> 0 then Some (NGHTTP2_ERR_CALLBACK_FAILURE, c, call)
             else if discard_response_body call then Some (0, c, call)
             else Some (0, c, call\<lparr>response_body := response_body call @ data\<rparr>)))"

section \<open>Well-formed parser states\<close>

text \<open>
  Between two passes either a partial header is buffered and no payload, or the header is complete,
  its message is uncompressed and within the limits, and the payload holds exactly the bytes read.
\<close>

definition parser_wf :: "'ss lib \<Rightarrow> grpc_call \<Rightarrow> bool" where
  "parser_wf L call \<longleftrightarrow>
     length (response_header_buf call) = 5
     \<and> (if response_header_len call < 5
        then response_payload call = None
        else response_header_len call = 5
             \<and> (case response_payload call of
                  None \<Rightarrow> False
                | Some p \<Rightarrow> length p = response_payload_offset call
                            \<and> response_payload_offset call < unat (response_payload_len call)
                            \<and> unat (response_payload_len call) \<le> max_receive_message_bytes call))
     \<and> (direct_stopped call \<longrightarrow> discard_response_body call)"

text \<open>The effect of a payload pass once the buffer is known to hold what was read.\<close>

definition payload_pass ::
    "'ss lib \<Rightarrow> module_globals \<Rightarrow> call_id \<Rightarrow> 'ss h2_connection \<Rightarrow> grpc_call \<Rightarrow> byte list \<Rightarrow> byte list
      \<Rightarrow> 'ss iter" where
  "payload_pass L G this c call p data =
     (let plen = unat (response_payload_len call);
          n = plen - length p
      in if length p + length data < plen
         then IterContinue c (call\<lparr>response_payload := Some (p @ data),
                                   response_payload_offset := length p + length data\<rparr>) []
         else direct_message_complete L G this c call (p @ take n data) (drop n data))"

lemma message_complete_cong:
  "direct_message_complete L G this c (call\<lparr>response_payload := x, response_payload_offset := y\<rparr>) buf rest
     = direct_message_complete L G this c call buf rest"
  by (simp add: direct_message_complete_def reset_frame_state_def)

lemma mem_grow_write:
  assumes "off \<le> length buf" "length buf \<le> off + length data"
  shows "mem_write (if length buf < off + length data then mem_resize buf (off + length data) else buf) off data
           = take off buf @ data"
  using assms by (auto simp: mem_write_def mem_resize_prefix)

lemma direct_payload_step_eq:
  assumes "response_payload call = Some buf" "response_payload_offset call \<le> length buf"
    and "response_payload_offset call \<le> unat (response_payload_len call)"
    and "length buf \<le> response_payload_offset call
          + min (unat (response_payload_len call) - response_payload_offset call) (length data)"
  shows "direct_payload_step L G this c call data
           = payload_pass L G this c call (take (response_payload_offset call) buf) data"
proof -
  define plen where "plen = unat (response_payload_len call)"
  define off where "off = response_payload_offset call"
  define n where "n = min (plen - off) (length data)"
  have n: "payload_take plen off (length data) = n"
    using assms(3) by (simp add: payload_take_def Let_def n_def min_def plen_def off_def)
  have len: "off \<le> length buf" "length buf \<le> off + n"
    using assms by (simp_all add: off_def n_def plen_def)
  have lt: "length (take n data) = n" by (simp add: n_def)
  have buf: "(if 0 < n then mem_write (if 0 < n \<and> length buf < off + n then mem_resize buf (off + n) else buf)
                off (take n data)
              else (if 0 < n \<and> length buf < off + n then mem_resize buf (off + n) else buf))
             = take off buf @ take n data"
    using mem_grow_write [of off buf "take n data", unfolded lt] len by auto
  have "direct_payload_step L G this c call data =
      (if off + n = plen
       then direct_message_complete L G this c call (take off buf @ take n data) (drop n data)
       else IterContinue c (call\<lparr>response_payload := Some (take off buf @ take n data),
              response_payload_offset := off + n\<rparr>) (drop n data))"
    by (simp only: direct_payload_step_def Let_def assms(1) option.case plen_def [symmetric]
        off_def [symmetric] n buf message_complete_cong)
  also have "\<dots> = payload_pass L G this c call (take off buf) data"
    using len assms(3)
    by (auto simp: payload_pass_def Let_def plen_def [symmetric] off_def [symmetric] n_def min_def)
  finally show ?thesis by (simp add: off_def)
qed

lemma payload_pass_cong:
  "payload_pass L G this c (call\<lparr>response_payload_offset := y, response_payload := x\<rparr>) p data
     = payload_pass L G this c call p data"
  by (simp add: payload_pass_def Let_def direct_message_complete_def reset_frame_state_def)

text \<open>The fields a parser pass never changes.\<close>

definition same_frame :: "'ss h2_connection \<Rightarrow> grpc_call \<Rightarrow> 'ss h2_connection \<Rightarrow> grpc_call \<Rightarrow> bool" where
  "same_frame c call c' call' \<longleftrightarrow>
     h2_current_read_call c' = h2_current_read_call c
     \<and> connection call' = connection call
     \<and> grpc_status_seen call' = grpc_status_seen call
     \<and> queue_response_payloads call' = queue_response_payloads call
     \<and> max_receive_message_bytes call' = max_receive_message_bytes call
     \<and> max_response_messages call' = max_response_messages call
     \<and> length (response_header_buf call') = length (response_header_buf call)"

lemma foreign_reader_same_frame:
  "same_frame c call c' call' \<Longrightarrow> foreign_reader c' this call' = foreign_reader c this call"
  by (simp add: same_frame_def foreign_reader_def)

lemma same_frame_refl [simp]: "same_frame c call c call"
  by (simp add: same_frame_def)

lemma same_frame_trans:
  "same_frame c1 call1 c2 call2 \<Longrightarrow> same_frame c2 call2 c3 call3 \<Longrightarrow> same_frame c1 call1 c3 call3"
  by (simp add: same_frame_def)

lemma open_message_keeps:
  "same_frame c call c (direct_open_message call)"
  "response_payload (direct_open_message call) = response_payload call"
  "response_header_len (direct_open_message call) = response_header_len call"
  "direct_stopped (direct_open_message call) = direct_stopped call"
  "discard_response_body (direct_open_message call) = discard_response_body call"
  "response_payload_len (direct_open_message call) = message_length_of_header (response_header_buf call)"
  by (simp_all add: direct_open_message_def Let_def same_frame_def direct_stopped_def)

lemma header_check_rejects:
  assumes "direct_header_check L call = Some r"
  shows "direct_stopped r" "discard_response_body r" "same_frame c call c r"
    and "response_payload r = response_payload call"
  using assms
  by (auto simp: direct_header_check_def grpc_protocol_flag_compressed_message_def Let_def
      direct_stopped_def same_frame_def split: if_splits option.splits)

lemma word8_flag_cases: "(flag :: byte) = 0 \<or> flag = 1 \<or> 1 < flag"
  by (metis word_less_1 linorder_less_linear)

lemma header_check_passes:
  assumes "direct_header_check L call = None"
  shows "unat (response_payload_len call) \<le> max_receive_message_bytes call"
    and "response_header_buf call ! 0 = 0"
  using assms word8_flag_cases [of "response_header_buf call ! 0"]
  by (auto simp: direct_header_check_def split: if_splits)

lemma direct_header_complete_eq:
  "direct_header_complete L G this c call rest =
     (let call = direct_open_message call
      in case direct_header_check L call of
           Some rejected \<Rightarrow> direct_reject L c rejected rest
         | None \<Rightarrow>
             if server_streaming_read_ahead_limit_would_exceed G c this call (unat (response_payload_len call))
             then (case mark_server_streaming_read_ahead_limit_exceeded L c call of
                     (rv, c, call) \<Rightarrow> IterReturn rv c call)
             else payload_pass L G this c call [] rest)"
proof -
  have "direct_payload_step L G this c
      (call0\<lparr>response_payload_offset := 0,
        response_payload := Some (replicate (if unat (response_payload_len call0) < length rest
          then unat (response_payload_len call0) else length rest) 0)\<rparr>) rest
      = payload_pass L G this c call0 [] rest" for call0
    by (subst direct_payload_step_eq [where buf = "replicate (if unat (response_payload_len call0) < length rest
          then unat (response_payload_len call0) else length rest) 0"])
       (simp_all add: payload_pass_cong)
  then show ?thesis by (simp only: direct_header_complete_def Let_def)
qed

lemma direct_iteration_header:
  assumes "response_header_len call < 5" "length (response_header_buf call) = 5"
  shows "direct_iteration L G this c call data =
    (let b = mem_write (response_header_buf call) (response_header_len call)
               (take (5 - response_header_len call) data)
     in if response_header_len call + length data < 5
        then IterContinue c (call\<lparr>response_header_buf := b,
               response_header_len := response_header_len call + length data\<rparr>) []
        else direct_header_complete L G this c (call\<lparr>response_header_buf := b, response_header_len := 5\<rparr>)
               (drop (5 - response_header_len call) data))"
proof (cases "response_header_len call + length data = 5")
  case True
  then have "5 - response_header_len call = length data" by simp
  with True assms show ?thesis by (simp add: direct_iteration_def Let_def)
next
  case False
  with assms show ?thesis by (auto simp: direct_iteration_def Let_def)
qed

lemma direct_iteration_payload:
  assumes "parser_wf L call" "\<not> response_header_len call < 5"
  obtains p where "response_payload call = Some p" "length p = response_payload_offset call"
    "length p < unat (response_payload_len call)" "unat (response_payload_len call) \<le> max_receive_message_bytes call"
    "\<And>data. direct_iteration L G this c call data = payload_pass L G this c call p data"
proof -
  obtain p where p: "response_payload call = Some p" "length p = response_payload_offset call"
    "length p < unat (response_payload_len call)" "unat (response_payload_len call) \<le> max_receive_message_bytes call"
    using assms by (auto simp: parser_wf_def split: option.splits)
  have "direct_iteration L G this c call data = payload_pass L G this c call p data" for data
    using assms(2) direct_payload_step_eq [OF p(1)] p by (simp add: direct_iteration_def)
  with p show thesis by (rule that)
qed

subsection \<open>What a pass keeps\<close>

lemma direct_reject_keeps:
  assumes "direct_reject L c call rest = IterContinue c' call' rest' \<or> direct_reject L c call rest = IterReturn rv c' call'"
  shows "call' = reset_frame_state call" "h2_current_read_call c' = h2_current_read_call c"
  using assms by (auto simp: direct_reject_def Let_def split: prod.splits if_splits)

lemma direct_reject_returns:
  "direct_reject L c call rest = IterReturn rv c' call' \<Longrightarrow> rv \<noteq> 0"
  by (auto simp: direct_reject_def Let_def split: prod.splits if_splits)

lemma mark_limit_keeps:
  assumes "mark_server_streaming_read_ahead_limit_exceeded L c call = (rv, c', call')"
  shows "call' = reset_frame_state (call\<lparr>response_queue_limit_exceeded := True, discard_response_body := True\<rparr>)
    \<and> h2_current_read_call c' = h2_current_read_call c"
  using assms
  by (auto simp: mark_server_streaming_read_ahead_limit_exceeded_def Let_def split: prod.splits)

lemma enqueue_unlimited:
  "\<not> foreign_reader c this call \<Longrightarrow>
   enqueue_response_payload L G this p c call =
     (0, c, call\<lparr>response_queue := response_queue call @ [p],
               response_queue_count := response_queue_count call + 1,
               response_queue_bytes := response_queue_bytes call + length p\<rparr>)"
  by (simp add: enqueue_response_payload_def server_streaming_read_ahead_limit_would_exceed_def)

text \<open>The call a completed message leaves when the limit does not apply.\<close>

definition message_done :: "grpc_call \<Rightarrow> byte list \<Rightarrow> grpc_call" where
  "message_done call p =
     (let call = reset_frame_state (call\<lparr>response_payload := None\<rparr>)
      in if queue_response_payloads call
         then call\<lparr>response_queue := response_queue call @ [p],
                   response_queue_count := response_queue_count call + 1,
                   response_queue_bytes := response_queue_bytes call + length p\<rparr>
         else call)"

lemma foreign_reader_reset [simp]:
  "foreign_reader c this (reset_frame_state call) = foreign_reader c this call"
  "foreign_reader c this (call\<lparr>response_payload := x\<rparr>) = foreign_reader c this call"
  by (simp_all add: foreign_reader_def reset_frame_state_def)

lemma message_complete_unlimited:
  "\<not> foreign_reader c this call \<Longrightarrow>
   direct_message_complete L G this c call p rest = IterContinue c (message_done call p) rest"
  by (simp add: direct_message_complete_def message_done_def enqueue_unlimited Let_def)

definition frame_idle :: "grpc_call \<Rightarrow> bool" where
  "frame_idle call \<longleftrightarrow> response_header_len call = 0 \<and> response_payload call = None"

lemma message_complete_keeps:
  assumes "direct_message_complete L G this c call p rest = IterContinue c' call' rest'
    \<or> direct_message_complete L G this c call p rest = IterReturn rv c' call'"
  shows "same_frame c call c' call'" "frame_idle call'" "direct_stopped call' = direct_stopped call"
    and "discard_response_body call \<Longrightarrow> discard_response_body call'"
  using assms
  by (auto simp: direct_message_complete_def enqueue_response_payload_def Let_def same_frame_def
      reset_frame_state_def direct_stopped_def frame_idle_def dest!: mark_limit_keeps
      split: if_splits prod.splits)

lemma idle_wf:
  assumes "frame_idle call" "length (response_header_buf call) = 5"
    and "direct_stopped call \<Longrightarrow> discard_response_body call"
  shows "parser_wf L call"
  using assms by (simp add: parser_wf_def frame_idle_def)

lemma payload_pass_keeps:
  assumes "payload_pass L G this c call p data = IterContinue c' call' rest'
      \<or> payload_pass L G this c call p data = IterReturn rv c' call'"
    and "response_header_len call = 5" "length (response_header_buf call) = 5"
    and "unat (response_payload_len call) \<le> max_receive_message_bytes call"
    and "direct_stopped call \<Longrightarrow> discard_response_body call"
  shows "same_frame c call c' call' \<and> parser_wf L call' \<and> direct_stopped call' = direct_stopped call"
proof (cases "length p + length data < unat (response_payload_len call)")
  case True
  then have "c' = c" "call' = call\<lparr>response_payload := Some (p @ data),
      response_payload_offset := length p + length data\<rparr>"
    using assms(1) by (auto simp: payload_pass_def Let_def)
  with True assms show ?thesis by (simp add: same_frame_def parser_wf_def direct_stopped_def)
next
  case False
  define n where "n = unat (response_payload_len call) - length p"
  have "direct_message_complete L G this c call (p @ take n data) (drop n data) = IterContinue c' call' rest'
    \<or> direct_message_complete L G this c call (p @ take n data) (drop n data) = IterReturn rv c' call'"
    using assms(1) False by (simp add: payload_pass_def Let_def n_def)
  note keeps = message_complete_keeps [OF this]
  then show ?thesis using assms(3,5)
    by (auto intro!: idle_wf simp: same_frame_def)
qed

lemma header_complete_keeps:
  assumes "direct_header_complete L G this c call data = IterContinue c' call' rest'
      \<or> direct_header_complete L G this c call data = IterReturn rv c' call'"
    and "response_header_len call = 5" "length (response_header_buf call) = 5" "response_payload call = None"
    and "direct_stopped call \<Longrightarrow> discard_response_body call"
  shows "same_frame c call c' call' \<and> parser_wf L call'"
proof -
  define call0 where "call0 = direct_open_message call"
  note open0 = open_message_keeps [where call = call, folded call0_def]
  have len0: "length (response_header_buf call0) = 5" using open0(1) assms(3) by (simp add: same_frame_def)
  show ?thesis
  proof (cases "direct_header_check L call0")
    case (Some r)
    then have "direct_reject L c r data = IterContinue c' call' rest' \<or> direct_reject L c r data = IterReturn rv c' call'"
      using assms(1) by (simp add: direct_header_complete_eq call0_def)
    note k = direct_reject_keeps [OF this] and r = header_check_rejects [OF Some]
    have "same_frame c r c' call'" using k by (simp add: same_frame_def reset_frame_state_def)
    moreover have "frame_idle call'" "direct_stopped call'" "discard_response_body call'"
      using k r open0(2) assms(4) by (simp_all add: frame_idle_def reset_frame_state_def direct_stopped_def)
    ultimately show ?thesis
      using same_frame_trans [OF same_frame_trans [OF open0(1) r(3)]] len0 r(3) [of c]
      by (auto intro!: idle_wf simp: same_frame_def)
  next
    case None
    show ?thesis
    proof (cases "server_streaming_read_ahead_limit_would_exceed G c this call0 (unat (response_payload_len call0))")
      case True
      then have "mark_server_streaming_read_ahead_limit_exceeded L c call0 = (rv, c', call')"
        using assms(1) None by (auto simp: direct_header_complete_eq call0_def split: prod.splits)
      then have "same_frame c call0 c' call'" "frame_idle call'" "discard_response_body call'"
        using open0(2) assms(4)
        by (auto dest!: mark_limit_keeps simp: same_frame_def reset_frame_state_def frame_idle_def)
      then show ?thesis using same_frame_trans [OF open0(1)] len0
        by (auto intro!: idle_wf simp: same_frame_def)
    next
      case False
      then have pass: "payload_pass L G this c call0 [] data = IterContinue c' call' rest'
          \<or> payload_pass L G this c call0 [] data = IterReturn rv c' call'"
        using assms(1) None by (simp add: direct_header_complete_eq call0_def)
      have "same_frame c call0 c' call' \<and> parser_wf L call' \<and> direct_stopped call' = direct_stopped call0"
        using open0 assms len0 header_check_passes(1) [OF None] by (intro payload_pass_keeps [OF pass]) auto
      then show ?thesis using same_frame_trans [OF open0(1)] by blast
    qed
  qed
qed

lemma direct_iteration_keeps:
  assumes "parser_wf L call"
    and "direct_iteration L G this c call data = IterContinue c' call' rest'
      \<or> direct_iteration L G this c call data = IterReturn rv c' call'"
  shows "same_frame c call c' call' \<and> parser_wf L call'"
proof (cases "response_header_len call < 5")
  case True
  define b where "b = mem_write (response_header_buf call) (response_header_len call)
               (take (5 - response_header_len call) data)"
  have wf: "length (response_header_buf call) = 5" "response_payload call = None"
    "direct_stopped call \<Longrightarrow> discard_response_body call"
    using assms(1) True by (simp_all add: parser_wf_def)
  have b: "length b = 5" using True wf(1) by (simp add: b_def mem_write_def)
  note it = assms(2) [unfolded direct_iteration_header [OF True wf(1)] Let_def, folded b_def]
  show ?thesis
  proof (cases "response_header_len call + length data < 5")
    case True
    with it wf b show ?thesis by (auto simp: parser_wf_def same_frame_def direct_stopped_def)
  next
    case False
    define call0 where "call0 = call\<lparr>response_header_buf := b, response_header_len := 5\<rparr>"
    have "same_frame c call0 c' call' \<and> parser_wf L call'"
      using it False wf b
      by (intro header_complete_keeps [where data = "drop (5 - response_header_len call) data"])
         (simp_all add: call0_def direct_stopped_def)
    then show ?thesis using b wf by (simp add: call0_def same_frame_def)
  qed
next
  case False
  obtain p where "unat (response_payload_len call) \<le> max_receive_message_bytes call"
    "\<And>data. direct_iteration L G this c call data = payload_pass L G this c call p data"
    using direct_iteration_payload [OF assms(1) False] by metis
  moreover have "response_header_len call = 5" "length (response_header_buf call) = 5"
    "direct_stopped call \<Longrightarrow> discard_response_body call"
    using assms(1) False by (auto simp: parser_wf_def)
  ultimately show ?thesis using payload_pass_keeps assms(2) by metis
qed

section \<open>Chunk independence\<close>

text \<open>
  Appending bytes to a chunk: a pass that ends inside a header or payload continues exactly where a
  second chunk would; any other pass leaves the same state and the longer rest.
\<close>

fun iter_append :: "'ss iter \<Rightarrow> byte list \<Rightarrow> 'ss iter" where
  "iter_append (IterReturn rv c call) ys = IterReturn rv c call"
| "iter_append (IterContinue c call rest) ys = IterContinue c call (rest @ ys)"
| "iter_append IterStuck ys = IterStuck"

lemma reject_append: "direct_reject L c call (xs @ ys) = iter_append (direct_reject L c call xs) ys"
  by (simp add: direct_reject_def Let_def split: prod.splits)

lemma message_complete_append:
  "direct_message_complete L G this c call p (xs @ ys) = iter_append (direct_message_complete L G this c call p xs) ys"
  by (simp add: direct_message_complete_def Let_def split: prod.splits)

lemma payload_pass_append:
  "payload_pass L G this c call p (xs @ ys) =
     (if length p + length xs < unat (response_payload_len call)
      then payload_pass L G this c call (p @ xs) ys
      else iter_append (payload_pass L G this c call p xs) ys)"
  by (auto simp: payload_pass_def Let_def message_complete_append [symmetric] add.assoc)

definition splits_at ::
    "'ss lib \<Rightarrow> module_globals \<Rightarrow> call_id \<Rightarrow> 'ss h2_connection \<Rightarrow> grpc_call
      \<Rightarrow> (byte list \<Rightarrow> 'ss iter) \<Rightarrow> byte list \<Rightarrow> byte list \<Rightarrow> bool" where
  "splits_at L G this c call pass xs ys \<longleftrightarrow>
     pass (xs @ ys) = iter_append (pass xs) ys
     \<or> (\<exists>call'. pass xs = IterContinue c call' [] \<and> direct_stopped call' = direct_stopped call
          \<and> pass (xs @ ys) = direct_iteration L G this c call' ys)"

lemma payload_pass_splits:
  assumes "response_header_len call = 5"
  shows "splits_at L G this c call (payload_pass L G this c call p) xs ys"
proof (cases "length p + length xs < unat (response_payload_len call)")
  case True
  define call1 where "call1 = call\<lparr>response_payload := Some (p @ xs), response_payload_offset := length p + length xs\<rparr>"
  have "direct_iteration L G this c call1 ys = direct_payload_step L G this c call1 ys"
    using assms by (simp add: direct_iteration_def call1_def)
  also have "\<dots> = payload_pass L G this c call1 (p @ xs) ys"
    using True by (subst direct_payload_step_eq [where buf = "p @ xs"]) (simp_all add: call1_def)
  also have "\<dots> = payload_pass L G this c call (p @ xs) ys"
    by (simp add: call1_def payload_pass_def Let_def direct_message_complete_def reset_frame_state_def)
  finally have "payload_pass L G this c call p (xs @ ys) = direct_iteration L G this c call1 ys"
    using True by (simp add: payload_pass_append)
  moreover have "payload_pass L G this c call p xs = IterContinue c call1 []"
    using True by (simp add: payload_pass_def Let_def call1_def)
  moreover have "direct_stopped call1 = direct_stopped call" by (simp add: call1_def direct_stopped_def)
  ultimately show ?thesis unfolding splits_at_def by blast
next
  case False
  then show ?thesis by (simp add: splits_at_def payload_pass_append)
qed

lemma header_complete_splits:
  assumes "response_header_len call = 5"
  shows "splits_at L G this c call (direct_header_complete L G this c call) xs ys"
proof -
  define call0 where "call0 = direct_open_message call"
  note open0 = open_message_keeps [where call = call, folded call0_def]
  have eq: "direct_header_complete L G this c call rest = (case direct_header_check L call0 of
           Some rejected \<Rightarrow> direct_reject L c rejected rest
         | None \<Rightarrow>
             if server_streaming_read_ahead_limit_would_exceed G c this call0 (unat (response_payload_len call0))
             then (case mark_server_streaming_read_ahead_limit_exceeded L c call0 of
                     (rv, c, call) \<Rightarrow> IterReturn rv c call)
             else payload_pass L G this c call0 [] rest)" for rest
    by (simp only: direct_header_complete_eq call0_def Let_def)
  have "splits_at L G this c call0 (payload_pass L G this c call0 []) xs ys"
    using assms open0(3) by (intro payload_pass_splits) simp
  then show ?thesis
    by (auto simp: splits_at_def eq reject_append open0 split: option.split prod.split)
qed

lemma mem_write_append:
  "off \<le> length b \<Longrightarrow> mem_write (mem_write b off xs) (off + length xs) ys = mem_write b off (xs @ ys)"
  by (simp add: mem_write_def min_def ac_simps)

lemma direct_iteration_splits:
  assumes "parser_wf L call"
  shows "splits_at L G this c call (direct_iteration L G this c call) xs ys"
proof (cases "response_header_len call < 5")
  case True
  define h where "h = response_header_len call"
  have len: "length (response_header_buf call) = 5" using assms by (simp add: parser_wf_def)
  note it = direct_iteration_header [OF True len, folded h_def]
  have h: "h < 5" using True by (simp add: h_def)
  show ?thesis
  proof (cases "h + length xs < 5")
    case True
    define call1 where "call1 = call\<lparr>response_header_buf := mem_write (response_header_buf call) h xs,
      response_header_len := h + length xs\<rparr>"
    have "length (response_header_buf call1) = 5" "response_header_len call1 = h + length xs"
      using True len by (simp_all add: call1_def mem_write_def)
    then have "direct_iteration L G this c call1 ys = direct_iteration L G this c call (xs @ ys)"
      using True h len
      by (subst direct_iteration_header) (simp_all add: it call1_def mem_write_append Let_def add.assoc)
    moreover have "direct_iteration L G this c call xs = IterContinue c call1 []"
      using True by (simp add: it call1_def)
    moreover have "direct_stopped call1 = direct_stopped call" by (simp add: call1_def direct_stopped_def)
    ultimately show ?thesis unfolding splits_at_def by metis
  next
    case False
    define call0 where "call0 = call\<lparr>response_header_buf := mem_write (response_header_buf call) h (take (5 - h) xs),
      response_header_len := 5\<rparr>"
    have "splits_at L G this c call0 (direct_header_complete L G this c call0) (drop (5 - h) xs) ys"
      by (rule header_complete_splits) (simp add: call0_def)
    moreover have "direct_iteration L G this c call xs = direct_header_complete L G this c call0 (drop (5 - h) xs)"
      "direct_iteration L G this c call (xs @ ys) = direct_header_complete L G this c call0 (drop (5 - h) xs @ ys)"
      using False by (simp_all add: it call0_def)
    moreover have "direct_stopped call0 = direct_stopped call" by (simp add: call0_def direct_stopped_def)
    ultimately show ?thesis by (simp add: splits_at_def)
  qed
next
  case False
  with assms have "response_header_len call = 5" by (simp add: parser_wf_def)
  moreover obtain p where "\<And>data. direct_iteration L G this c call data = payload_pass L G this c call p data"
    using direct_iteration_payload [OF assms False] by metis
  ultimately show ?thesis using payload_pass_splits [of call L G this c p xs ys] by (simp add: splits_at_def)
qed

text \<open>
  When no other call drives the read, a pass returns only with an error, and the body is discarded
  exactly when the parser has stopped.
\<close>

definition parser_clean :: "grpc_call \<Rightarrow> bool" where
  "parser_clean call \<longleftrightarrow> (discard_response_body call \<longrightarrow> direct_stopped call)"

lemma payload_pass_unlimited:
  assumes "\<not> foreign_reader c this call" "parser_clean call"
  shows "case payload_pass L G this c call p data of
      IterReturn rv c' call' \<Rightarrow> rv \<noteq> 0 | IterContinue c' call' rest \<Rightarrow> parser_clean call' | IterStuck \<Rightarrow> False"
  using assms
  by (simp add: payload_pass_def Let_def message_complete_unlimited parser_clean_def direct_stopped_def
      message_done_def reset_frame_state_def)

lemma header_complete_unlimited:
  assumes "\<not> foreign_reader c this call" "parser_clean call"
  shows "case direct_header_complete L G this c call data of
      IterReturn rv c' call' \<Rightarrow> rv \<noteq> 0 | IterContinue c' call' rest \<Rightarrow> parser_clean call' | IterStuck \<Rightarrow> False"
proof -
  define call0 where "call0 = direct_open_message call"
  note open0 = open_message_keeps [where call = call, folded call0_def]
  have nf: "\<not> foreign_reader c this call0" using assms(1) foreign_reader_same_frame [OF open0(1)] by blast
  have cl: "parser_clean call0" using assms(2) open0 by (simp add: parser_clean_def)
  have eq: "direct_header_complete L G this c call data = (case direct_header_check L call0 of
      Some rejected \<Rightarrow> direct_reject L c rejected data | None \<Rightarrow> payload_pass L G this c call0 [] data)"
    using nf by (simp add: direct_header_complete_eq call0_def Let_def server_streaming_read_ahead_limit_would_exceed_def
        cong: option.case_cong)
  show ?thesis
  proof (cases "direct_header_check L call0")
    case None
    then show ?thesis using payload_pass_unlimited [OF nf cl] eq by simp
  next
    case (Some r)
    then show ?thesis using header_check_rejects [OF Some]
      by (auto simp: eq parser_clean_def direct_reject_def Let_def reset_frame_state_def direct_stopped_def
          split: prod.split)
  qed
qed

lemma direct_iteration_unlimited:
  assumes "parser_wf L call" "\<not> foreign_reader c this call" "parser_clean call"
  shows "case direct_iteration L G this c call data of
      IterReturn rv c' call' \<Rightarrow> rv \<noteq> 0 | IterContinue c' call' rest \<Rightarrow> parser_clean call' | IterStuck \<Rightarrow> False"
proof (cases "response_header_len call < 5")
  case True
  have "length (response_header_buf call) = 5" using assms(1) by (simp add: parser_wf_def)
  note it = direct_iteration_header [OF True this, of L G this c data]
  have "case direct_header_complete L G this c (call\<lparr>response_header_buf := b, response_header_len := 5\<rparr>) rest of
      IterReturn rv c' call' \<Rightarrow> rv \<noteq> 0 | IterContinue c' call' rest \<Rightarrow> parser_clean call' | IterStuck \<Rightarrow> False" for b rest
    using assms(2,3)
    by (intro header_complete_unlimited) (simp_all add: foreign_reader_def parser_clean_def direct_stopped_def)
  then show ?thesis using assms(3) by (simp add: it Let_def parser_clean_def direct_stopped_def)
next
  case False
  obtain p where "\<And>data. direct_iteration L G this c call data = payload_pass L G this c call p data"
    using direct_iteration_payload [OF assms(1) False] by metis
  then show ?thesis using payload_pass_unlimited [OF assms(2,3)] by simp
qed

text \<open>The next chunk is looked at only when the previous one was accepted.\<close>

definition and_then ::
    "(int \<times> 'ss h2_connection \<times> grpc_call) option
      \<Rightarrow> ('ss h2_connection \<Rightarrow> grpc_call \<Rightarrow> (int \<times> 'ss h2_connection \<times> grpc_call) option)
      \<Rightarrow> (int \<times> 'ss h2_connection \<times> grpc_call) option" where
  "and_then r k = (case r of None \<Rightarrow> None | Some (rv, c, call) \<Rightarrow> if rv \<noteq> 0 then Some (rv, c, call) else k c call)"

lemma and_then_simps [simp]:
  "and_then None k = None" "and_then (Some (rv, c, call)) k = (if rv \<noteq> 0 then Some (rv, c, call) else k c call)"
  by (simp_all add: and_then_def)

lemma direct_loop_Nil [simp]: "direct_loop L G this c call [] = Some (0, c, call)"
  by (simp add: direct_loop.simps)

lemma direct_loop_stopped: "direct_stopped call \<Longrightarrow> direct_loop L G this c call data = Some (0, c, call)"
  by (simp add: direct_loop.simps)

lemma direct_loop_append:
  assumes "parser_wf L call" "\<not> foreign_reader c this call" "parser_clean call"
  shows "direct_loop L G this c call (xs @ ys)
    = and_then (direct_loop L G this c call xs) (\<lambda>c call. direct_loop L G this c call ys)"
  using assms
proof (induction L G this c call xs rule: direct_loop.induct)
  case (1 L G this c call xs)
  show ?case
  proof (cases "xs = [] \<or> direct_stopped call")
    case True
    then show ?thesis by (auto simp: direct_loop_stopped)
  next
    case False
    note unl = direct_iteration_unlimited [OF "1.prems", of G xs]
    have step: "direct_loop L G this c call zs = (case direct_iteration L G this c call zs of
             IterReturn rv c' call' \<Rightarrow> Some (rv, c', call')
           | IterContinue c' call' rest \<Rightarrow> direct_loop L G this c' call' rest
           | IterStuck \<Rightarrow> None)" if "zs \<noteq> []" for zs
      using that False by (subst direct_loop.simps) simp
    show ?thesis
    proof (cases "direct_iteration L G this c call (xs @ ys) = iter_append (direct_iteration L G this c call xs) ys")
      case True
      show ?thesis
      proof (cases "direct_iteration L G this c call xs")
        case (IterReturn rv c' call')
        then show ?thesis using True unl False by (simp add: step)
      next
        case (IterContinue c' call' rest)
        then have keep: "same_frame c call c' call' \<and> parser_wf L call'"
          using direct_iteration_keeps "1.prems"(1) by blast
        have "parser_clean call'" using unl IterContinue by simp
        moreover have "\<not> foreign_reader c' this call'"
          using foreign_reader_same_frame keep "1.prems"(2) by blast
        ultimately show ?thesis
          using True IterContinue "1.IH" [OF _ IterContinue] keep False by (simp add: step)
      next
        case IterStuck
        then show ?thesis using unl by simp
      qed
    next
      case no: False
      then obtain call' where it: "direct_iteration L G this c call xs = IterContinue c call' []"
        "direct_stopped call' = direct_stopped call"
        "direct_iteration L G this c call (xs @ ys) = direct_iteration L G this c call' ys"
        using direct_iteration_splits [OF "1.prems"(1), of G this c xs ys] unfolding splits_at_def by blast
      show ?thesis
      proof (cases "ys = []")
        case True
        with no it(1) show ?thesis by simp
      next
        case ne: False
        then have "direct_loop L G this c call' ys = (case direct_iteration L G this c call' ys of
             IterReturn rv c' call' \<Rightarrow> Some (rv, c', call')
           | IterContinue c' call' rest \<Rightarrow> direct_loop L G this c' call' rest
           | IterStuck \<Rightarrow> None)"
          using it(2) False by (subst direct_loop.simps) simp
        then show ?thesis using it False by (simp add: step)
      qed
    qed
  qed
qed

section \<open>The loop ends in a well-formed state\<close>

lemma message_complete_not_stuck: "direct_message_complete L G this c call p rest \<noteq> IterStuck"
  by (simp add: direct_message_complete_def Let_def split: prod.split)

lemma payload_pass_not_stuck: "payload_pass L G this c call p data \<noteq> IterStuck"
  by (simp add: payload_pass_def Let_def message_complete_not_stuck)

lemma direct_iteration_not_stuck:
  assumes "parser_wf L call"
  shows "direct_iteration L G this c call data \<noteq> IterStuck"
proof (cases "response_header_len call < 5")
  case True
  have "length (response_header_buf call) = 5" using assms by (simp add: parser_wf_def)
  then show ?thesis using True
    by (simp add: direct_iteration_header Let_def direct_header_complete_eq direct_reject_def
        payload_pass_not_stuck split: option.split prod.split)
next
  case False
  then show ?thesis using direct_iteration_payload [OF assms False] payload_pass_not_stuck by metis
qed

lemma direct_loop_total:
  assumes "parser_wf L call"
  shows "\<exists>rv c' call'. direct_loop L G this c call data = Some (rv, c', call')
           \<and> parser_wf L call' \<and> same_frame c call c' call'"
  using assms
proof (induction L G this c call data rule: direct_loop.induct)
  case (1 L G this c call data)
  show ?case
  proof (cases "data = [] \<or> direct_stopped call")
    case True
    then show ?thesis using "1.prems" by (auto simp: direct_loop_stopped)
  next
    case False
    then have step: "direct_loop L G this c call data = (case direct_iteration L G this c call data of
             IterReturn rv c' call' \<Rightarrow> Some (rv, c', call')
           | IterContinue c' call' rest \<Rightarrow> direct_loop L G this c' call' rest
           | IterStuck \<Rightarrow> None)"
      by (subst direct_loop.simps) simp
    note keeps = direct_iteration_keeps [OF "1.prems", of G this c data]
    show ?thesis
    proof (cases "direct_iteration L G this c call data")
      case (IterReturn rv c' call')
      then show ?thesis using keeps step by auto
    next
      case (IterContinue c' call' rest)
      then have "same_frame c call c' call'" "parser_wf L call'" using keeps by auto
      moreover from this(2) obtain rv c2 call2 where "direct_loop L G this c' call' rest = Some (rv, c2, call2)"
        "parser_wf L call2" "same_frame c' call' c2 call2"
        using "1.IH" [OF False IterContinue] by blast
      ultimately show ?thesis using step IterContinue same_frame_trans by simp blast
    next
      case IterStuck
      then show ?thesis using direct_iteration_not_stuck "1.prems" by blast
    qed
  qed
qed

lemma direct_loop_clean:
  assumes "parser_wf L call" "\<not> foreign_reader c this call" "parser_clean call"
    and "direct_loop L G this c call data = Some (0, c', call')"
  shows "parser_clean call'"
  using assms
proof (induction L G this c call data rule: direct_loop.induct)
  case (1 L G this c call data)
  show ?case
  proof (cases "data = [] \<or> direct_stopped call")
    case True
    then show ?thesis using "1.prems" by (auto simp: direct_loop_stopped)
  next
    case False
    then have step: "direct_loop L G this c call data = (case direct_iteration L G this c call data of
             IterReturn rv c' call' \<Rightarrow> Some (rv, c', call')
           | IterContinue c' call' rest \<Rightarrow> direct_loop L G this c' call' rest
           | IterStuck \<Rightarrow> None)"
      by (subst direct_loop.simps) simp
    note keeps = direct_iteration_keeps [OF "1.prems"(1), of G this c data]
    note unl = direct_iteration_unlimited [OF "1.prems"(1-3), of G data]
    show ?thesis
    proof (cases "direct_iteration L G this c call data")
      case (IterContinue c1 call1 rest)
      then have "same_frame c call c1 call1" "parser_wf L call1" "parser_clean call1" using keeps unl by auto
      moreover from this have "\<not> foreign_reader c1 this call1"
        using foreign_reader_same_frame "1.prems"(2) by blast
      ultimately show ?thesis
        using "1.IH" [OF False IterContinue] "1.prems"(4) step IterContinue by simp
    qed (use unl step "1.prems"(4) in auto)
  qed
qed

section \<open>Encoding and decoding\<close>

text \<open>A message on the wire: the sender's header followed by the payload.\<close>

definition encode_message :: "byte list \<Rightarrow> byte list" where
  "encode_message m = grpc_header (grpc_protocol_set_message_header grpc_call_zero (length m)) @ m"

lemma header_length_roundtrip:
  assumes "n < 2 ^ 32"
  shows "unat (message_length_of_header (grpc_header (grpc_protocol_set_message_header call n))) = n"
proof -
  have m: "bit (255::nat) j \<longleftrightarrow> j < 8" for j
    using bit_mask_iff [where 'a=nat, of 8 j] by (simp add: mask_eq_exp_minus_1)
  have "message_length_of_header (grpc_header (grpc_protocol_set_message_header call n)) = word_of_nat n"
  proof (rule bit_word_eqI)
    fix i assume "i < LENGTH(32)"
    then show "bit (message_length_of_header (grpc_header (grpc_protocol_set_message_header call n))) i
        = bit (word_of_nat n :: u32) i"
      by (cases "i < 8"; cases "i < 16"; cases "i < 24")
         (auto simp: message_length_of_header_def grpc_protocol_set_message_header_def bit_or_iff
           bit_push_bit_iff bit_simps bit_and_iff bit_drop_bit_eq m)
  qed
  then show ?thesis using assms by (simp add: unat_of_nat)
qed

lemma encode_message_shape:
  obtains h where "encode_message m = h @ m" "length h = 5" "h ! 0 = 0"
    "length m < 2 ^ 32 \<Longrightarrow> unat (message_length_of_header h) = length m"
proof
  let ?h = "grpc_header (grpc_protocol_set_message_header grpc_call_zero (length m))"
  show "encode_message m = ?h @ m" by (simp add: encode_message_def)
  show "length ?h = 5" "?h ! 0 = 0" by (simp_all add: grpc_protocol_set_message_header_def)
  show "length m < 2 ^ 32 \<Longrightarrow> unat (message_length_of_header ?h) = length m"
    by (rule header_length_roundtrip)
qed

text \<open>A call that can take \<open>k\<close> more messages of the given sizes.\<close>

definition ready_for :: "'ss lib \<Rightarrow> 'ss h2_connection \<Rightarrow> call_id \<Rightarrow> grpc_call \<Rightarrow> byte list list \<Rightarrow> bool" where
  "ready_for L c this call msgs \<longleftrightarrow>
     frame_idle call \<and> length (response_header_buf call) = 5 \<and> queue_response_payloads call
     \<and> \<not> discard_response_body call \<and> \<not> direct_stopped call \<and> \<not> grpc_status_seen call
     \<and> \<not> foreign_reader c this call
     \<and> (max_response_messages call = 0 \<or> response_message_count call + length msgs \<le> max_response_messages call)
     \<and> list_all (\<lambda>m. length m < 2 ^ 32 \<and> length m \<le> max_receive_message_bytes call \<and> length m \<le> zstr_max_len L) msgs"

definition queued :: "grpc_call \<Rightarrow> byte list list \<Rightarrow> grpc_call \<Rightarrow> bool" where
  "queued call msgs call' \<longleftrightarrow>
     response_queue call' = response_queue call @ msgs
     \<and> response_queue_count call' = response_queue_count call + length msgs
     \<and> response_queue_bytes call' = response_queue_bytes call + sum_list (map length msgs)"

lemma one_message:
  assumes "ready_for L c this call (m # msgs)"
  obtains call' where "direct_iteration L G this c call (encode_message m @ rest) = IterContinue c call' rest"
    "ready_for L c this call' msgs" "queued call [m] call'"
proof -
  obtain h where h: "encode_message m = h @ m" "length h = 5" "h ! 0 = 0"
    "length m < 2 ^ 32 \<Longrightarrow> unat (message_length_of_header h) = length m"
    using encode_message_shape [of m] by blast
  have r: "response_header_len call = 0" "length (response_header_buf call) = 5" "response_payload call = None"
    "length m < 2 ^ 32" "length m \<le> max_receive_message_bytes call" "length m \<le> zstr_max_len L"
    "max_response_messages call = 0 \<or> response_message_count call + length msgs < max_response_messages call"
    using assms by (auto simp: ready_for_def frame_idle_def)
  define call0 where "call0 = direct_open_message (call\<lparr>response_header_buf := h, response_header_len := 5\<rparr>)"
  have len: "unat (response_payload_len call0) = length m"
    using h(4) r(4) by (simp add: call0_def direct_open_message_def Let_def)
  have ok: "direct_header_check L call0 = None"
    using r(5-7) len h(3)
    by (auto simp: direct_header_check_def call0_def direct_open_message_def Let_def)
  have nf: "\<not> foreign_reader c this call0"
    using assms by (simp add: ready_for_def foreign_reader_def call0_def direct_open_message_def Let_def)
  have "direct_iteration L G this c call (encode_message m @ rest)
      = direct_header_complete L G this c (call\<lparr>response_header_buf := h, response_header_len := 5\<rparr>) (m @ rest)"
    using r(1,2) h(1,2) by (simp add: direct_iteration_header mem_write_def)
  also have "\<dots> = payload_pass L G this c call0 [] (m @ rest)"
    using ok nf by (simp add: direct_header_complete_eq call0_def [symmetric]
        server_streaming_read_ahead_limit_would_exceed_def)
  also have "\<dots> = IterContinue c (message_done call0 m) rest"
    using len nf by (simp add: payload_pass_def message_complete_unlimited)
  finally have it: "direct_iteration L G this c call (encode_message m @ rest) = IterContinue c (message_done call0 m) rest" .
  moreover have "ready_for L c this (message_done call0 m) msgs" "queued call [m] (message_done call0 m)"
    using assms h(2) by (auto simp: ready_for_def queued_def message_done_def call0_def direct_open_message_def
        Let_def reset_frame_state_def frame_idle_def foreign_reader_def direct_stopped_def)
  ultimately show thesis by (rule that)
qed

lemma encoded_messages:
  assumes "ready_for L c this call msgs"
  shows "\<exists>call'. direct_loop L G this c call (concat (map encode_message msgs)) = Some (0, c, call')
           \<and> queued call msgs call' \<and> ready_for L c this call' []"
  using assms
proof (induction msgs arbitrary: call)
  case Nil
  then show ?case by (simp add: queued_def)
next
  case (Cons m msgs)
  define rest where "rest = concat (map encode_message msgs)"
  obtain call1 where it: "direct_iteration L G this c call (encode_message m @ rest) = IterContinue c call1 rest"
    "ready_for L c this call1 msgs" "queued call [m] call1"
    using one_message [OF Cons.prems] by blast
  have ne: "encode_message m @ rest \<noteq> []"
    using encode_message_shape [of m] by fastforce
  have ns: "\<not> direct_stopped call" using Cons.prems by (simp add: ready_for_def)
  from Cons.IH [OF it(2)] obtain call' where
    "direct_loop L G this c call1 rest = Some (0, c, call')" "queued call1 msgs call'" "ready_for L c this call' []"
    by (auto simp: rest_def)
  moreover have "direct_loop L G this c call (encode_message m @ rest) = direct_loop L G this c call1 rest"
    using ne ns it(1) by (subst direct_loop.simps) auto
  ultimately show ?case using it(3) by (auto simp: rest_def queued_def)
qed

section \<open>Delivery of a body in chunks\<close>

text \<open>
  The DATA chunks nghttp2 hands to the callback, in order; the session stops at the first error.
\<close>

fun receive_chunks ::
    "'ss lib \<Rightarrow> module_globals \<Rightarrow> call_id \<Rightarrow> 'ss h2_connection \<Rightarrow> grpc_call \<Rightarrow> byte list list
      \<Rightarrow> (int \<times> 'ss h2_connection \<times> grpc_call) option" where
  "receive_chunks L G this c call [] = Some (0, c, call)"
| "receive_chunks L G this c call (x # xs) =
     and_then (grpc_protocol_process_response_data_direct L G this c call x)
       (\<lambda>c call. receive_chunks L G this c call xs)"

lemma process_eq_loop:
  assumes "\<not> grpc_status_seen call" "discard_response_body call \<Longrightarrow> direct_stopped call"
  shows "grpc_protocol_process_response_data_direct L G this c call data = direct_loop L G this c call data"
  using assms by (simp add: grpc_protocol_process_response_data_direct_def direct_loop_stopped)

lemma process_total:
  assumes "parser_wf L call"
  obtains rv c' call' where "grpc_protocol_process_response_data_direct L G this c call data = Some (rv, c', call')"
    "parser_wf L call'" "max_receive_message_bytes call' = max_receive_message_bytes call"
proof (cases "grpc_status_seen call")
  case True
  define call1 where "call1 = call\<lparr>invalid_grpc_status := True, discard_response_body := True\<rparr>"
  have "parser_wf L call1" using assms by (simp add: call1_def parser_wf_def cong: option.case_cong)
  moreover have "max_receive_message_bytes call1 = max_receive_message_bytes call" by (simp add: call1_def)
  moreover obtain rv c' where "grpc_protocol_submit_rst_stream_in_callback L NGHTTP2_CANCEL c call1 = (rv, c')"
    by fastforce
  then have "grpc_protocol_process_response_data_direct L G this c call data = Some (rv, c', call1)"
    using True by (simp add: grpc_protocol_process_response_data_direct_def call1_def)
  ultimately show thesis using that by blast
next
  case ns: False
  show thesis
  proof (cases "discard_response_body call")
    case True
    then show thesis using ns assms
      by (intro that [of 0 c call]) (simp_all add: grpc_protocol_process_response_data_direct_def)
  next
    case False
    with direct_loop_total [OF assms, of G this c data] ns that show thesis
      by (auto simp: grpc_protocol_process_response_data_direct_def same_frame_def)
  qed
qed

lemma receive_chunks_concat:
  assumes "parser_wf L call" "parser_clean call" "\<not> foreign_reader c this call" "\<not> grpc_status_seen call"
  shows "receive_chunks L G this c call chunks = direct_loop L G this c call (concat chunks)"
  using assms
proof (induction chunks arbitrary: c call)
  case Nil
  then show ?case by simp
next
  case (Cons x xs)
  obtain rv c1 call1 where l: "direct_loop L G this c call x = Some (rv, c1, call1)"
    "parser_wf L call1" "same_frame c call c1 call1"
    using direct_loop_total [OF Cons.prems(1)] by blast
  have "receive_chunks L G this c1 call1 xs = direct_loop L G this c1 call1 (concat xs)" if "rv = 0"
    using that Cons.prems l direct_loop_clean [OF Cons.prems(1,3,2)] foreign_reader_same_frame [OF l(3)]
    by (intro Cons.IH) (auto simp: same_frame_def)
  moreover have "grpc_protocol_process_response_data_direct L G this c call x = direct_loop L G this c call x"
    using Cons.prems by (intro process_eq_loop) (auto simp: parser_clean_def)
  ultimately show ?case using l Cons.prems by (simp add: direct_loop_append)
qed

section \<open>Properties\<close>

text \<open>
  C11.  How a response body is cut into DATA chunks does not matter: for a well-formed exchange
  whose reader is the call itself, delivering the chunks one by one ends in exactly the state (and
  with the same return code) as delivering their concatenation at once.
\<close>

theorem chunking_irrelevant:
  assumes "parser_wf L call" "parser_clean call" "\<not> foreign_reader c this call" "\<not> grpc_status_seen call"
  shows "receive_chunks L G this c call chunks
    = grpc_protocol_process_response_data_direct L G this c call (concat chunks)"
  using assms receive_chunks_concat [OF assms] process_eq_loop
  by (metis parser_clean_def)

theorem chunking_irrelevant_witness:
  "receive_chunks example_lib example_globals 1 example_connection grpc_call_zero [[0, 0], [0, 0, 1], [7]]
     = grpc_protocol_process_response_data_direct example_lib example_globals 1 example_connection
         grpc_call_zero [0, 0, 0, 0, 1, 7]"
  using chunking_irrelevant [of example_lib grpc_call_zero example_connection 1 example_globals
      "[[0, 0], [0, 0, 1], [7]]"]
  by (simp add: example_defs parser_wf_def parser_clean_def foreign_reader_def direct_stopped_def)

text \<open>
  C12.  Round trip: messages framed with the sender's header and cut into chunks in any way arrive in
  the response queue as exactly these messages, in order, after what was queued before; count and byte
  totals agree, and the parser is back between messages.
\<close>

theorem messages_roundtrip:
  assumes "ready_for L c this call msgs"
    and "concat chunks = concat (map encode_message msgs)"
  shows "\<exists>call'. receive_chunks L G this c call chunks = Some (0, c, call')
    \<and> response_queue call' = response_queue call @ msgs
    \<and> response_queue_count call' = response_queue_count call + length msgs
    \<and> response_queue_bytes call' = response_queue_bytes call + sum_list (map length msgs)
    \<and> response_header_len call' = 0 \<and> response_payload call' = None"
proof -
  have "parser_wf L call" "parser_clean call" "\<not> foreign_reader c this call" "\<not> grpc_status_seen call"
    using assms(1) by (auto simp: ready_for_def parser_clean_def intro!: idle_wf)
  then have "receive_chunks L G this c call chunks = direct_loop L G this c call (concat (map encode_message msgs))"
    by (simp add: receive_chunks_concat assms(2))
  with encoded_messages [OF assms(1), of G] show ?thesis
    by (auto simp: queued_def ready_for_def frame_idle_def)
qed

theorem messages_roundtrip_witness:
  "\<exists>call'. receive_chunks example_lib example_globals 1 example_connection
     (grpc_call_zero\<lparr>queue_response_payloads := True, max_receive_message_bytes := 4\<rparr>)
     [[0, 0, 0, 0], [2, 65], [66, 0], [0, 0, 0, 0]] = Some (0, example_connection, call')
   \<and> response_queue call' = [[65, 66], []]"
proof -
  have "encode_message [65, 66] = [0, 0, 0, 0, 2, 65, 66]" "encode_message [] = [0, 0, 0, 0, 0]"
    by (simp_all add: encode_message_def grpc_protocol_set_message_header_def numeral_2_eq_2 [symmetric])
  then show ?thesis
    using messages_roundtrip [of example_lib example_connection 1
      "grpc_call_zero\<lparr>queue_response_payloads := True, max_receive_message_bytes := 4\<rparr>" "[[65, 66], []]"
      "[[0, 0, 0, 0], [2, 65], [66, 0], [0, 0, 0, 0]]" example_globals]
    by (auto simp: ready_for_def example_defs frame_idle_def direct_stopped_def foreign_reader_def
      simp del: receive_chunks.simps)
qed

text \<open>
  C13.  The decoder always returns, whatever bytes the peer sends and whoever drives the read; it
  never buffers more than \<open>max_receive_message_bytes\<close> payload bytes, and a stopped parser has
  marked the body as discarded.
\<close>

theorem decoder_total_and_bounded:
  assumes "parser_wf L call"
  shows "\<exists>rv c' call'. grpc_protocol_process_response_data_direct L G this c call data = Some (rv, c', call')
    \<and> parser_wf L call'
    \<and> (case response_payload call' of None \<Rightarrow> True
       | Some p \<Rightarrow> length p < unat (response_payload_len call')
                   \<and> unat (response_payload_len call') \<le> max_receive_message_bytes call)
    \<and> (direct_stopped call' \<longrightarrow> discard_response_body call')"
proof -
  obtain rv c' call' where "grpc_protocol_process_response_data_direct L G this c call data = Some (rv, c', call')"
    "parser_wf L call'" "max_receive_message_bytes call' = max_receive_message_bytes call"
    by (rule process_total [OF assms])
  then show ?thesis
    by (auto simp: parser_wf_def split: option.splits if_splits)
qed

theorem decoder_total_and_bounded_witness:
  "\<exists>rv c' call'. grpc_protocol_process_response_data_direct example_lib example_globals 1 example_connection
     (grpc_call_zero\<lparr>max_receive_message_bytes := 4\<rparr>) [0, 0, 0, 0, 3, 1] = Some (rv, c', call')
   \<and> parser_wf example_lib call'"
proof -
  have "parser_wf example_lib (grpc_call_zero\<lparr>max_receive_message_bytes := 4\<rparr>)"
    by (simp add: example_defs parser_wf_def direct_stopped_def)
  then show ?thesis using decoder_total_and_bounded by blast
qed

lemma validator_rejects_empty_compressed:
  assumes "response_header_len call = 0" "length (response_header_buf call) = 5" "\<not> grpc_status_seen call"
    and "\<not> response_message_too_large call" "max_response_messages call = 0"
    and "grpc_protocol_validate_response_message_lengths L c call [1, 0, 0, 0, 0] = Some (rv, c', call')"
  shows "response_header_len call' = 5 \<and> response_payload_len call' = 0
    \<and> \<not> response_message_too_large call' \<and> \<not> grpc_status_seen call'"
  using assms
  by (auto simp: grpc_protocol_validate_response_message_lengths_def validate_loop.simps [of L c call]
      validate_iteration_def validate_header_complete_def validate_reject_def direct_open_message_def
      Let_def mem_write_def message_length_of_header_def grpc_protocol_flag_compressed_message_def
      split: prod.splits option.splits if_splits)

text \<open>
  C14.  After the aggregating validator has rejected an empty message with the Compressed-Flag, its
  frame state is a complete header of length 0; the next non-empty DATA chunk of the stream makes no
  progress, so the loop does not end.  (The direct decoder resets the frame state and discards.)
\<close>

theorem validator_loops_after_empty_compressed:
  assumes "response_header_len call = 0" "length (response_header_buf call) = 5" "\<not> grpc_status_seen call"
    and "\<not> response_message_too_large call" "max_response_messages call = 0"
    and "grpc_protocol_validate_response_message_lengths L c call [1, 0, 0, 0, 0] = Some (rv, c', call')"
    and "data \<noteq> []"
  shows "grpc_protocol_validate_response_message_lengths L c' call' data = None"
  using validator_rejects_empty_compressed [OF assms(1-6)] assms(7)
  by (simp add: grpc_protocol_validate_response_message_lengths_def validate_loop.simps [of L c' call']
      validate_iteration_def validate_payload_step_def)

theorem validator_loops_after_empty_compressed_witness:
  "grpc_protocol_validate_response_message_lengths example_lib example_connection grpc_call_zero [1, 0, 0, 0, 0]
     = Some (0, example_connection,
         grpc_call_zero\<lparr>response_header_buf := [1, 0, 0, 0, 0], response_header_len := 5,
           compressed_response_seen := True, discard_response_body := True\<rparr>)
   \<and> grpc_protocol_validate_response_message_lengths example_lib example_connection
       (grpc_call_zero\<lparr>response_header_buf := [1, 0, 0, 0, 0], response_header_len := 5,
           compressed_response_seen := True, discard_response_body := True\<rparr>) [0] = None"
proof -
  have first: "grpc_protocol_validate_response_message_lengths example_lib example_connection grpc_call_zero [1, 0, 0, 0, 0]
     = Some (0, example_connection,
         grpc_call_zero\<lparr>response_header_buf := [1, 0, 0, 0, 0], response_header_len := 5,
           compressed_response_seen := True, discard_response_body := True\<rparr>)"
    by (simp add: grpc_protocol_validate_response_message_lengths_def validate_loop.simps
      validate_iteration_def validate_header_complete_def validate_reject_def direct_open_message_def
      Let_def mem_write_def message_length_of_header_def grpc_protocol_flag_compressed_message_def
      example_defs grpc_protocol_submit_rst_stream_in_callback_def)
  then show ?thesis
    using validator_loops_after_empty_compressed [OF _ _ _ _ _ first, of "[0]"] by (simp add: example_defs)
qed

end
