(* ===== verification/Read_Ahead.thy ===== *)
theory Read_Ahead
  imports Response_Parser
begin

text \<open>
  Invariants of the direct decoder.  The locale \<open>parser_invariant\<close> states what a predicate on the
  connection and the call has to promise (it ignores the parser's own fields, and survives an RST
  submission and an accepted enqueue) and proves once that the whole decoder keeps it.  It is
  interpreted for the accounting and the limits of the response queue, and for the fields of the call
  that DATA frames never touch.
\<close>

definition erase_parser :: "grpc_call \<Rightarrow> grpc_call" where
  "erase_parser call = call\<lparr>
     response_header_buf := [], response_header_len := 0, response_payload_len := 0,
     response_payload_offset := 0, response_payload := None, response_message_count := 0,
     response_message_too_large := False, malformed_response_frame := False,
     compressed_response_seen := False, unsupported_response_encoding := False,
     discard_response_body := False, response_queue_limit_exceeded := False\<rparr>"

definition enqueued :: "grpc_call \<Rightarrow> byte list \<Rightarrow> grpc_call" where
  "enqueued call p =
     call\<lparr>response_queue := response_queue call @ [p],
          response_queue_count := response_queue_count call + 1,
          response_queue_bytes := response_queue_bytes call + length p\<rparr>"

lemma erase_parser_updates [simp]:
  "erase_parser (call\<lparr>response_header_buf := b\<rparr>) = erase_parser call"
  "erase_parser (call\<lparr>response_header_len := n\<rparr>) = erase_parser call"
  "erase_parser (call\<lparr>response_payload_len := w\<rparr>) = erase_parser call"
  "erase_parser (call\<lparr>response_payload_offset := n\<rparr>) = erase_parser call"
  "erase_parser (call\<lparr>response_payload := po\<rparr>) = erase_parser call"
  "erase_parser (call\<lparr>response_message_count := n\<rparr>) = erase_parser call"
  "erase_parser (call\<lparr>response_message_too_large := f\<rparr>) = erase_parser call"
  "erase_parser (call\<lparr>malformed_response_frame := f\<rparr>) = erase_parser call"
  "erase_parser (call\<lparr>compressed_response_seen := f\<rparr>) = erase_parser call"
  "erase_parser (call\<lparr>unsupported_response_encoding := f\<rparr>) = erase_parser call"
  "erase_parser (call\<lparr>discard_response_body := f\<rparr>) = erase_parser call"
  "erase_parser (call\<lparr>response_queue_limit_exceeded := f\<rparr>) = erase_parser call"
  by (simp_all add: erase_parser_def)

lemma erase_parser_steps [simp]:
  "erase_parser (reset_frame_state call) = erase_parser call"
  "erase_parser (direct_open_message call) = erase_parser call"
  "erase_parser (grpc_protocol_flag_compressed_message call) = erase_parser call"
  by (simp_all add: reset_frame_state_def direct_open_message_def Let_def
      grpc_protocol_flag_compressed_message_def split: option.split)

lemma erase_parser_rejected:
  "direct_header_check L call = Some r \<Longrightarrow> erase_parser r = erase_parser call"
  by (auto simp: direct_header_check_def split: if_splits)

locale parser_invariant =
  fixes L :: "'ss lib" and G :: module_globals and this :: call_id
    and P :: "'ss h2_connection \<Rightarrow> grpc_call \<Rightarrow> bool"
  assumes ignores_parser: "erase_parser call' = erase_parser call \<Longrightarrow> P c call \<Longrightarrow> P c call'"
    and keeps_rst: "grpc_protocol_submit_rst_stream_in_callback L e c call = (rv, c') \<Longrightarrow> P c call \<Longrightarrow> P c' call"
    and keeps_enqueue:
      "\<not> server_streaming_read_ahead_limit_would_exceed G c this call (length p) \<Longrightarrow>
       queue_response_payloads call \<Longrightarrow> P c call \<Longrightarrow> P c (enqueued call p)"
    and keeps_invalid: "P c call \<Longrightarrow> P c (call\<lparr>invalid_grpc_status := True\<rparr>)"
begin

definition holds :: "'ss iter \<Rightarrow> bool" where
  "holds it = (case it of IterReturn rv c call \<Rightarrow> P c call | IterContinue c call rest \<Rightarrow> P c call | IterStuck \<Rightarrow> True)"

lemma mark_limit:
  assumes "mark_server_streaming_read_ahead_limit_exceeded L c call = (rv, c', call')" "P c call"
  shows "P c' call'"
proof -
  define call1 where "call1 = reset_frame_state (call\<lparr>response_queue_limit_exceeded := True, discard_response_body := True\<rparr>)"
  have "P c call1" using assms(2) by (rule ignores_parser [rotated]) (simp add: call1_def)
  then show ?thesis using assms(1) keeps_rst
    by (auto simp: mark_server_streaming_read_ahead_limit_exceeded_def call1_def Let_def split: prod.splits)
qed

lemma reject: "P c call \<Longrightarrow> holds (direct_reject L c call rest)"
  using ignores_parser [of "reset_frame_state call" call c] keeps_rst
  by (auto simp: holds_def direct_reject_def Let_def split: prod.splits)

lemma message_complete:
  assumes "P c call"
  shows "holds (direct_message_complete L G this c call p rest)"
proof -
  define call1 where "call1 = reset_frame_state (call\<lparr>response_payload := None\<rparr>)"
  have P1: "P c call1" using assms by (rule ignores_parser [rotated]) (simp add: call1_def)
  have enq: "P c' call'" if "queue_response_payloads call1"
    "enqueue_response_payload L G this p c call1 = (rv, c', call')" for rv c' call'
    using that P1 mark_limit keeps_enqueue [of c call1 p, unfolded enqueued_def]
    by (auto simp: enqueue_response_payload_def split: if_splits)
  show ?thesis
    using P1 enq by (auto simp: holds_def direct_message_complete_def Let_def call1_def [symmetric] split: prod.splits)
qed

lemma payload_step:
  assumes "P c call"
  shows "holds (direct_payload_step L G this c call rest)"
proof -
  have "P c (call\<lparr>response_payload := x, response_payload_offset := y\<rparr>)" for x y
    using assms by (rule ignores_parser [rotated]) simp
  then show ?thesis
    using message_complete [OF assms]
    by (auto simp: direct_payload_step_def Let_def message_complete_cong holds_def split: option.split)
qed

lemma header_complete:
  assumes "P c call"
  shows "holds (direct_header_complete L G this c call rest)"
proof -
  define call0 where "call0 = direct_open_message call"
  have P0: "P c call0" using assms by (rule ignores_parser [rotated]) (simp add: call0_def)
  have "P c r" if "direct_header_check L call0 = Some r" for r
    using P0 by (rule ignores_parser [rotated]) (rule erase_parser_rejected [OF that])
  moreover have "P c (call0\<lparr>response_payload_offset := x, response_payload := y\<rparr>)" for x y
    using P0 by (rule ignores_parser [rotated]) simp
  ultimately show ?thesis
    using reject payload_step mark_limit P0
    by (auto simp: direct_header_complete_def Let_def call0_def [symmetric] holds_def split: option.split prod.splits)
qed

lemma iteration:
  assumes "P c call"
  shows "holds (direct_iteration L G this c call data)"
proof -
  have "P c (call\<lparr>response_header_buf := x, response_header_len := y\<rparr>)" for x y
    using assms by (rule ignores_parser [rotated]) simp
  then show ?thesis using header_complete payload_step [OF assms]
    by (auto simp: direct_iteration_def Let_def holds_def)
qed

lemma loop:
  "direct_loop L G this c call data = Some (rv, c', call') \<Longrightarrow> P c call \<Longrightarrow> P c' call'"
proof (induction "iter_measure call data" arbitrary: c call data rule: less_induct)
  case less
  show ?case
  proof (cases "data = [] \<or> direct_stopped call")
    case True
    then show ?thesis using less.prems by (auto simp: direct_loop_stopped)
  next
    case False
    then have step: "direct_loop L G this c call data = (case direct_iteration L G this c call data of
             IterReturn rv c' call' \<Rightarrow> Some (rv, c', call')
           | IterContinue c' call' rest \<Rightarrow> direct_loop L G this c' call' rest
           | IterStuck \<Rightarrow> None)"
      by (subst direct_loop.simps) simp
    show ?thesis
    proof (cases "direct_iteration L G this c call data")
      case (IterContinue c1 call1 rest)
      then have "iter_measure call1 rest < iter_measure call data" "P c1 call1"
        using direct_iteration_decreases False iteration [OF less.prems(2), of data]
        by (auto simp: holds_def)
      then show ?thesis using less.hyps less.prems(1) step IterContinue by simp
    qed (use step less.prems(1) iteration [OF less.prems(2), of data] in \<open>auto simp: holds_def\<close>)
  qed
qed

lemma process:
  assumes "grpc_protocol_process_response_data_direct L G this c call data = Some (rv, c', call')" "P c call"
  shows "P c' call'"
proof -
  have "P c (call\<lparr>invalid_grpc_status := True, discard_response_body := True\<rparr>)"
    using keeps_invalid [OF assms(2)] by (rule ignores_parser [rotated]) simp
  then show ?thesis using assms loop keeps_rst
    by (auto simp: grpc_protocol_process_response_data_direct_def Let_def split: if_splits prod.splits)
qed

end

section \<open>Queue accounting and read-ahead limits\<close>

text \<open>
  The counters describe the queue, and while another call drives the read (\<open>foreign_reader\<close>) the
  queue stays within the configured number of messages and bytes.
\<close>

definition queue_within_limits :: "module_globals \<Rightarrow> call_id \<Rightarrow> 'ss h2_connection \<Rightarrow> grpc_call \<Rightarrow> bool" where
  "queue_within_limits G this c call \<longleftrightarrow>
     response_queue_count call = length (response_queue call)
     \<and> response_queue_bytes call = sum_list (map length (response_queue call))
     \<and> (queue_response_payloads call \<and> foreign_reader c this call \<longrightarrow>
          response_queue_count call \<le> effective_server_streaming_read_ahead_max_messages G
          \<and> response_queue_bytes call \<le> effective_server_streaming_read_ahead_max_bytes G)"

lemma erase_parser_eqD:
  assumes "erase_parser call' = erase_parser call"
  shows "connection call' = connection call" "queue_response_payloads call' = queue_response_payloads call"
    "response_queue call' = response_queue call" "response_queue_count call' = response_queue_count call"
    "response_queue_bytes call' = response_queue_bytes call"
    "grpc_status call' = grpc_status call" "http_status call' = http_status call"
    "grpc_status_seen call' = grpc_status_seen call" "grpc_message call' = grpc_message call"
    "metadata_list call' = metadata_list call" "stream_id call' = stream_id call"
    "stream_closed call' = stream_closed call" "timed_out call' = timed_out call"
    "invalid_grpc_status call' = invalid_grpc_status call"
  using arg_cong [OF assms, of connection] arg_cong [OF assms, of queue_response_payloads]
    arg_cong [OF assms, of response_queue] arg_cong [OF assms, of response_queue_count]
    arg_cong [OF assms, of response_queue_bytes] arg_cong [OF assms, of grpc_status]
    arg_cong [OF assms, of http_status] arg_cong [OF assms, of grpc_status_seen]
    arg_cong [OF assms, of grpc_message] arg_cong [OF assms, of metadata_list]
    arg_cong [OF assms, of stream_id] arg_cong [OF assms, of stream_closed] arg_cong [OF assms, of timed_out]
    arg_cong [OF assms, of invalid_grpc_status]
  by (simp_all add: erase_parser_def)

lemma foreign_reader_cong:
  "connection call' = connection call \<Longrightarrow> h2_current_read_call c' = h2_current_read_call c \<Longrightarrow>
     foreign_reader c' this call' = foreign_reader c this call"
  by (simp add: foreign_reader_def)

interpretation limits: parser_invariant L G this "queue_within_limits G this"
proof
  fix call' call :: grpc_call and c :: "'a h2_connection"
  assume e: "erase_parser call' = erase_parser call" and "queue_within_limits G this c call"
  then show "queue_within_limits G this c call'"
    using foreign_reader_cong [of call' call c c this] by (auto simp: queue_within_limits_def erase_parser_eqD [OF e])
next
  fix e rv and c c' :: "'a h2_connection" and call
  assume "grpc_protocol_submit_rst_stream_in_callback L e c call = (rv, c')" "queue_within_limits G this c call"
  then show "queue_within_limits G this c' call"
    using submit_rst_keeps(1) foreign_reader_cong [of call call c' c this] by (metis queue_within_limits_def)
next
  fix c :: "'a h2_connection" and call :: grpc_call and p :: "byte list"
  assume "\<not> server_streaming_read_ahead_limit_would_exceed G c this call (length p)"
    and "queue_response_payloads call" and "queue_within_limits G this c call"
  then show "queue_within_limits G this c (enqueued call p)"
    using foreign_reader_cong [of "enqueued call p" call c c this]
    by (auto simp: queue_within_limits_def enqueued_def server_streaming_read_ahead_limit_would_exceed_def Let_def)
next
  fix c :: "'a h2_connection" and call :: grpc_call
  assume "queue_within_limits G this c call"
  then show "queue_within_limits G this c (call\<lparr>invalid_grpc_status := True\<rparr>)"
    by (auto simp: queue_within_limits_def foreign_reader_def)
qed

section \<open>Fields DATA frames do not touch\<close>

definition status_fields :: "grpc_call \<Rightarrow> int \<times> int \<times> bool \<times> string option \<times> metadata_entry list \<times> int \<times> bool \<times> bool" where
  "status_fields call = (grpc_status call, http_status call, grpc_status_seen call, grpc_message call,
     metadata_list call, stream_id call, stream_closed call, timed_out call)"

lemma status_fields_parser:
  assumes "erase_parser call' = erase_parser call"
  shows "status_fields call' = status_fields call"
  by (simp add: status_fields_def erase_parser_eqD [OF assms])

lemma status_fields_enqueued [simp]: "status_fields (enqueued call p) = status_fields call"
  by (simp add: status_fields_def enqueued_def)

lemma status_fields_invalid [simp]: "status_fields (call\<lparr>invalid_grpc_status := b\<rparr>) = status_fields call"
  by (simp add: status_fields_def)

interpretation status: parser_invariant L G this "\<lambda>_ call. status_fields call = status_fields call0"
  by unfold_locales (auto dest: status_fields_parser)

interpretation invalid: parser_invariant L G this "\<lambda>_ call. invalid_grpc_status call"
  by unfold_locales (auto dest: erase_parser_eqD simp: enqueued_def)

lemma data_keeps_invalid:
  "grpc_protocol_process_response_data_direct L G this c call data = Some (rv, c', call') \<Longrightarrow>
     invalid_grpc_status call \<Longrightarrow> invalid_grpc_status call'"
  by (rule invalid.process)

lemma data_status_fields:
  "grpc_protocol_process_response_data_direct L G this c call data = Some (rv, c', call') \<Longrightarrow>
     status_fields call' = status_fields call"
  using status.process [OF _ refl] .

text \<open>
  C15.  Read-ahead limit: while another call on the same connection drives the read, the messages
  queued for this call never exceed the configured count and byte limits, for any bytes the peer
  sends; and the two counters always equal the length and the size of the queue.
\<close>

theorem read_ahead_bounded:
  assumes "queue_within_limits G this c call"
    and "grpc_protocol_process_response_data_direct L G this c call data = Some (rv, c', call')"
  shows "queue_within_limits G this c' call'"
  using limits.process [OF assms(2,1)] .

definition read_ahead_connection :: "unit h2_connection" where
  "read_ahead_connection = example_connection\<lparr>h2_current_read_call := Some 2\<rparr>"

definition read_ahead_call :: grpc_call where
  "read_ahead_call = grpc_call_zero\<lparr>connection := Some 0, queue_response_payloads := True, stream_id := 1\<rparr>"

lemma read_ahead_example:
  "parser_wf example_lib read_ahead_call"
  "queue_within_limits example_globals 1 read_ahead_connection read_ahead_call"
  "foreign_reader read_ahead_connection 1 read_ahead_call"
  by (simp_all add: read_ahead_call_def read_ahead_connection_def example_defs parser_wf_def direct_stopped_def
      queue_within_limits_def foreign_reader_def)

theorem read_ahead_bounded_witness:
  "foreign_reader read_ahead_connection 1 read_ahead_call
   \<and> (\<exists>rv c' call'. grpc_protocol_process_response_data_direct example_lib example_globals 1
        read_ahead_connection read_ahead_call (replicate 15 0) = Some (rv, c', call')
      \<and> queue_within_limits example_globals 1 c' call')"
  using read_ahead_example read_ahead_bounded process_total by metis



end
