(* ===== verification/Request_Headers.thy ===== *)
theory Request_Headers
  imports Protocol_Core Transport_Core
begin

text \<open>
  The request header block (\<open>src/src/transport.c\<close>, 2470 to 2808, and \<open>h2_request_headers.h\<close>): three
  parallel arrays with a common capacity that start inline and grow by doubling, the fixed gRPC
  headers, and the caller's metadata.  A write outside the arrays is the value \<open>Overflow\<close>, a PHP
  exception is \<open>Rejected\<close> with its message; the header block survives in both the accepted and the
  rejected case because the caller frees it.
\<close>

section \<open>The header block\<close>

definition GRPC_LITE_REQUEST_HEADERS_INLINE_CAPACITY :: nat where
  "GRPC_LITE_REQUEST_HEADERS_INLINE_CAPACITY = 16"

record h2_request_headers =
  rh_allocated :: bool
  rh_nva :: "(string \<times> string) list"
  rh_capacity :: nat
  rh_name_strings :: "string list"
  rh_value_strings :: "string list"
  rh_custom_value_count :: nat

text \<open>A PHP value as far as the metadata code distinguishes it.\<close>

datatype php_value = PhpString string | PhpArray "php_value list" | PhpOther

datatype append_result =
    Appended h2_request_headers
  | Rejected string h2_request_headers
  | Overflow

definition init_request_headers :: h2_request_headers where
  "init_request_headers = \<lparr>rh_allocated = True, rh_nva = [],
     rh_capacity = GRPC_LITE_REQUEST_HEADERS_INLINE_CAPACITY, rh_name_strings = [],
     rh_value_strings = [], rh_custom_value_count = 0\<rparr>"

definition grow_request_headers :: "h2_request_headers \<Rightarrow> h2_request_headers" where
  "grow_request_headers h =
     (let cap = GRPC_LITE_MAX_REQUEST_METADATA_VALUES + GRPC_LITE_REQUEST_FIXED_HEADER_COUNT;
          new_capacity = (rh_capacity h * 2) mod 2 ^ 64;
          new_capacity = (if new_capacity < rh_capacity h \<or> cap < new_capacity then cap else new_capacity)
      in if new_capacity \<le> rh_capacity h then h else h\<lparr>rh_capacity := new_capacity\<rparr>)"

definition append_request_header_unchecked ::
    "string \<Rightarrow> string \<Rightarrow> h2_request_headers \<Rightarrow> append_result" where
  "append_request_header_unchecked name value h =
     (if length (rh_nva h) < rh_capacity h then Appended (h\<lparr>rh_nva := rh_nva h @ [(name, value)]\<rparr>)
      else Overflow)"

definition append_request_header :: "string \<Rightarrow> string \<Rightarrow> h2_request_headers \<Rightarrow> append_result" where
  "append_request_header name value h =
     (if rh_capacity h \<le> length (rh_nva h) then
        (let h = grow_request_headers h
         in if rh_capacity h \<le> length (rh_nva h) then Appended h
            else append_request_header_unchecked name value h)
      else append_request_header_unchecked name value h)"

definition append_grpc_timeout_request_header :: "int \<Rightarrow> h2_request_headers \<Rightarrow> append_result" where
  "append_grpc_timeout_request_header timeout_us h =
     (let value_str = grpc_lite_format_timeout_us 32 timeout_us
      in if value_str = [] then Appended h
         else if rh_allocated h \<and> length (rh_value_strings h) < rh_capacity h
         then append_request_header ''grpc-timeout'' value_str
                (h\<lparr>rh_value_strings := rh_value_strings h @ [value_str]\<rparr>)
         else Appended h)"

text \<open>\<open>PHP_GRPC_LITE_USER_AGENT\<close> is the macro of \<open>php_grpc.h\<close>.\<close>

definition PHP_GRPC_LITE_USER_AGENT :: string where
  "PHP_GRPC_LITE_USER_AGENT = ''php-grpc-lite/0.0.15''"

definition append_user_agent_request_header :: "string option \<Rightarrow> h2_request_headers \<Rightarrow> append_result" where
  "append_user_agent_request_header primary_user_agent h =
     (case primary_user_agent of
        Some ua \<Rightarrow> if ua \<noteq> [] then append_request_header ''user-agent'' ua h
                   else append_request_header ''user-agent'' PHP_GRPC_LITE_USER_AGENT h
      | None \<Rightarrow> append_request_header ''user-agent'' PHP_GRPC_LITE_USER_AGENT h)"

section \<open>Caller metadata\<close>

definition is_valid_custom_request_header_name_char :: "char \<Rightarrow> bool" where
  "is_valid_custom_request_header_name_char c \<longleftrightarrow>
     (uchar CHR ''a'' \<le> uchar c \<and> uchar c \<le> uchar CHR ''z'')
     \<or> (uchar CHR ''0'' \<le> uchar c \<and> uchar c \<le> uchar CHR ''9'')
     \<or> c = CHR ''_'' \<or> c = CHR ''.'' \<or> c = CHR ''-''"

definition reserved_headers :: "string list" where
  "reserved_headers =
     [''content-type'', ''te'', ''grpc-accept-encoding'', ''grpc-encoding'', ''grpc-message'',
      ''grpc-status'', ''grpc-status-details-bin'', ''host'', ''connection'', ''keep-alive'',
      ''proxy-connection'', ''transfer-encoding'', ''upgrade'']"

definition is_reserved_custom_request_header :: "string \<Rightarrow> bool" where
  "is_reserved_custom_request_header name \<longleftrightarrow>
     list_ex (\<lambda>r. r = name) reserved_headers \<or> (5 < length name \<and> take 5 name = ''grpc-'')"

text \<open>An integer key of a PHP array has no string key (\<open>None\<close>).\<close>

definition is_forbidden_custom_request_header :: "string option \<Rightarrow> bool" where
  "is_forbidden_custom_request_header key \<longleftrightarrow>
     (case key of
        None \<Rightarrow> True
      | Some name \<Rightarrow>
          name = [] \<or> hd name = CHR '':''
          \<or> list_ex (\<lambda>c. \<not> is_valid_custom_request_header_name_char c) name
          \<or> is_reserved_custom_request_header name)"

definition is_user_agent_custom_request_header :: "string option \<Rightarrow> bool" where
  "is_user_agent_custom_request_header key \<longleftrightarrow> key = Some ''user-agent''"

definition is_binary_metadata_header :: "string \<Rightarrow> bool" where
  "is_binary_metadata_header key \<longleftrightarrow> 4 \<le> length key \<and> drop (length key - 4) key = ''-bin''"

definition is_invalid_binary_request_header_value :: "string \<Rightarrow> bool" where
  "is_invalid_binary_request_header_value v \<longleftrightarrow>
     list_ex (\<lambda>c. \<not> ((65 \<le> uchar c \<and> uchar c \<le> 90) \<or> (97 \<le> uchar c \<and> uchar c \<le> 122)
                     \<or> (48 \<le> uchar c \<and> uchar c \<le> 57)
                     \<or> c = CHR ''+'' \<or> c = CHR ''/'' \<or> c = CHR ''='')) v"

definition is_invalid_ascii_request_header_value :: "string \<Rightarrow> bool" where
  "is_invalid_ascii_request_header_value v \<longleftrightarrow>
     list_ex (\<lambda>c. uchar c < 32 \<or> uchar c = 127 \<or> 128 \<le> uchar c) v"

text \<open>The loop that drops trailing padding.\<close>

definition strip_padding :: "string \<Rightarrow> string" where
  "strip_padding s = rev (dropWhile (\<lambda>c. c = CHR ''='') (rev s))"

text \<open>
  \<open>enc\<close> is PHP's \<open>php_base64_encode\<close>.  The three arrays have the same capacity, so the writes to the
  string arrays are checked against it as the code does.
\<close>

definition headers_full :: "h2_request_headers \<Rightarrow> bool" where
  "headers_full h \<longleftrightarrow>
     rh_capacity h \<le> length (rh_nva h) \<or> rh_capacity h \<le> length (rh_name_strings h)
     \<or> rh_capacity h \<le> length (rh_value_strings h)"

definition append_custom_request_header_value ::
    "(string \<Rightarrow> string) \<Rightarrow> string \<Rightarrow> php_value \<Rightarrow> h2_request_headers \<Rightarrow> append_result" where
  "append_custom_request_header_value enc key value h =
     (case value of
        PhpString s \<Rightarrow>
          if GRPC_LITE_MAX_REQUEST_METADATA_VALUES \<le> rh_custom_value_count h
          then Rejected ''gRPC request metadata exceeds maximum count'' h
          else
            (let h = (if headers_full h then grow_request_headers h else h)
             in if \<not> rh_allocated h \<or> headers_full h
                then Rejected ''gRPC request metadata exceeds maximum count'' h
                else
                  (let binary_header = is_binary_metadata_header key;
                       value_str = (if binary_header then strip_padding (enc s) else s)
                   in if (if binary_header then is_invalid_binary_request_header_value value_str
                          else is_invalid_ascii_request_header_value value_str)
                      then Rejected ''invalid gRPC request metadata value'' h
                      else
                        (case append_request_header_unchecked key value_str
                                (h\<lparr>rh_name_strings := rh_name_strings h @ [key],
                                   rh_value_strings := rh_value_strings h @ [value_str]\<rparr>) of
                           Appended h \<Rightarrow> Appended (h\<lparr>rh_custom_value_count := rh_custom_value_count h + 1\<rparr>)
                         | r \<Rightarrow> r)))
      | _ \<Rightarrow> Rejected ''gRPC request metadata value must be a string'' h)"

fun append_nested_values ::
    "(string \<Rightarrow> string) \<Rightarrow> string \<Rightarrow> php_value list \<Rightarrow> h2_request_headers \<Rightarrow> append_result" where
  "append_nested_values enc key [] h = Appended h"
| "append_nested_values enc key (v # vs) h =
     (case append_custom_request_header_value enc key v h of
        Appended h \<Rightarrow> append_nested_values enc key vs h
      | r \<Rightarrow> r)"

fun append_custom_header_entries ::
    "(string \<Rightarrow> string) \<Rightarrow> (string option \<times> php_value) list \<Rightarrow> h2_request_headers \<Rightarrow> append_result" where
  "append_custom_header_entries enc [] h = Appended h"
| "append_custom_header_entries enc ((key, value) # rest) h =
     (if is_user_agent_custom_request_header key then append_custom_header_entries enc rest h
      else if is_forbidden_custom_request_header key
      then Rejected ''forbidden gRPC request metadata key'' h
      else (case (case value of
                    PhpArray vs \<Rightarrow> append_nested_values enc (the key) vs h
                  | _ \<Rightarrow> append_custom_request_header_value enc (the key) value h) of
              Appended h \<Rightarrow> append_custom_header_entries enc rest h
            | r \<Rightarrow> r))"

text \<open>\<open>None\<close>: the argument is NULL or not an array.\<close>

definition append_custom_request_headers ::
    "(string \<Rightarrow> string) \<Rightarrow> (string option \<times> php_value) list option \<Rightarrow> h2_request_headers \<Rightarrow> append_result" where
  "append_custom_request_headers enc headers_zv h =
     (case headers_zv of None \<Rightarrow> Appended h | Some entries \<Rightarrow> append_custom_header_entries enc entries h)"

definition free_request_headers :: "h2_request_headers \<Rightarrow> h2_request_headers" where
  "free_request_headers h = h\<lparr>rh_allocated := False, rh_nva := [], rh_capacity := 0,
     rh_name_strings := [], rh_value_strings := [], rh_custom_value_count := 0\<rparr>"

section \<open>The block of one call\<close>

definition and_append :: "append_result \<Rightarrow> (h2_request_headers \<Rightarrow> append_result) \<Rightarrow> append_result" where
  "and_append r k = (case r of Appended h \<Rightarrow> k h | _ \<Rightarrow> r)"

lemma and_append_simps [simp]:
  "and_append (Appended h) k = k h" "and_append (Rejected e h) k = Rejected e h" "and_append Overflow k = Overflow"
  by (simp_all add: and_append_def)

lemma and_append_cases:
  "and_append r k = (case r of Appended h \<Rightarrow> k h | Rejected e h \<Rightarrow> Rejected e h | Overflow \<Rightarrow> Overflow)"
  by (simp add: and_append_def split: append_result.split)

text \<open>The statements of the call setup before and after the deadline is read again.\<close>

definition append_fixed_request_headers ::
    "bool \<Rightarrow> string \<Rightarrow> string \<Rightarrow> h2_request_headers \<Rightarrow> append_result" where
  "append_fixed_request_headers tls authority path h =
     and_append (append_request_header '':method'' ''POST'' h) (\<lambda>h.
     and_append (append_request_header '':scheme'' (if tls then ''https'' else ''http'') h) (\<lambda>h.
     and_append (append_request_header '':authority'' (c_str authority) h) (\<lambda>h.
     and_append (append_request_header '':path'' path h) (\<lambda>h.
     and_append (append_request_header ''content-type'' ''application/grpc'' h) (\<lambda>h.
     append_request_header ''te'' ''trailers'' h)))))"

definition append_call_request_headers ::
    "(string \<Rightarrow> string) \<Rightarrow> int \<Rightarrow> string option \<Rightarrow> (string option \<times> php_value) list option
      \<Rightarrow> h2_request_headers \<Rightarrow> append_result" where
  "append_call_request_headers enc remaining_timeout_us primary_user_agent headers_zv h =
     and_append (append_grpc_timeout_request_header remaining_timeout_us h) (\<lambda>h.
     and_append (append_user_agent_request_header primary_user_agent h) (\<lambda>h.
     append_custom_request_headers enc headers_zv h))"

definition build_request_headers ::
    "(string \<Rightarrow> string) \<Rightarrow> bool \<Rightarrow> string \<Rightarrow> string \<Rightarrow> int \<Rightarrow> string option
      \<Rightarrow> (string option \<times> php_value) list option \<Rightarrow> append_result" where
  "build_request_headers enc tls authority path remaining_timeout_us primary_user_agent headers_zv =
     and_append (append_fixed_request_headers tls authority path init_request_headers)
       (append_call_request_headers enc remaining_timeout_us primary_user_agent headers_zv)"

section \<open>Specification: no capacity, one list\<close>

datatype metadata_item = BadKey | ItemValue string php_value

fun metadata_items :: "(string option \<times> php_value) list \<Rightarrow> metadata_item list" where
  "metadata_items [] = []"
| "metadata_items ((key, value) # rest) =
     (if key = Some ''user-agent'' then metadata_items rest
      else if is_forbidden_custom_request_header key then [BadKey]
      else (case value of PhpArray vs \<Rightarrow> map (ItemValue (the key)) vs | v \<Rightarrow> [ItemValue (the key) v])
           @ metadata_items rest)"

definition wire_value :: "(string \<Rightarrow> string) \<Rightarrow> string \<Rightarrow> string \<Rightarrow> string" where
  "wire_value enc key s = (if is_binary_metadata_header key then strip_padding (enc s) else s)"

definition wire_value_invalid :: "string \<Rightarrow> string \<Rightarrow> bool" where
  "wire_value_invalid key w =
     (if is_binary_metadata_header key then is_invalid_binary_request_header_value w
      else is_invalid_ascii_request_header_value w)"

fun spec_custom :: "(string \<Rightarrow> string) \<Rightarrow> nat \<Rightarrow> metadata_item list \<Rightarrow> string + (string \<times> string) list" where
  "spec_custom enc n [] = Inr []"
| "spec_custom enc n (BadKey # items) = Inl ''forbidden gRPC request metadata key''"
| "spec_custom enc n (ItemValue key v # items) =
     (case v of
        PhpString s \<Rightarrow>
          if 256 \<le> n then Inl ''gRPC request metadata exceeds maximum count''
          else if wire_value_invalid key (wire_value enc key s) then Inl ''invalid gRPC request metadata value''
          else map_sum id (\<lambda>kvs. (key, wire_value enc key s) # kvs) (spec_custom enc (n + 1) items)
      | _ \<Rightarrow> Inl ''gRPC request metadata value must be a string'')"

text \<open>Invariant of the block after \<open>f\<close> fixed headers and \<open>n\<close> metadata values.\<close>

definition headers_ok :: "nat \<Rightarrow> h2_request_headers \<Rightarrow> bool" where
  "headers_ok f h \<longleftrightarrow> rh_allocated h \<and> f \<le> 8
     \<and> length (rh_nva h) = f + rh_custom_value_count h
     \<and> length (rh_name_strings h) = rh_custom_value_count h
     \<and> length (rh_value_strings h) \<le> rh_custom_value_count h + 1
     \<and> rh_custom_value_count h \<le> 256
     \<and> length (rh_nva h) \<le> rh_capacity h
     \<and> length (rh_value_strings h) \<le> rh_capacity h
     \<and> 16 \<le> rh_capacity h \<and> rh_capacity h \<le> 264"

lemma grow_request_headers_capacity:
  assumes "16 \<le> rh_capacity h" "rh_capacity h \<le> 264"
  shows "grow_request_headers h = h\<lparr>rh_capacity := min 264 (2 * rh_capacity h)\<rparr>"
proof -
  have "(rh_capacity h * 2) mod 2 ^ 64 = rh_capacity h * 2" using assms by simp
  moreover have "rh_capacity h = 264 \<Longrightarrow> h = h\<lparr>rh_capacity := 264\<rparr>" by simp
  ultimately show ?thesis
    using assms by (auto simp: grow_request_headers_def transport_consts Let_def min_def)
qed

lemma grow_keeps [simp]:
  "rh_allocated (grow_request_headers h) = rh_allocated h" "rh_nva (grow_request_headers h) = rh_nva h"
  "rh_name_strings (grow_request_headers h) = rh_name_strings h"
  "rh_value_strings (grow_request_headers h) = rh_value_strings h"
  "rh_custom_value_count (grow_request_headers h) = rh_custom_value_count h"
  by (simp_all add: grow_request_headers_def Let_def)

lemma append_fixed:
  assumes "headers_ok f h" "f < 8"
  obtains h' where "append_request_header name value h = Appended h'" "headers_ok (Suc f) h'"
    "rh_nva h' = rh_nva h @ [(name, value)]" "rh_custom_value_count h' = rh_custom_value_count h"
proof -
  define h1 where "h1 = (if rh_capacity h \<le> length (rh_nva h) then grow_request_headers h else h)"
  have keep: "rh_allocated h1 = rh_allocated h" "rh_nva h1 = rh_nva h" "rh_name_strings h1 = rh_name_strings h"
    "rh_value_strings h1 = rh_value_strings h" "rh_custom_value_count h1 = rh_custom_value_count h"
    by (simp_all add: h1_def)
  have cap: "length (rh_nva h) < rh_capacity h1" "16 \<le> rh_capacity h1" "rh_capacity h1 \<le> 264"
    "rh_capacity h \<le> rh_capacity h1"
    using assms by (auto simp: h1_def headers_ok_def grow_request_headers_capacity)
  have "append_request_header name value h = Appended (h1\<lparr>rh_nva := rh_nva h @ [(name, value)]\<rparr>)"
    using cap by (auto simp: append_request_header_def append_request_header_unchecked_def h1_def Let_def split: if_splits)
  moreover have "headers_ok (Suc f) (h1\<lparr>rh_nva := rh_nva h @ [(name, value)]\<rparr>)"
    using assms cap keep by (auto simp: headers_ok_def)
  ultimately show thesis using that keep(5) by simp
qed

text \<open>The timeout header owns its value string.\<close>

lemma append_timeout:
  assumes "headers_ok f h" "f < 8" "rh_value_strings h = []"
  obtains h' f' where "append_grpc_timeout_request_header t h = Appended h'" "headers_ok f' h'" "f' \<le> Suc f"
    "rh_nva h' = rh_nva h @ (let v = grpc_lite_format_timeout_us 32 t in if v = [] then [] else [(''grpc-timeout'', v)])"
    "rh_custom_value_count h' = rh_custom_value_count h"
proof (cases "grpc_lite_format_timeout_us 32 t = []")
  case True
  then show thesis using assms that [of h f] by (simp add: append_grpc_timeout_request_header_def)
next
  case False
  define v where "v = grpc_lite_format_timeout_us 32 t"
  have "headers_ok f (h\<lparr>rh_value_strings := [v]\<rparr>)" using assms by (auto simp: headers_ok_def)
  then obtain h' where "append_request_header ''grpc-timeout'' v (h\<lparr>rh_value_strings := [v]\<rparr>) = Appended h'"
    "headers_ok (Suc f) h'" "rh_nva h' = rh_nva h @ [(''grpc-timeout'', v)]"
    "rh_custom_value_count h' = rh_custom_value_count h"
    using append_fixed [of f "h\<lparr>rh_value_strings := [v]\<rparr>" "''grpc-timeout''" v] assms(2) by force
  moreover have "rh_allocated h" "0 < rh_capacity h" using assms(1) by (auto simp: headers_ok_def)
  ultimately show thesis
    using that [of h' "Suc f"] False assms(3)
    by (simp add: append_grpc_timeout_request_header_def v_def [symmetric] Let_def)
qed

lemma append_user_agent:
  assumes "headers_ok f h" "f < 8"
  obtains h' where "append_user_agent_request_header ua h = Appended h'" "headers_ok (Suc f) h'"
    "rh_nva h' = rh_nva h @ [(''user-agent'', case ua of Some a \<Rightarrow> if a \<noteq> [] then a else PHP_GRPC_LITE_USER_AGENT
       | None \<Rightarrow> PHP_GRPC_LITE_USER_AGENT)]"
    "rh_custom_value_count h' = rh_custom_value_count h"
proof -
  let ?v = "case ua of Some a \<Rightarrow> if a \<noteq> [] then a else PHP_GRPC_LITE_USER_AGENT | None \<Rightarrow> PHP_GRPC_LITE_USER_AGENT"
  have "append_user_agent_request_header ua h = append_request_header ''user-agent'' ?v h"
    by (simp add: append_user_agent_request_header_def split: option.split)
  moreover obtain h' where "append_request_header ''user-agent'' ?v h = Appended h'" "headers_ok (Suc f) h'"
    "rh_nva h' = rh_nva h @ [(''user-agent'', ?v)]" "rh_custom_value_count h' = rh_custom_value_count h"
    by (rule append_fixed [OF assms])
  ultimately show thesis using that by simp
qed

section \<open>The metadata loop implements the specification\<close>

definition implements ::
    "nat \<Rightarrow> h2_request_headers \<Rightarrow> string + (string \<times> string) list \<Rightarrow> append_result \<Rightarrow> bool" where
  "implements f h spec r \<longleftrightarrow>
     (case r of
        Appended h' \<Rightarrow> (\<exists>kvs. spec = Inr kvs \<and> rh_nva h' = rh_nva h @ kvs \<and> headers_ok f h'
                         \<and> rh_custom_value_count h' = rh_custom_value_count h + length kvs)
      | Rejected e h' \<Rightarrow> spec = Inl e
      | Overflow \<Rightarrow> False)"

lemma append_value_string:
  assumes "headers_ok f h" "rh_custom_value_count h < 256"
    and "\<not> wire_value_invalid key (wire_value enc key s)"
  obtains h' where "append_custom_request_header_value enc key (PhpString s) h = Appended h'"
    "headers_ok f h'" "rh_nva h' = rh_nva h @ [(key, wire_value enc key s)]"
    "rh_custom_value_count h' = rh_custom_value_count h + 1"
proof -
  define h1 where "h1 = (if headers_full h then grow_request_headers h else h)"
  have keep: "rh_allocated h1 = rh_allocated h" "rh_nva h1 = rh_nva h" "rh_name_strings h1 = rh_name_strings h"
    "rh_value_strings h1 = rh_value_strings h" "rh_custom_value_count h1 = rh_custom_value_count h"
    by (simp_all add: h1_def)
  have cap: "16 \<le> rh_capacity h1" "rh_capacity h1 \<le> 264" "rh_capacity h \<le> rh_capacity h1"
    using assms by (auto simp: h1_def headers_ok_def grow_request_headers_capacity)
  have room: "\<not> headers_full h1"
    using assms(1,2) by (auto simp: h1_def headers_full_def headers_ok_def grow_request_headers_capacity)
  define h2 where "h2 = h1\<lparr>rh_name_strings := rh_name_strings h @ [key],
    rh_value_strings := rh_value_strings h @ [wire_value enc key s],
    rh_nva := rh_nva h @ [(key, wire_value enc key s)], rh_custom_value_count := rh_custom_value_count h + 1\<rparr>"
  have "append_custom_request_header_value enc key (PhpString s) h = Appended h2"
    using assms room keep
    by (simp add: append_custom_request_header_value_def Let_def transport_consts h2_def
        append_request_header_unchecked_def wire_value_def [symmetric] wire_value_invalid_def [symmetric]
        headers_ok_def h1_def [symmetric])
       (simp add: headers_full_def)
  moreover have "headers_ok f h2" "rh_nva h2 = rh_nva h @ [(key, wire_value enc key s)]"
    "rh_custom_value_count h2 = rh_custom_value_count h + 1"
    using assms(1,2) cap room keep by (auto simp: h2_def headers_ok_def headers_full_def)
  ultimately show thesis by (rule that)
qed

lemma append_value_implements:
  assumes "headers_ok f h"
    and "\<And>h'. headers_ok f h' \<Longrightarrow> implements f h' (spec_custom enc (rh_custom_value_count h') items) (k h')"
  shows "implements f h (spec_custom enc (rh_custom_value_count h) (ItemValue key v # items))
    (and_append (append_custom_request_header_value enc key v h) k)"
proof (cases v)
  case (PhpString s)
  consider (many) "256 \<le> rh_custom_value_count h"
    | (bad) "rh_custom_value_count h < 256" "wire_value_invalid key (wire_value enc key s)"
    | (ok) "rh_custom_value_count h < 256" "\<not> wire_value_invalid key (wire_value enc key s)"
    by linarith
  then show ?thesis
  proof cases
    case many
    then show ?thesis
      using PhpString by (simp add: append_custom_request_header_value_def transport_consts implements_def)
  next
    case bad
    define h1 where "h1 = (if headers_full h then grow_request_headers h else h)"
    have "\<not> headers_full h1" "rh_allocated h1"
      using assms(1) bad by (auto simp: h1_def headers_full_def headers_ok_def grow_request_headers_capacity)
    then have "append_custom_request_header_value enc key v h = Rejected ''invalid gRPC request metadata value'' h1"
      using bad PhpString
      by (simp add: append_custom_request_header_value_def Let_def transport_consts h1_def [symmetric]
          wire_value_def [symmetric] wire_value_invalid_def [symmetric])
    then show ?thesis using bad PhpString by (simp add: implements_def)
  next
    case ok
    then obtain h' where h': "append_custom_request_header_value enc key (PhpString s) h = Appended h'"
      "headers_ok f h'" "rh_nva h' = rh_nva h @ [(key, wire_value enc key s)]"
      "rh_custom_value_count h' = rh_custom_value_count h + 1"
      using append_value_string [OF assms(1)] by blast
    have "implements f h' (spec_custom enc (rh_custom_value_count h') items) (k h')"
      by (rule assms(2) [OF h'(2)])
    then show ?thesis using ok PhpString h'
      by (auto simp: implements_def split: append_result.splits)
  qed
qed (simp_all add: append_custom_request_header_value_def implements_def)

lemma append_nested_implements:
  assumes "headers_ok f h"
    and "\<And>h'. headers_ok f h' \<Longrightarrow> implements f h' (spec_custom enc (rh_custom_value_count h') items) (k h')"
  shows "implements f h (spec_custom enc (rh_custom_value_count h) (map (ItemValue key) vs @ items))
    (and_append (append_nested_values enc key vs h) k)"
  using assms(1)
proof (induction vs arbitrary: h)
  case Nil
  then show ?case using assms(2) by simp
next
  case (Cons v vs)
  have "implements f h (spec_custom enc (rh_custom_value_count h) (ItemValue key v # map (ItemValue key) vs @ items))
    (and_append (append_custom_request_header_value enc key v h)
       (\<lambda>h. and_append (append_nested_values enc key vs h) k))"
    using Cons by (intro append_value_implements) auto
  moreover have "and_append (append_custom_request_header_value enc key v h)
       (\<lambda>h. and_append (append_nested_values enc key vs h) k)
     = and_append (append_nested_values enc key (v # vs) h) k"
    by (simp split: append_result.split)
  ultimately show ?case by simp
qed

lemma append_entries_implements:
  "headers_ok f h \<Longrightarrow>
   implements f h (spec_custom enc (rh_custom_value_count h) (metadata_items entries))
     (append_custom_header_entries enc entries h)"
proof (induction entries arbitrary: h)
  case Nil
  then show ?case by (simp add: implements_def)
next
  case (Cons kv rest)
  obtain key val where kv: "kv = (key, val)" by (cases kv)
  show ?case
  proof (cases "key = Some ''user-agent''")
    case True
    then show ?thesis using Cons kv by (simp add: is_user_agent_custom_request_header_def)
  next
    case nua: False
    show ?thesis
    proof (cases "is_forbidden_custom_request_header key")
      case True
      then show ?thesis using nua kv by (simp add: is_user_agent_custom_request_header_def implements_def)
    next
      case ok: False
      let ?one = "case val of PhpArray vs \<Rightarrow> append_nested_values enc (the key) vs h
                  | _ \<Rightarrow> append_custom_request_header_value enc (the key) val h"
      have "implements f h (spec_custom enc (rh_custom_value_count h)
          ((case val of PhpArray vs \<Rightarrow> map (ItemValue (the key)) vs | v \<Rightarrow> [ItemValue (the key) v])
           @ metadata_items rest))
         (and_append ?one (append_custom_header_entries enc rest))"
        using append_nested_implements [OF Cons.prems Cons.IH]
          append_value_implements [OF Cons.prems Cons.IH, where key = "the key" and v = val]
        by (cases val) (simp_all del: spec_custom.simps)
      then show ?thesis using nua ok kv
        by (simp add: is_user_agent_custom_request_header_def and_append_cases)
    qed
  qed
qed

section \<open>Properties\<close>

definition fixed_headers :: "bool \<Rightarrow> string \<Rightarrow> string \<Rightarrow> int \<Rightarrow> string option \<Rightarrow> (string \<times> string) list" where
  "fixed_headers tls authority path t ua =
     [('':method'', ''POST''), ('':scheme'', if tls then ''https'' else ''http''), ('':authority'', c_str authority),
      ('':path'', path), (''content-type'', ''application/grpc''), (''te'', ''trailers'')]
     @ (let v = grpc_lite_format_timeout_us 32 t in if v = [] then [] else [(''grpc-timeout'', v)])
     @ [(''user-agent'', case ua of Some a \<Rightarrow> if a \<noteq> [] then a else PHP_GRPC_LITE_USER_AGENT
           | None \<Rightarrow> PHP_GRPC_LITE_USER_AGENT)]"

lemma fixed_block:
  obtains h where "append_fixed_request_headers tls authority path init_request_headers = Appended h"
    "headers_ok 6 h" "rh_value_strings h = []" "rh_custom_value_count h = 0"
    "rh_nva h = [('':method'', ''POST''), ('':scheme'', if tls then ''https'' else ''http''),
      ('':authority'', c_str authority), ('':path'', path), (''content-type'', ''application/grpc''), (''te'', ''trailers'')]"
  by (simp add: append_fixed_request_headers_def append_request_header_def append_request_header_unchecked_def
      init_request_headers_def GRPC_LITE_REQUEST_HEADERS_INLINE_CAPACITY_def headers_ok_def)

lemma build_implements:
  "case build_request_headers enc tls authority path t ua headers_zv of
     Appended h \<Rightarrow> \<exists>kvs. spec_custom enc 0 (metadata_items (case headers_zv of None \<Rightarrow> [] | Some es \<Rightarrow> es)) = Inr kvs
       \<and> rh_nva h = fixed_headers tls authority path t ua @ kvs
   | Rejected e h \<Rightarrow> spec_custom enc 0 (metadata_items (case headers_zv of None \<Rightarrow> [] | Some es \<Rightarrow> es)) = Inl e
   | Overflow \<Rightarrow> False"
proof -
  obtain h1 where h1: "append_fixed_request_headers tls authority path init_request_headers = Appended h1"
    "headers_ok 6 h1" "rh_value_strings h1 = []" "rh_custom_value_count h1 = 0"
    "rh_nva h1 = [('':method'', ''POST''), ('':scheme'', if tls then ''https'' else ''http''),
      ('':authority'', c_str authority), ('':path'', path), (''content-type'', ''application/grpc''), (''te'', ''trailers'')]"
    by (rule fixed_block)
  obtain h2 f2 where h2: "append_grpc_timeout_request_header t h1 = Appended h2" "headers_ok f2 h2" "f2 \<le> 7"
    "rh_nva h2 = rh_nva h1 @ (let v = grpc_lite_format_timeout_us 32 t in if v = [] then [] else [(''grpc-timeout'', v)])"
    "rh_custom_value_count h2 = 0"
    using append_timeout [of 6 h1 t] h1(2-4) by auto
  obtain h3 where h3: "append_user_agent_request_header ua h2 = Appended h3" "headers_ok (Suc f2) h3"
    "rh_nva h3 = rh_nva h2 @ [(''user-agent'', case ua of Some a \<Rightarrow> if a \<noteq> [] then a else PHP_GRPC_LITE_USER_AGENT
       | None \<Rightarrow> PHP_GRPC_LITE_USER_AGENT)]" "rh_custom_value_count h3 = 0"
    using append_user_agent [OF h2(2), of ua] h2(3,5) by auto
  have nva: "rh_nva h3 = fixed_headers tls authority path t ua"
    using h1(5) h2(4) h3(3) by (simp add: fixed_headers_def)
  have "build_request_headers enc tls authority path t ua headers_zv = append_custom_request_headers enc headers_zv h3"
    by (simp add: build_request_headers_def append_call_request_headers_def h1(1) h2(1) h3(1))
  then show ?thesis
    using append_entries_implements [OF h3(2), of enc "case headers_zv of None \<Rightarrow> [] | Some es \<Rightarrow> es"] h3(4) nva
    by (cases headers_zv) (auto simp: append_custom_request_headers_def implements_def split: append_result.splits)
qed

text \<open>
  C17.  The growing arrays implement the plain specification: building the block never writes outside
  an array; it is rejected exactly with the specification's error, and otherwise the block is the
  fixed gRPC headers followed by every metadata value in order.  In particular the capacity limit
  neither drops a header nor rejects a value within the 256 allowed.
\<close>

theorem request_headers_refine:
  "case build_request_headers enc tls authority path t ua headers_zv of
     Appended h \<Rightarrow> \<exists>kvs. spec_custom enc 0 (metadata_items (case headers_zv of None \<Rightarrow> [] | Some es \<Rightarrow> es)) = Inr kvs
       \<and> rh_nva h = fixed_headers tls authority path t ua @ kvs
   | Rejected e h \<Rightarrow> spec_custom enc 0 (metadata_items (case headers_zv of None \<Rightarrow> [] | Some es \<Rightarrow> es)) = Inl e
   | Overflow \<Rightarrow> False"
  by (rule build_implements)

lemma metadata_items_keys:
  "ItemValue key v \<in> set (metadata_items entries) \<Longrightarrow>
     \<not> is_forbidden_custom_request_header (Some key) \<and> key \<noteq> ''user-agent''"
proof (induction entries)
  case (Cons kv rest)
  obtain k w where "kv = (k, w)" by (cases kv)
  with Cons show ?case
    by (cases k) (auto simp: is_forbidden_custom_request_header_def split: if_splits php_value.splits)
qed simp

lemma spec_custom_values:
  "spec_custom enc n items = Inr kvs \<Longrightarrow> (k, w) \<in> set kvs \<Longrightarrow>
     (\<exists>v. ItemValue k v \<in> set items) \<and> \<not> wire_value_invalid k w"
proof (induction enc n items arbitrary: kvs rule: spec_custom.induct)
  case (3 enc n key v items)
  show ?case
  proof (cases v)
    case (PhpString s)
    with 3 show ?thesis
      by (cases "spec_custom enc (n + 1) items") (fastforce split: if_splits)+
  qed (use 3 in auto)
qed simp_all

lemma wire_value_printable:
  "\<not> wire_value_invalid k w \<Longrightarrow> c \<in> set w \<Longrightarrow> 32 \<le> uchar c \<and> uchar c \<le> 126"
  by (auto simp: wire_value_invalid_def is_invalid_ascii_request_header_value_def
      is_invalid_binary_request_header_value_def list_ex_iff not_less split: if_splits)
     (fastforce+)?

text \<open>
  C18.  Caller metadata cannot inject or override protocol headers: in an accepted block every
  metadata name consists of lower-case letters, digits and \<open>_ . -\<close>, is neither \<open>user-agent\<close> nor one of
  the reserved names, and its value has only printable ASCII bytes.
\<close>

theorem metadata_cannot_inject:
  assumes "build_request_headers enc tls authority path t ua headers_zv = Appended h"
    and "(k, w) \<in> set (drop (length (fixed_headers tls authority path t ua)) (rh_nva h))"
  shows "k \<noteq> [] \<and> list_all is_valid_custom_request_header_name_char k
    \<and> k \<noteq> ''user-agent'' \<and> \<not> is_reserved_custom_request_header k
    \<and> (\<forall>c \<in> set w. 32 \<le> uchar c \<and> uchar c \<le> 126)"
proof -
  obtain kvs where kvs: "spec_custom enc 0 (metadata_items (case headers_zv of None \<Rightarrow> [] | Some es \<Rightarrow> es)) = Inr kvs"
    "rh_nva h = fixed_headers tls authority path t ua @ kvs"
    using build_implements [where enc = enc and tls = tls and authority = authority and path = path and t = t
        and ua = ua and headers_zv = headers_zv] assms(1) by auto
  have "(k, w) \<in> set kvs" using assms(2) kvs(2) by simp
  note kw = spec_custom_values [OF kvs(1) this]
  then have "\<not> is_forbidden_custom_request_header (Some k)" "k \<noteq> ''user-agent''"
    using metadata_items_keys by blast+
  then show ?thesis using kw wire_value_printable
    by (auto simp: is_forbidden_custom_request_header_def list_ex_iff list_all_iff)
qed

theorem metadata_cannot_inject_witness:
  "build_request_headers (\<lambda>s. ''AA=='') True ''h:1'' ''/s/m'' 0 None (Some [(Some ''x'', PhpString ''y'')])
     = Appended \<lparr>rh_allocated = True,
         rh_nva = fixed_headers True ''h:1'' ''/s/m'' 0 None @ [(''x'', ''y'')],
         rh_capacity = 16, rh_name_strings = [''x''], rh_value_strings = [''y''], rh_custom_value_count = 1\<rparr>
   \<and> list_all is_valid_custom_request_header_name_char ''x''"
proof -
  have b: "build_request_headers (\<lambda>s. ''AA=='') True ''h:1'' ''/s/m'' 0 None (Some [(Some ''x'', PhpString ''y'')])
     = Appended \<lparr>rh_allocated = True,
         rh_nva = fixed_headers True ''h:1'' ''/s/m'' 0 None @ [(''x'', ''y'')],
         rh_capacity = 16, rh_name_strings = [''x''], rh_value_strings = [''y''], rh_custom_value_count = 1\<rparr>"
    by (simp add: build_request_headers_def append_fixed_request_headers_def append_call_request_headers_def
        append_request_header_def append_request_header_unchecked_def append_grpc_timeout_request_header_def
        append_user_agent_request_header_def append_custom_request_headers_def
        append_custom_request_header_value_def init_request_headers_def fixed_headers_def
        GRPC_LITE_REQUEST_HEADERS_INLINE_CAPACITY_def headers_full_def transport_consts
        is_user_agent_custom_request_header_def is_forbidden_custom_request_header_def
        is_reserved_custom_request_header_def reserved_headers_def is_valid_custom_request_header_name_char_def
        is_binary_metadata_header_def is_invalid_ascii_request_header_value_def
        grpc_lite_format_timeout_us_def Let_def)
  then show ?thesis using metadata_cannot_inject [OF b, of "''x''" "''y''"] by simp
qed

end
