(* ===== verification/Response_Metadata.thy ===== *)
theory Response_Metadata
  imports Response_Parser Request_Headers Status_Core
begin

text \<open>
  Response headers (\<open>src/src/transport.c\<close>): the header callback, the metadata list with its limits, the
  per-stream part of the frame callback and the metadata maps given to PHP.  The callbacks are modelled
  for the call that the stream lookup returned; \<open>c\<close> is the connection of that call.
\<close>

section \<open>Metadata entries\<close>

definition grpc_protocol_add_response_metadata_entry ::
    "'ss lib \<Rightarrow> string \<Rightarrow> string \<Rightarrow> bool \<Rightarrow> 'ss h2_connection \<Rightarrow> grpc_call \<Rightarrow> int \<times> 'ss h2_connection \<times> grpc_call" where
  "grpc_protocol_add_response_metadata_entry L name value trailing c call =
     (let entry_bytes = length name + length value
      in if name = [] \<or> hd name = CHR '':'' then (0, c, call)
         else if metadata_too_large call
              \<or> GRPC_LITE_MAX_RESPONSE_METADATA_ENTRIES \<le> metadata_entry_count call
              \<or> max_response_metadata_bytes call < entry_bytes
              \<or> max_response_metadata_bytes call - entry_bytes < metadata_bytes call then
           (let call = call\<lparr>metadata_too_large := True, discard_response_body := True\<rparr>
            in if connection call \<noteq> None
               then (let (rv, c) = grpc_protocol_submit_rst_stream_in_callback L NGHTTP2_CANCEL c call
                     in (rv, c, call))
               else (0, c, call))
         else (0, c, call\<lparr>metadata_list := metadata_list call
                            @ [\<lparr>me_key = name, me_value = value, me_trailing = trailing\<rparr>],
                          metadata_entry_count := metadata_entry_count call + 1,
                          metadata_bytes := metadata_bytes call + entry_bytes\<rparr>))"

definition grpc_protocol_mark_response_metadata_as_trailing :: "grpc_call \<Rightarrow> grpc_call" where
  "grpc_protocol_mark_response_metadata_as_trailing call =
     call\<lparr>metadata_list := map (\<lambda>e. e\<lparr>me_trailing := True\<rparr>) (metadata_list call)\<rparr>"

text \<open>The list is emptied; the two counters keep their values, as in the source.\<close>

definition grpc_protocol_free_response_metadata_entries :: "grpc_call \<Rightarrow> grpc_call" where
  "grpc_protocol_free_response_metadata_entries call = call\<lparr>metadata_list := []\<rparr>"

definition cleanup_grpc_call :: "grpc_call option \<Rightarrow> grpc_call option" where
  "cleanup_grpc_call co =
     (case co of
        None \<Rightarrow> None
      | Some call \<Rightarrow>
          (let call = call\<lparr>response_payload := None\<rparr>;
               call = free_queued_response_payloads call;
               call = grpc_protocol_free_response_metadata_entries call
           in Some (call\<lparr>method_path := None, grpc_message := None, content_type := None,
                         grpc_encoding := None, response_body := []\<rparr>)))"

section \<open>The header callback\<close>

datatype headers_category = HCAT_REQUEST | HCAT_RESPONSE | HCAT_PUSH_RESPONSE | HCAT_HEADERS

text \<open>
  \<open>atoi\<close>: leading white space, a sign, the decimal digits; the \<open>long\<close> result is cut to an \<open>int\<close>.  The
  buffer holds at most fifteen bytes, so the \<open>long\<close> value does not overflow.
\<close>

definition is_space :: "char \<Rightarrow> bool" where
  "is_space c \<longleftrightarrow> uchar c = 32 \<or> (9 \<le> uchar c \<and> uchar c \<le> 13)"

definition int32_of :: "int \<Rightarrow> int" where
  "int32_of v = (v + 2147483648) mod 4294967296 - 2147483648"

definition atoi :: "string \<Rightarrow> int" where
  "atoi s =
     (let s = dropWhile is_space (c_str s);
          neg = (s \<noteq> [] \<and> hd s = CHR ''-'');
          s = (if s \<noteq> [] \<and> (hd s = CHR ''-'' \<or> hd s = CHR ''+'') then tl s else s);
          v = int (dec_value (takeWhile is_digit s))
      in int32_of (if neg then - v else v))"

definition on_header_callback ::
    "'ss lib \<Rightarrow> headers_category \<Rightarrow> int \<Rightarrow> string \<Rightarrow> string \<Rightarrow> 'ss h2_connection \<Rightarrow> grpc_call
      \<Rightarrow> int \<times> 'ss h2_connection \<times> grpc_call" where
  "on_header_callback L cat sid name value c call =
     (if sid \<noteq> stream_id call then (0, c, call)
      else
        (let trailing = (cat \<noteq> HCAT_RESPONSE \<or> 0 \<le> grpc_status call);
             status_in_headers = (\<lambda>call. if cat = HCAT_RESPONSE then call\<lparr>initial_grpc_status_seen := True\<rparr> else call);
             add = (\<lambda>trailing call.
                      case grpc_protocol_add_response_metadata_entry L name value trailing c call of
                        (rv, c, call) \<Rightarrow> (if rv \<noteq> 0 then NGHTTP2_ERR_CALLBACK_FAILURE else 0, c, call))
         in if name = ''grpc-status'' then
              (let call = status_in_headers call;
                   call = (if grpc_status_seen call then call\<lparr>invalid_grpc_status := True\<rparr> else call);
                   call = call\<lparr>grpc_status_seen := True, grpc_status := grpc_protocol_parse_status_value value\<rparr>;
                   call = (if grpc_status call < 0 then call\<lparr>invalid_grpc_status := True\<rparr> else call);
                   call = (if cat = HCAT_RESPONSE then grpc_protocol_mark_response_metadata_as_trailing call else call)
               in (0, c, call))
            else if name = ''grpc-message'' then
              (0, c, (status_in_headers call)\<lparr>grpc_message := Some (grpc_protocol_decode_message value)\<rparr>)
            else if name = ''grpc-status-details-bin'' then add True (status_in_headers call)
            else if name = '':status'' then add trailing (call\<lparr>http_status := atoi (take 15 value)\<rparr>)
            else if name = ''content-type'' then
              (let call = call\<lparr>content_type_seen := True, content_type := Some value\<rparr>;
                   call = (if grpc_protocol_is_valid_content_type value then call
                           else call\<lparr>invalid_content_type := True, discard_response_body := True\<rparr>)
               in add trailing call)
            else if name = ''grpc-encoding'' then add trailing (call\<lparr>grpc_encoding := Some value\<rparr>)
            else add trailing call))"

section \<open>The frame callback of a stream\<close>

text \<open>
  A received frame as the callback reads it; GOAWAY is handled on the connection.
\<close>

datatype h2_frame =
    HeadersFrame int headers_category bool
  | RstStreamFrame int nat
  | PushPromiseFrame int
  | GoawayFrame int nat
  | OtherFrame int

definition on_stream_frame_recv ::
    "'ss lib \<Rightarrow> h2_frame \<Rightarrow> 'ss h2_connection \<Rightarrow> grpc_call \<Rightarrow> int \<times> 'ss h2_connection \<times> grpc_call" where
  "on_stream_frame_recv L frame c call =
     (case frame of
        HeadersFrame sid cat end_stream \<Rightarrow>
          if sid = stream_id call \<and> cat = HCAT_RESPONSE then
            (let call = call\<lparr>initial_headers_end_stream := end_stream\<rparr>;
                 call = (if \<not> content_type_seen call \<and> \<not> (grpc_status_seen call \<and> initial_headers_end_stream call)
                         then call\<lparr>invalid_content_type := True, discard_response_body := True\<rparr> else call);
                 call = (if initial_grpc_status_seen call \<and> \<not> initial_headers_end_stream call
                         then call\<lparr>invalid_grpc_status := True, discard_response_body := True\<rparr> else call)
             in (0, c, call))
          else if sid = stream_id call \<and> cat = HCAT_HEADERS then
            (0, c, if end_stream then call\<lparr>trailing_headers_seen := True\<rparr> else call)
          else (0, c, call)
      | RstStreamFrame sid code \<Rightarrow>
          if sid = stream_id call then (0, c, call\<lparr>stream_reset_seen := True, stream_error_code := code\<rparr>)
          else (0, c, call)
      | PushPromiseFrame sid \<Rightarrow>
          if sid = stream_id call then
            (let call = call\<lparr>malformed_response_frame := True, discard_response_body := True\<rparr>;
                 (rv, c) = grpc_protocol_submit_rst_stream_in_callback L NGHTTP2_PROTOCOL_ERROR c call
             in (rv, c, call))
          else (0, c, call)
      | GoawayFrame _ _ \<Rightarrow> (0, c, call)
      | OtherFrame _ \<Rightarrow> (0, c, call))"

section \<open>Metadata maps\<close>

text \<open>A PHP array of arrays in insertion order.\<close>

type_synonym metadata_map = "(string \<times> string list) list"

fun add_metadata_value_to_map :: "metadata_map \<Rightarrow> string \<Rightarrow> string \<Rightarrow> metadata_map" where
  "add_metadata_value_to_map [] key value = [(key, [value])]"
| "add_metadata_value_to_map ((k, vs) # m) key value =
     (if k = key then (k, vs @ [value]) # m else (k, vs) # add_metadata_value_to_map m key value)"

text \<open>\<open>dec\<close> is \<open>php_base64_decode\<close>; a failed decode keeps the raw piece.\<close>

function add_binary_metadata_values_to_map ::
    "(string \<Rightarrow> string option) \<Rightarrow> metadata_map \<Rightarrow> string \<Rightarrow> string \<Rightarrow> metadata_map" where
  "add_binary_metadata_values_to_map dec m key wire =
     (let piece = takeWhile (\<lambda>c. c \<noteq> CHR '','') wire;
          rest = dropWhile (\<lambda>c. c \<noteq> CHR '','') wire;
          m = add_metadata_value_to_map m key (case dec piece of None \<Rightarrow> piece | Some v \<Rightarrow> v)
      in if rest = [] then m else add_binary_metadata_values_to_map dec m key (tl rest))"
  by pat_completeness auto
termination
  by (relation "measure (\<lambda>(dec, m, key, wire). length wire)") (simp_all add: tl_dropWhile_less del: dropWhile_eq_Nil_conv length_tl)

declare add_binary_metadata_values_to_map.simps [simp del]

definition copy_metadata_entry ::
    "(string \<Rightarrow> string option) \<Rightarrow> bool \<Rightarrow> metadata_entry \<Rightarrow> metadata_map \<Rightarrow> metadata_map" where
  "copy_metadata_entry dec trailing e m =
     (if me_trailing e \<noteq> trailing then m
      else if is_binary_metadata_header (me_key e)
      then add_binary_metadata_values_to_map dec m (me_key e) (me_value e)
      else add_metadata_value_to_map m (me_key e) (me_value e))"

definition grpc_protocol_copy_metadata_map ::
    "(string \<Rightarrow> string option) \<Rightarrow> grpc_call \<Rightarrow> bool \<Rightarrow> metadata_map" where
  "grpc_protocol_copy_metadata_map dec call trailing =
     fold (copy_metadata_entry dec trailing) (metadata_list call) []"

section \<open>Limits\<close>

definition metadata_within_limits :: "grpc_call \<Rightarrow> bool" where
  "metadata_within_limits call \<longleftrightarrow>
     metadata_entry_count call = length (metadata_list call)
     \<and> metadata_bytes call = sum_list (map (\<lambda>e. length (me_key e) + length (me_value e)) (metadata_list call))
     \<and> metadata_entry_count call \<le> GRPC_LITE_MAX_RESPONSE_METADATA_ENTRIES
     \<and> metadata_bytes call \<le> max_response_metadata_bytes call"

lemma add_entry_within_limits:
  assumes "grpc_protocol_add_response_metadata_entry L name val trailing c call = (rv, c', call')"
    and "metadata_within_limits call"
  shows "metadata_within_limits call' \<and> max_response_metadata_bytes call' = max_response_metadata_bytes call"
  using assms
  by (auto simp: grpc_protocol_add_response_metadata_entry_def metadata_within_limits_def Let_def
      split: if_splits prod.splits)

text \<open>The fields the header callback sets before the entry is added.\<close>

lemma within_limits_cong [simp]:
  "metadata_within_limits (call\<lparr>http_status := x\<rparr>) = metadata_within_limits call"
  "metadata_within_limits (call\<lparr>initial_grpc_status_seen := b\<rparr>) = metadata_within_limits call"
  "metadata_within_limits (call\<lparr>content_type_seen := b\<rparr>) = metadata_within_limits call"
  "metadata_within_limits (call\<lparr>content_type := so\<rparr>) = metadata_within_limits call"
  "metadata_within_limits (call\<lparr>invalid_content_type := b\<rparr>) = metadata_within_limits call"
  "metadata_within_limits (call\<lparr>discard_response_body := b\<rparr>) = metadata_within_limits call"
  "metadata_within_limits (call\<lparr>grpc_encoding := so\<rparr>) = metadata_within_limits call"
  "metadata_within_limits (call\<lparr>grpc_message := so\<rparr>) = metadata_within_limits call"
  "metadata_within_limits (call\<lparr>grpc_status_seen := b\<rparr>) = metadata_within_limits call"
  "metadata_within_limits (call\<lparr>grpc_status := x\<rparr>) = metadata_within_limits call"
  "metadata_within_limits (call\<lparr>invalid_grpc_status := b\<rparr>) = metadata_within_limits call"
  "metadata_within_limits (grpc_protocol_mark_response_metadata_as_trailing call) = metadata_within_limits call"
  by (simp_all add: metadata_within_limits_def grpc_protocol_mark_response_metadata_as_trailing_def comp_def)

lemma header_callback_within_limits:
  assumes "on_header_callback L cat sid name val c call = (rv, c', call')" "metadata_within_limits call"
  shows "metadata_within_limits call'"
  using assms
  by (auto simp: on_header_callback_def Let_def dest!: add_entry_within_limits split: if_splits prod.splits)

section \<open>Binary metadata\<close>

fun comma_join :: "string list \<Rightarrow> string" where
  "comma_join [] = []"
| "comma_join [p] = p"
| "comma_join (p # q # ps) = p @ CHR '','' # comma_join (q # ps)"

lemma add_values_same_key:
  "fold (\<lambda>v m. add_metadata_value_to_map m key v) vs [(key, ws)] = [(key, ws @ vs)]"
  by (induction vs arbitrary: ws) simp_all

lemma add_values_empty:
  "vs \<noteq> [] \<Longrightarrow> fold (\<lambda>v m. add_metadata_value_to_map m key v) vs [] = [(key, vs)]"
  by (cases vs) (simp_all add: add_values_same_key)

lemma add_binary_join:
  assumes "\<forall>v \<in> set vs. dec (w v) = Some v \<and> CHR '','' \<notin> set (w v)" "vs \<noteq> []"
  shows "add_binary_metadata_values_to_map dec m key (comma_join (map w vs))
    = fold (\<lambda>v m. add_metadata_value_to_map m key v) vs m"
  using assms
proof (induction vs arbitrary: m rule: induct_list012)
  case (2 v)
  then have "\<forall>c \<in> set (w v). c \<noteq> CHR '',''" by auto
  then show ?case
    using 2 by (subst add_binary_metadata_values_to_map.simps) (simp add: Let_def takeWhile_eq_all_conv [THEN iffD2])
next
  case (3 v u vs)
  have "\<forall>c \<in> set (w v). c \<noteq> CHR '',''" using 3 by auto
  then have "takeWhile (\<lambda>c. c \<noteq> CHR '','') (w v @ CHR '','' # rest) = w v"
    "dropWhile (\<lambda>c. c \<noteq> CHR '','') (w v @ CHR '','' # rest) = CHR '','' # rest" for rest
    by (simp_all add: takeWhile_append dropWhile_append)
  then show ?case using 3 by (subst add_binary_metadata_values_to_map.simps) (simp add: Let_def)
qed simp

lemma copy_binary_entries:
  assumes "is_binary_metadata_header key" "[] \<notin> set vss"
    and "\<forall>v \<in> set (concat vss). dec (w v) = Some v \<and> CHR '','' \<notin> set (w v)"
  shows "fold (copy_metadata_entry dec t)
      (map (\<lambda>vs. \<lparr>me_key = key, me_value = comma_join (map w vs), me_trailing = t\<rparr>) vss) m
    = fold (\<lambda>v m. add_metadata_value_to_map m key v) (concat vss) m"
  using assms(2,3)
proof (induction vss arbitrary: m)
  case (Cons vs vss)
  have "copy_metadata_entry dec t \<lparr>me_key = key, me_value = comma_join (map w vs), me_trailing = t\<rparr> m
      = fold (\<lambda>v m. add_metadata_value_to_map m key v) vs m"
    using Cons.prems assms(1) add_binary_join [of vs dec w m key] by (auto simp: copy_metadata_entry_def)
  then show ?case using Cons by simp
qed simp

section \<open>Properties\<close>

text \<open>
  C19.  Whatever headers the server sends, the stored response metadata stays within 128 entries and
  the configured number of bytes, and the counters describe the stored list.
\<close>

theorem metadata_bounded:
  assumes "metadata_within_limits call"
    and "on_header_callback L cat sid name val c call = (rv, c', call')"
  shows "metadata_within_limits call'"
  by (rule header_callback_within_limits [OF assms(2,1)])

theorem metadata_bounded_witness:
  "metadata_within_limits (snd (snd (on_header_callback example_lib HCAT_RESPONSE 1 ''x-a'' ''b'' example_connection
     (grpc_call_zero\<lparr>stream_id := 1, max_response_metadata_bytes := 8\<rparr>))))"
proof -
  have "metadata_within_limits (grpc_call_zero\<lparr>stream_id := 1, max_response_metadata_bytes := 8\<rparr>)"
    by (simp add: metadata_within_limits_def grpc_call_zero_def transport_consts)
  from metadata_bounded [OF this, of example_lib HCAT_RESPONSE 1 "''x-a''" "''b''" example_connection]
  show ?thesis by (metis prod.collapse)
qed

text \<open>
  C20.  Binary metadata survives the wire: values sent under a \<open>-bin\<close> key, each encoded and stripped of
  padding by the sender, arranged in any way as comma-separated lists in any number of header lines,
  are what PHP sees under that key, in order.  \<open>enc\<close> and \<open>dec\<close> are PHP's base64 functions: the decoder
  accepts unpadded input, and the alphabet has no comma.
\<close>

theorem binary_metadata_roundtrip:
  assumes "is_binary_metadata_header key" "vss \<noteq> []" "[] \<notin> set vss"
    and "\<forall>v \<in> set (concat vss). dec (strip_padding (enc v)) = Some v \<and> CHR '','' \<notin> set (enc v)"
    and "metadata_list call = map (\<lambda>vs. \<lparr>me_key = key, me_value = comma_join (map (wire_value enc key) vs),
           me_trailing = t\<rparr>) vss"
  shows "grpc_protocol_copy_metadata_map dec call t = [(key, concat vss)]"
proof -
  have "set (strip_padding s) \<subseteq> set s" for s
    unfolding strip_padding_def using set_dropWhileD by fastforce
  then have "\<forall>v \<in> set (concat vss). dec (wire_value enc key v) = Some v \<and> CHR '','' \<notin> set (wire_value enc key v)"
    using assms(1,4) by (auto simp: wire_value_def)
  from copy_binary_entries [OF assms(1,3) this] have
    "grpc_protocol_copy_metadata_map dec call t = fold (\<lambda>v m. add_metadata_value_to_map m key v) (concat vss) []"
    using assms(5) by (simp add: grpc_protocol_copy_metadata_map_def)
  moreover have "concat vss \<noteq> []" using assms(2,3) by (cases vss) auto
  ultimately show ?thesis using add_values_empty [of "concat vss" key] by metis
qed

text \<open>An encoding with the assumed laws: two letters per byte.\<close>

definition nibble_enc :: "string \<Rightarrow> string" where
  "nibble_enc s = concat (map (\<lambda>c. [char_of (65 + uchar c div 16), char_of (65 + uchar c mod 16)]) s)"

fun nibble_dec :: "string \<Rightarrow> string option" where
  "nibble_dec [] = Some []"
| "nibble_dec [c] = None"
| "nibble_dec (c # d # s) = map_option (\<lambda>r. char_of ((uchar c - 65) * 16 + (uchar d - 65)) # r) (nibble_dec s)"

theorem binary_metadata_roundtrip_witness:
  "grpc_protocol_copy_metadata_map nibble_dec (grpc_call_zero\<lparr>metadata_list :=
      [\<lparr>me_key = ''k-bin'', me_value = ''GBGC,GD'', me_trailing = True\<rparr>]\<rparr>) True
     = [(''k-bin'', [''ab'', ''c''])]"
proof -
  have "nibble_enc ''ab'' = ''GBGC''" "nibble_enc ''c'' = ''GD''" "nibble_dec ''GBGC'' = Some ''ab''"
    "nibble_dec ''GD'' = Some ''c''" by code_simp+
  then show ?thesis
    using binary_metadata_roundtrip [of "''k-bin''" "[[''ab'', ''c'']]" nibble_dec nibble_enc
      "grpc_call_zero\<lparr>metadata_list := [\<lparr>me_key = ''k-bin'', me_value = ''GBGC,GD'', me_trailing = True\<rparr>]\<rparr>" True]
    by (simp add: is_binary_metadata_header_def strip_padding_def wire_value_def)
qed

end
