(* ===== verification/Stream_Registry.thy ===== *)
theory Stream_Registry
  imports Exchange_State
begin

text \<open>
  The streams of a connection (\<open>src/src/transport.c\<close>, 100 to 186, 2263 to 2307): every registered call is
  linked into the intrusive list \<open>active_streams\<close> of its connection and is the user data of its nghttp2
  stream.  Calls live in a store indexed by address; reading an address that is not in the store is a
  use after free and ends in \<open>Fault\<close>, a loop or system call that does not return is \<open>Blocked\<close>.
\<close>

section \<open>Results over a store of calls\<close>

datatype 'a res = Ok 'a | Blocked | Fault

type_synonym call_store = "call_id \<Rightarrow> grpc_call option"

primrec and_then :: "'a res \<Rightarrow> ('a \<Rightarrow> 'b res) \<Rightarrow> 'b res" where
  "and_then (Ok x) f = f x"
| "and_then Blocked f = Blocked"
| "and_then Fault f = Fault"

definition on_call :: "call_store \<Rightarrow> call_id \<Rightarrow> (grpc_call \<Rightarrow> 'b res) \<Rightarrow> 'b res" where
  "on_call calls k f = (case calls k of None \<Rightarrow> Fault | Some call \<Rightarrow> f call)"

text \<open>\<open>returns P r\<close>: the computation returns, without touching freed memory, a value satisfying \<open>P\<close>.\<close>

definition returns :: "('a \<Rightarrow> bool) \<Rightarrow> 'a res \<Rightarrow> bool" where
  "returns P r \<longleftrightarrow> (\<exists>x. r = Ok x \<and> P x)"

text \<open>\<open>safe P r\<close> allows in addition that the computation waits forever in a system call.\<close>

definition safe :: "('a \<Rightarrow> bool) \<Rightarrow> 'a res \<Rightarrow> bool" where
  "safe P r \<longleftrightarrow> r = Blocked \<or> returns P r"

lemma returns_Ok [simp]: "returns P (Ok x) \<longleftrightarrow> P x" "\<not> returns P Blocked" "\<not> returns P Fault"
  by (simp_all add: returns_def)

lemma safe_Ok [simp]: "safe P (Ok x) \<longleftrightarrow> P x" "safe P Blocked" "\<not> safe P Fault"
  by (simp_all add: safe_def)

lemma returns_safe: "returns P r \<Longrightarrow> safe P r"
  by (simp add: safe_def)

lemma returns_mono: "returns P r \<Longrightarrow> (\<And>x. P x \<Longrightarrow> Q x) \<Longrightarrow> returns Q r"
  by (auto simp: returns_def)

lemma safe_mono: "safe P r \<Longrightarrow> (\<And>x. P x \<Longrightarrow> Q x) \<Longrightarrow> safe Q r"
  by (auto simp: safe_def returns_def)

lemma returns_and_then: "returns Q r \<Longrightarrow> (\<And>x. Q x \<Longrightarrow> returns P (f x)) \<Longrightarrow> returns P (and_then r f)"
  by (auto simp: returns_def)

lemma safe_and_then: "safe Q r \<Longrightarrow> (\<And>x. Q x \<Longrightarrow> safe P (f x)) \<Longrightarrow> safe P (and_then r f)"
  by (cases r) auto

lemma safe_and_then_Ok: "safe Q r \<Longrightarrow> (\<And>x. r = Ok x \<Longrightarrow> Q x \<Longrightarrow> safe P (f x)) \<Longrightarrow> safe P (and_then r f)"
  by (cases r) auto

lemma safe_OkD: "safe P r \<Longrightarrow> r = Ok x \<Longrightarrow> P x"
  by simp

lemma and_then_Ok: "and_then r f = Ok y \<longleftrightarrow> (\<exists>x. r = Ok x \<and> f x = Ok y)"
  by (cases r) auto

lemma on_call_Some [simp]: "calls k = Some call \<Longrightarrow> on_call calls k f = f call"
  by (simp add: on_call_def)

lemma on_call_Ok: "on_call calls k f = Ok y \<longleftrightarrow> (\<exists>call. calls k = Some call \<and> f call = Ok y)"
  by (auto simp: on_call_def split: option.splits)

section \<open>Operations\<close>

definition grpc_call_from_stream_id :: "'ss lib \<Rightarrow> 'ss h2_connection \<Rightarrow> int \<Rightarrow> call_id option" where
  "grpc_call_from_stream_id L c sid =
     (case h2_session c of
        None \<Rightarrow> None
      | Some ss \<Rightarrow> if sid \<le> 0 then None else nghttp2_session_get_stream_user_data L ss sid)"

text \<open>
  \<open>register_grpc_call_stream\<close> is called with a connection whose session exists (checked by the callers
  through \<open>connection_usable\<close>); the result is \<open>True\<close> for \<open>SUCCESS\<close>.
\<close>

definition register_grpc_call_stream ::
    "'ss lib \<Rightarrow> conn_id \<Rightarrow> call_id \<Rightarrow> 'ss h2_connection \<Rightarrow> call_store \<Rightarrow> (bool \<times> 'ss h2_connection \<times> call_store) res" where
  "register_grpc_call_stream L this k c calls =
     on_call calls k (\<lambda>call.
       if stream_id call \<le> 0 then Ok (False, c, calls)
       else case h2_session c of
              None \<Rightarrow> Fault
            | Some ss \<Rightarrow>
                (case nghttp2_session_set_stream_user_data L ss (stream_id call) (Some k) of (ss, rv) \<Rightarrow>
                   (let c = c\<lparr>h2_session := Some ss\<rparr>
                    in if rv \<noteq> 0 then Ok (False, c, calls)
                       else Ok (True,
                         c\<lparr>h2_active_streams := Some k,
                           h2_active_stream_count := h2_active_stream_count c + 1,
                           h2_stream_owner_count := h2_stream_owner_count c + 1\<rparr>,
                         calls(k \<mapsto> call\<lparr>connection := Some this, stream_registered := True,
                            connection_owned := True, next_active_stream := h2_active_streams c\<rparr>)))))"

definition mark_grpc_call_stream_registration_failed ::
    "'ss lib \<Rightarrow> grpc_call \<Rightarrow> 'ss h2_connection \<Rightarrow> 'ss h2_connection" where
  "mark_grpc_call_stream_registration_failed L call c =
     (let c = (case h2_session c of
                 None \<Rightarrow> c
               | Some ss \<Rightarrow>
                   if 0 < stream_id call
                   then c\<lparr>h2_session := Some (fst (nghttp2_session_set_stream_user_data L ss (stream_id call) None))\<rparr>
                   else c)
      in mark_connection_dead L NGHTTP2_ERR_INVALID_ARGUMENT
           (set_connection_error_detail ''failed to register HTTP/2 stream'' c))"

text \<open>
  The walk to the predecessor of \<open>target\<close>.  On a cyclic list it would not return (\<open>None\<close>).
\<close>

partial_function (option) find_previous_stream ::
    "call_store \<Rightarrow> call_id \<Rightarrow> call_id option \<Rightarrow> call_id option res option" where
  "find_previous_stream calls target previous =
     (case previous of
        None \<Rightarrow> Some (Ok None)
      | Some p \<Rightarrow>
          (case calls p of
             None \<Rightarrow> Some Fault
           | Some call \<Rightarrow>
               if next_active_stream call = Some target then Some (Ok (Some p))
               else find_previous_stream calls target (next_active_stream call)))"

definition run_loop :: "'a res option \<Rightarrow> 'a res" where
  "run_loop r = (case r of None \<Rightarrow> Blocked | Some x \<Rightarrow> x)"

definition unlink_active_stream ::
    "call_id \<Rightarrow> grpc_call \<Rightarrow> 'ss h2_connection \<Rightarrow> call_store \<Rightarrow> ('ss h2_connection \<times> call_store) res" where
  "unlink_active_stream k call c calls =
     (if h2_active_streams c = Some k then Ok (c\<lparr>h2_active_streams := next_active_stream call\<rparr>, calls)
      else and_then (run_loop (find_previous_stream calls k (h2_active_streams c))) (\<lambda>previous.
        case previous of
          None \<Rightarrow> Ok (c, calls)
        | Some p \<Rightarrow> on_call calls p (\<lambda>pc. Ok (c, calls(p \<mapsto> pc\<lparr>next_active_stream := next_active_stream call\<rparr>)))))"

text \<open>On a dead connection the session is left alone.\<close>

definition drop_stream_user_data :: "'ss lib \<Rightarrow> int \<Rightarrow> 'ss h2_connection \<Rightarrow> 'ss h2_connection" where
  "drop_stream_user_data L sid c =
     (case h2_session c of
        None \<Rightarrow> c
      | Some ss \<Rightarrow>
          if h2_dead c then c
          else c\<lparr>h2_session := Some (fst (nghttp2_session_set_stream_user_data L ss sid None))\<rparr>)"

text \<open>
  The connection is the one the call names; the callers
  hold it already, and a call that names another one is outside the two objects at hand (\<open>Fault\<close>).
\<close>

definition unregister_grpc_call_stream ::
    "'ss lib \<Rightarrow> conn_id \<Rightarrow> call_id \<Rightarrow> 'ss h2_connection \<Rightarrow> call_store \<Rightarrow> ('ss h2_connection \<times> call_store) res" where
  "unregister_grpc_call_stream L this k c calls =
     on_call calls k (\<lambda>call.
       if \<not> stream_registered call \<or> connection call = None \<or> stream_id call \<le> 0 then Ok (c, calls)
       else if connection call \<noteq> Some this then Fault
       else
         and_then (unlink_active_stream k call (drop_stream_user_data L (stream_id call) c) calls) (\<lambda>(c, calls).
           on_call calls k (\<lambda>call.
             Ok (if 0 < h2_active_stream_count c then c\<lparr>h2_active_stream_count := h2_active_stream_count c - 1\<rparr> else c,
                 calls(k \<mapsto> call\<lparr>next_active_stream := None, stream_registered := False\<rparr>)))))"

definition GRPC_LITE_RECV_SCRATCH_SIZE :: nat where
  "GRPC_LITE_RECV_SCRATCH_SIZE = 65536"

text \<open>The assertion that no receive loop is active is a precondition: its failure is a \<open>Fault\<close>.\<close>

definition h2_connection_recv_scratch :: "'ss h2_connection \<Rightarrow> 'ss h2_connection res" where
  "h2_connection_recv_scratch c =
     (if h2_current_read_call c \<noteq> None then Fault
      else if h2_recv_scratch_len c = 0 then Ok (c\<lparr>h2_recv_scratch_len := GRPC_LITE_RECV_SCRATCH_SIZE\<rparr>)
      else Ok c)"

definition note_stream_closed :: "nat \<Rightarrow> grpc_call \<Rightarrow> grpc_call" where
  "note_stream_closed error_code call = call\<lparr>stream_closed := True, stream_error_code := error_code\<rparr>"

definition on_stream_close_callback ::
    "'ss lib \<Rightarrow> conn_id \<Rightarrow> int \<Rightarrow> nat \<Rightarrow> 'ss h2_connection \<Rightarrow> call_store \<Rightarrow> ('ss h2_connection \<times> call_store) res" where
  "on_stream_close_callback L this sid error_code c calls =
     (case grpc_call_from_stream_id L c sid of
        None \<Rightarrow> Ok (c, calls)
      | Some k \<Rightarrow> on_call calls k (\<lambda>call.
          if sid = stream_id call
          then unregister_grpc_call_stream L this k c (calls(k \<mapsto> note_stream_closed error_code call))
          else Ok (c, calls)))"

section \<open>GOAWAY\<close>

definition note_stream_refused :: "grpc_call \<Rightarrow> grpc_call" where
  "note_stream_refused call =
     call\<lparr>stream_error_code := NGHTTP2_REFUSED_STREAM, stream_refused_seen := True, stream_closed := True\<rparr>"

partial_function (option) goaway_loop ::
    "'ss lib \<Rightarrow> conn_id \<Rightarrow> int \<Rightarrow> call_id option \<Rightarrow> 'ss h2_connection \<Rightarrow> call_store
      \<Rightarrow> ('ss h2_connection \<times> call_store) res option" where
  "goaway_loop L this last_id active c calls =
     (case active of
        None \<Rightarrow> Some (Ok (c, calls))
      | Some k \<Rightarrow>
          (case calls k of
             None \<Rightarrow> Some Fault
           | Some call \<Rightarrow>
               if 0 < stream_id call \<and> last_id < stream_id call then
                 (case unregister_grpc_call_stream L this k c (calls(k \<mapsto> note_stream_refused call)) of
                    Ok (c, calls) \<Rightarrow> goaway_loop L this last_id (next_active_stream call) c calls
                  | Blocked \<Rightarrow> None
                  | Fault \<Rightarrow> Some Fault)
               else goaway_loop L this last_id (next_active_stream call) c calls))"

definition on_goaway_received ::
    "'ss lib \<Rightarrow> conn_id \<Rightarrow> int \<Rightarrow> nat \<Rightarrow> 'ss h2_connection \<Rightarrow> call_store \<Rightarrow> ('ss h2_connection \<times> call_store) res" where
  "on_goaway_received L this last_id error_code c calls =
     (let active = h2_active_streams c; c = mark_connection_draining last_id error_code c
      in if last_id = INT32_MAX then Ok (c, calls)
         else run_loop (goaway_loop L this last_id active c calls))"

section \<open>The list invariant\<close>

text \<open>\<open>active_path calls p ks\<close>: following \<open>next_active_stream\<close> from \<open>p\<close> visits exactly \<open>ks\<close>.\<close>

fun active_path :: "call_store \<Rightarrow> call_id option \<Rightarrow> call_id list \<Rightarrow> bool" where
  "active_path calls p [] \<longleftrightarrow> p = None"
| "active_path calls p (k # ks) \<longleftrightarrow>
     p = Some k \<and> (case calls k of None \<Rightarrow> False | Some call \<Rightarrow> active_path calls (next_active_stream call) ks)"

lemma active_path_Cons [simp]:
  "active_path calls p (k # ks) \<longleftrightarrow>
     p = Some k \<and> (\<exists>call. calls k = Some call \<and> active_path calls (next_active_stream call) ks)"
  by (simp split: option.splits)

declare active_path.simps(2) [simp del]

definition listed :: "conn_id \<Rightarrow> grpc_call \<Rightarrow> bool" where
  "listed this call \<longleftrightarrow> stream_registered call \<and> connection call = Some this \<and> 0 < stream_id call"

definition registry_ok :: "conn_id \<Rightarrow> 'ss h2_connection \<Rightarrow> call_store \<Rightarrow> call_id list \<Rightarrow> bool" where
  "registry_ok this c calls ks \<longleftrightarrow>
     active_path calls (h2_active_streams c) ks \<and> distinct ks
     \<and> h2_active_stream_count c = length ks
     \<and> (\<forall>k call. calls k = Some call \<longrightarrow> (k \<in> set ks \<longleftrightarrow> listed this call))"

lemma active_path_dom: "active_path calls p ks \<Longrightarrow> k \<in> set ks \<Longrightarrow> \<exists>call. calls k = Some call"
  by (induction ks arbitrary: p) (auto split: option.splits)

lemma active_path_unique: "active_path calls p ks \<Longrightarrow> active_path calls p ks' \<Longrightarrow> ks = ks'"
proof (induction ks arbitrary: p ks')
  case Nil
  then show ?case by (cases ks') auto
next
  case (Cons k ks)
  then show ?case by (cases ks') (auto split: option.splits)
qed

lemma active_path_frame:
  "(\<And>k. k \<in> set ks \<Longrightarrow> map_option next_active_stream (calls' k) = map_option next_active_stream (calls k)) \<Longrightarrow>
     active_path calls' p ks = active_path calls p ks"
proof (induction ks arbitrary: p)
  case (Cons k ks)
  then have h: "map_option next_active_stream (calls' k) = map_option next_active_stream (calls k)" by simp
  have IH: "active_path calls' q ks = active_path calls q ks" for q using Cons by simp
  show ?case by (cases "calls k"; cases "calls' k") (use h IH in simp_all)
qed simp

lemma active_path_upd [simp]:
  "k \<notin> set ks \<Longrightarrow> active_path (calls(k := v)) p ks = active_path calls p ks"
  by (rule active_path_frame) auto

lemma active_path_split:
  assumes "active_path calls p (xs @ k # ys)" "distinct (xs @ k # ys)" "calls k = Some call" "xs \<noteq> []"
  obtains pc where "calls (List.last xs) = Some pc" "next_active_stream pc = Some k"
    "active_path (calls(List.last xs \<mapsto> pc\<lparr>next_active_stream := next_active_stream call\<rparr>)) p (xs @ ys)"
  using assms
proof (induction xs arbitrary: p thesis)
  case (Cons x xs)
  obtain xc where x: "calls x = Some xc" "p = Some x" "active_path calls (next_active_stream xc) (xs @ k # ys)"
    using Cons.prems by (auto split: option.splits)
  show ?case
  proof (cases "xs = []")
    case True
    have d: "x \<noteq> k" "x \<notin> set ys" using Cons.prems(3) by auto
    have n: "next_active_stream xc = Some k" "active_path calls (next_active_stream call) ys"
      using x Cons.prems(4) True by (auto split: option.splits)
    have u: "active_path (calls(x \<mapsto> xc\<lparr>next_active_stream := next_active_stream call\<rparr>)) p (x # ys)"
      using x n d by simp
    have "List.last (x # xs) = x" "x # xs @ ys = x # ys" using True by simp_all
    with Cons.prems(1) [of xc] x n u show ?thesis by (metis append_Cons)
  next
    case False
    have d: "x \<notin> set xs" "x \<notin> set ys" "distinct (xs @ k # ys)" "x \<noteq> k" using Cons.prems(3) by auto
    obtain pc where pc: "calls (List.last xs) = Some pc" "next_active_stream pc = Some k"
      "active_path (calls(List.last xs \<mapsto> pc\<lparr>next_active_stream := next_active_stream call\<rparr>)) (next_active_stream xc) (xs @ ys)"
      using Cons.IH [OF _ x(3) d(3) Cons.prems(4) False] by blast
    have "List.last xs \<noteq> x" using d(1) False by auto
    then have u: "active_path (calls(List.last xs \<mapsto> pc\<lparr>next_active_stream := next_active_stream call\<rparr>)) p (x # xs @ ys)"
      using pc x by simp
    have "List.last (x # xs) = List.last xs" using False by simp
    with Cons.prems(1) [of pc] pc u show ?thesis by (metis append_Cons)
  qed
qed simp

lemma find_previous_None [simp]: "find_previous_stream calls k None = Some (Ok None)"
  by (subst find_previous_stream.simps) simp

lemma find_previous_found:
  assumes "active_path calls p (xs @ k # ys)" "distinct (xs @ k # ys)" "xs \<noteq> []"
  shows "find_previous_stream calls k p = Some (Ok (Some (List.last xs)))"
  using assms
proof (induction xs arbitrary: p)
  case (Cons x xs)
  obtain xc where x: "calls x = Some xc" "p = Some x" "active_path calls (next_active_stream xc) (xs @ k # ys)"
    using Cons.prems by (auto split: option.splits)
  show ?case
  proof (cases "xs = []")
    case True
    then have "next_active_stream xc = Some k" using x by auto
    then show ?thesis using x True by (subst find_previous_stream.simps) simp
  next
    case False
    then obtain y zs where y: "xs = y # zs" by (cases xs) auto
    then have "next_active_stream xc = Some y" "y \<noteq> k" using x Cons.prems(2) by auto
    with Cons.IH [OF x(3)] Cons.prems(2) False x show ?thesis
      by (subst find_previous_stream.simps) simp
  qed
qed simp

lemma unlink_active_stream_ok:
  assumes "active_path calls (h2_active_streams c) (xs @ k # ys)" "distinct (xs @ k # ys)" "calls k = Some call"
  obtains p calls' where "unlink_active_stream k call c calls = Ok (c\<lparr>h2_active_streams := p\<rparr>, calls')"
    "active_path calls' p (xs @ ys)" "calls' k = Some call"
    "\<And>j. calls' j = calls j \<or> (j \<in> set xs \<and> (\<exists>pc n. calls j = Some pc \<and> calls' j = Some (pc\<lparr>next_active_stream := n\<rparr>)))"
proof (cases "xs = []")
  case True
  then have "h2_active_streams c = Some k" "active_path calls (next_active_stream call) ys"
    using assms by auto
  then show ?thesis
    by (intro that [of "next_active_stream call" calls]) (auto simp: unlink_active_stream_def True assms)
next
  case False
  obtain pc where pc: "calls (List.last xs) = Some pc" "next_active_stream pc = Some k"
    "active_path (calls(List.last xs \<mapsto> pc\<lparr>next_active_stream := next_active_stream call\<rparr>)) (h2_active_streams c) (xs @ ys)"
    using active_path_split [OF assms False] by blast
  have m: "List.last xs \<in> set xs" using False by simp
  have l: "k \<noteq> List.last xs" "h2_active_streams c \<noteq> Some k"
    using assms m by (auto simp: neq_Nil_conv) (metis False active_path.simps(2) append_Cons list.exhaust list.set_intros(1) option.inject)
  have e: "unlink_active_stream k call c calls
      = Ok (c, calls(List.last xs \<mapsto> pc\<lparr>next_active_stream := next_active_stream call\<rparr>))"
    using find_previous_found [OF assms(1,2) False] l pc by (simp add: unlink_active_stream_def run_loop_def)
  show ?thesis
    by (rule that [of "h2_active_streams c" "calls(List.last xs \<mapsto> pc\<lparr>next_active_stream := next_active_stream call\<rparr>)"])
       (use e pc l m assms in auto)
qed

section \<open>What the operations change\<close>

text \<open>The list links of a call, and the bookkeeping of a connection.\<close>

definition erase_link :: "grpc_call \<Rightarrow> grpc_call" where
  "erase_link call = call\<lparr>next_active_stream := None, stream_registered := False\<rparr>"

definition erase_registry :: "'ss h2_connection \<Rightarrow> 'ss h2_connection" where
  "erase_registry c = c\<lparr>h2_active_streams := None, h2_active_stream_count := 0, h2_session := None\<rparr>"

lemma erase_link_upd [simp]:
  "erase_link (call\<lparr>next_active_stream := n\<rparr>) = erase_link call"
  "erase_link (call\<lparr>next_active_stream := n, stream_registered := r\<rparr>) = erase_link call"
  "erase_link (note_stream_refused call) = note_stream_refused (erase_link call)"
  "erase_link (note_stream_closed e call) = note_stream_closed e (erase_link call)"
  by (simp_all add: erase_link_def note_stream_refused_def note_stream_closed_def)

lemma erase_registry_upd [simp]:
  "erase_registry (c\<lparr>h2_active_streams := p\<rparr>) = erase_registry c"
  "erase_registry (c\<lparr>h2_active_stream_count := n\<rparr>) = erase_registry c"
  "erase_registry (c\<lparr>h2_session := s\<rparr>) = erase_registry c"
  by (simp_all add: erase_registry_def)

definition same_calls :: "call_store \<Rightarrow> call_store \<Rightarrow> bool" where
  "same_calls calls' calls \<longleftrightarrow> (\<forall>j. map_option erase_link (calls' j) = map_option erase_link (calls j))"

lemma same_calls_refl [simp]: "same_calls calls calls"
  by (simp add: same_calls_def)

lemma same_calls_trans: "same_calls a b \<Longrightarrow> same_calls b c \<Longrightarrow> same_calls a c"
  by (simp add: same_calls_def)

lemma listed_notes [simp]:
  "listed this (note_stream_refused call) = listed this call"
  "listed this (note_stream_closed e call) = listed this call"
  "listed this (call\<lparr>next_active_stream := n\<rparr>) = listed this call"
  by (simp_all add: listed_def note_stream_refused_def note_stream_closed_def)

lemma note_stream_refused_keeps [simp]:
  "stream_id (note_stream_refused call) = stream_id call"
  "next_active_stream (note_stream_refused call) = next_active_stream call"
  by (simp_all add: note_stream_refused_def)

lemma note_stream_closed_keeps [simp]:
  "stream_id (note_stream_closed e call) = stream_id call"
  "next_active_stream (note_stream_closed e call) = next_active_stream call"
  by (simp_all add: note_stream_closed_def)

lemma erase_link_fields:
  assumes "erase_link a = erase_link b"
  shows "stream_id a = stream_id b" "connection a = connection b"
  using arg_cong [OF assms, of stream_id] arg_cong [OF assms, of connection] by (simp_all add: erase_link_def)

lemma drop_stream_user_data_keeps [simp]:
  "h2_active_streams (drop_stream_user_data L sid c) = h2_active_streams c"
  "h2_active_stream_count (drop_stream_user_data L sid c) = h2_active_stream_count c"
  "h2_dead (drop_stream_user_data L sid c) = h2_dead c"
  "erase_registry (drop_stream_user_data L sid c) = erase_registry c"
  "h2_session (drop_stream_user_data L sid c) = None \<longleftrightarrow> h2_session c = None"
  by (simp_all add: drop_stream_user_data_def split: option.splits)

lemma registry_ok_note:
  assumes "registry_ok this c calls ks" "calls k = Some call"
    and "next_active_stream call' = next_active_stream call" "listed this call' = listed this call"
  shows "registry_ok this c (calls(k \<mapsto> call')) ks"
proof -
  have "active_path (calls(k \<mapsto> call')) p ks = active_path calls p ks" for p
    by (rule active_path_frame) (simp add: assms)
  then show ?thesis using assms by (auto simp: registry_ok_def)
qed

lemma registry_ok_connection:
  assumes "registry_ok this c calls ks"
    and "h2_active_streams c' = h2_active_streams c" "h2_active_stream_count c' = h2_active_stream_count c"
  shows "registry_ok this c' calls ks"
  using assms by (simp add: registry_ok_def)

text \<open>Removing a listed call relinks its predecessor only.\<close>

lemma unregister_listed:
  assumes ok: "registry_ok this c calls (xs @ k # ys)"
  obtains c' calls' where "unregister_grpc_call_stream L this k c calls = Ok (c', calls')"
    "registry_ok this c' calls' (xs @ ys)" "erase_registry c' = erase_registry c"
    "(h2_session c' = None) = (h2_session c = None)"
    "same_calls calls' calls"
    "\<And>j. j \<notin> set xs \<Longrightarrow> j \<noteq> k \<Longrightarrow> calls' j = calls j"
proof -
  obtain call where call: "calls k = Some call" "listed this call"
    using ok active_path_dom [of calls "h2_active_streams c" "xs @ k # ys" k] by (auto simp: registry_ok_def)
  define c1 where "c1 = drop_stream_user_data L (stream_id call) c"
  have c1: "h2_active_streams c1 = h2_active_streams c" "h2_active_stream_count c1 = Suc (length (xs @ ys))"
    "erase_registry c1 = erase_registry c" "(h2_session c1 = None) = (h2_session c = None)"
    using ok by (simp_all add: c1_def registry_ok_def)
  have path: "active_path calls (h2_active_streams c1) (xs @ k # ys)" "distinct (xs @ k # ys)"
    using ok c1 by (simp_all add: registry_ok_def)
  obtain p calls1 where u: "unlink_active_stream k call c1 calls = Ok (c1\<lparr>h2_active_streams := p\<rparr>, calls1)"
    "active_path calls1 p (xs @ ys)" "calls1 k = Some call"
    "\<And>j. calls1 j = calls j \<or> (j \<in> set xs \<and> (\<exists>pc n. calls j = Some pc \<and> calls1 j = Some (pc\<lparr>next_active_stream := n\<rparr>)))"
    using unlink_active_stream_ok [OF path call(1)] by metis
  define c' where "c' = c1\<lparr>h2_active_streams := p, h2_active_stream_count := length (xs @ ys)\<rparr>"
  define calls' where "calls' = calls1(k \<mapsto> call\<lparr>next_active_stream := None, stream_registered := False\<rparr>)"
  have r: "unregister_grpc_call_stream L this k c calls = Ok (c', calls')"
    using call u(1,3) c1(2) by (simp add: unregister_grpc_call_stream_def listed_def c1_def [symmetric] c'_def calls'_def)
  have nk: "k \<notin> set (xs @ ys)" using path(2) by auto
  have l1: "listed this (the (calls1 j)) = listed this (the (calls j))" "calls1 j = None \<longleftrightarrow> calls j = None" for j
    using u(4) [of j] by auto
  have "registry_ok this c' calls' (xs @ ys)"
    unfolding registry_ok_def
  proof (intro conjI allI impI)
    show "active_path calls' (h2_active_streams c') (xs @ ys)" using u(2) nk by (simp add: c'_def calls'_def)
    show "distinct (xs @ ys)" using path(2) by auto
    show "h2_active_stream_count c' = length (xs @ ys)" by (simp add: c'_def)
    fix j cj assume cj: "calls' j = Some cj"
    show "(j \<in> set (xs @ ys)) = listed this cj"
    proof (cases "j = k")
      case True
      then show ?thesis using cj nk by (auto simp: calls'_def listed_def)
    next
      case False
      then have "calls1 j = Some cj" using cj by (simp add: calls'_def)
      moreover then obtain c0 where "calls j = Some c0" using l1(2) [of j] by auto
      ultimately have "calls j = Some c0" "listed this c0 = listed this cj" using l1(1) [of j] by simp_all
      moreover from this have "(j \<in> set (xs @ k # ys)) = listed this c0" using ok by (simp add: registry_ok_def)
      ultimately show ?thesis using False by simp
    qed
  qed
  moreover have "map_option erase_link (calls' j) = map_option erase_link (calls j)" for j
    using u(4) [of j] call(1) by (auto simp: calls'_def)
  moreover have "calls' j = calls j" if "j \<notin> set xs" "j \<noteq> k" for j
    using u(4) [of j] that by (simp add: calls'_def)
  ultimately show ?thesis using that [OF r] c1 by (auto simp: c'_def same_calls_def)
qed

lemma unregister_unlisted:
  assumes "calls k = Some call" "\<not> stream_registered call \<or> connection call = None \<or> stream_id call \<le> 0"
  shows "unregister_grpc_call_stream L this k c calls = Ok (c, calls)"
  using assms by (simp add: unregister_grpc_call_stream_def)

lemma unregister_removeAll:
  assumes ok: "registry_ok this c calls ks" and k: "calls k = Some call" "connection call = Some this \<or> \<not> stream_registered call"
  obtains c' calls' where "unregister_grpc_call_stream L this k c calls = Ok (c', calls')"
    "registry_ok this c' calls' (removeAll k ks)" "erase_registry c' = erase_registry c"
    "(h2_session c' = None) = (h2_session c = None)"
    "same_calls calls' calls"
    "\<And>j. j \<notin> set ks \<Longrightarrow> calls' j = calls j"
proof (cases "k \<in> set ks")
  case True
  then obtain xs ys where ks: "ks = xs @ k # ys" by (meson split_list)
  then have d: "removeAll k ks = xs @ ys" using ok by (simp add: registry_ok_def)
  from unregister_listed [OF ok [unfolded ks], of L] obtain c' calls' where
    "unregister_grpc_call_stream L this k c calls = Ok (c', calls')"
    "registry_ok this c' calls' (xs @ ys)" "erase_registry c' = erase_registry c"
    "(h2_session c' = None) = (h2_session c = None)"
    "same_calls calls' calls"
    "\<And>j. j \<notin> set xs \<Longrightarrow> j \<noteq> k \<Longrightarrow> calls' j = calls j" by metis
  then show ?thesis using that d ks by auto
next
  case False
  then have "\<not> listed this call" using ok k by (auto simp: registry_ok_def)
  then have "unregister_grpc_call_stream L this k c calls = Ok (c, calls)"
    using k by (auto simp: listed_def unregister_grpc_call_stream_def)
  moreover have "removeAll k ks = ks" using False by simp
  ultimately show ?thesis using that ok by simp
qed

text \<open>Whatever the lists look like, a removal that returns changes links and bookkeeping only.\<close>

lemma unlink_Ok:
  assumes "unlink_active_stream k call c calls = Ok (c', calls')"
  shows "(\<exists>p. c' = c\<lparr>h2_active_streams := p\<rparr>) \<and> same_calls calls' calls \<and> (\<forall>j. map_option (listed this) (calls' j) = map_option (listed this) (calls j))"
proof -
  have "\<exists>p. c = c\<lparr>h2_active_streams := p\<rparr>" by (rule exI [of _ "h2_active_streams c"]) simp
  then show ?thesis using assms
    by (auto simp: unlink_active_stream_def and_then_Ok on_call_Ok same_calls_def split: if_splits option.splits)
qed

lemma unregister_parts:
  assumes "unregister_grpc_call_stream L this k c calls = Ok (c', calls')" "calls k = Some call"
    and "\<not> (\<not> stream_registered call \<or> connection call = None \<or> stream_id call \<le> 0)"
  obtains c1 calls1 cal where
    "unlink_active_stream k call (drop_stream_user_data L (stream_id call) c) calls = Ok (c1, calls1)" "calls1 k = Some cal"
    "calls' = calls1(k \<mapsto> cal\<lparr>next_active_stream := None, stream_registered := False\<rparr>)"
    "c' = c1 \<or> c' = c1\<lparr>h2_active_stream_count := h2_active_stream_count c1 - 1\<rparr>"
proof -
  have "and_then (unlink_active_stream k call (drop_stream_user_data L (stream_id call) c) calls) (\<lambda>(c, calls).
      on_call calls k (\<lambda>call.
        Ok (if 0 < h2_active_stream_count c then c\<lparr>h2_active_stream_count := h2_active_stream_count c - 1\<rparr> else c,
            calls(k \<mapsto> call\<lparr>next_active_stream := None, stream_registered := False\<rparr>)))) = Ok (c', calls')"
    using assms by (simp add: unregister_grpc_call_stream_def split: if_splits)
  then obtain c1 calls1 where u: "unlink_active_stream k call (drop_stream_user_data L (stream_id call) c) calls = Ok (c1, calls1)"
    "on_call calls1 k (\<lambda>call.
        Ok (if 0 < h2_active_stream_count c1 then c1\<lparr>h2_active_stream_count := h2_active_stream_count c1 - 1\<rparr> else c1,
            calls1(k \<mapsto> call\<lparr>next_active_stream := None, stream_registered := False\<rparr>))) = Ok (c', calls')"
    unfolding and_then_Ok by auto
  from u(2) obtain cal where "calls1 k = Some cal"
    "(if 0 < h2_active_stream_count c1 then c1\<lparr>h2_active_stream_count := h2_active_stream_count c1 - 1\<rparr> else c1) = c'"
    "calls1(k \<mapsto> cal\<lparr>next_active_stream := None, stream_registered := False\<rparr>) = calls'"
    unfolding on_call_Ok by blast
  then show ?thesis using that [OF u(1)] by metis
qed

lemma unregister_Ok:
  assumes "unregister_grpc_call_stream L this k c calls = Ok (c', calls')"
  shows "erase_registry c' = erase_registry c" "same_calls calls' calls"
proof -
  obtain call where call: "calls k = Some call"
    using assms by (auto simp: unregister_grpc_call_stream_def on_call_Ok)
  have "erase_registry c' = erase_registry c \<and> same_calls calls' calls"
  proof (cases "\<not> stream_registered call \<or> connection call = None \<or> stream_id call \<le> 0")
    case True
    then show ?thesis using assms call by (simp add: unregister_grpc_call_stream_def)
  next
    case False
    from unregister_parts [OF assms call False] obtain c1 calls1 cal where
      u: "unlink_active_stream k call (drop_stream_user_data L (stream_id call) c) calls = Ok (c1, calls1)" "calls1 k = Some cal"
      "calls' = calls1(k \<mapsto> cal\<lparr>next_active_stream := None, stream_registered := False\<rparr>)"
      "c' = c1 \<or> c' = c1\<lparr>h2_active_stream_count := h2_active_stream_count c1 - 1\<rparr>" by metis
    have "same_calls calls1 calls" "erase_registry c1 = erase_registry c"
      using unlink_Ok [OF u(1), of this] by auto
    moreover have "same_calls calls' calls1" using u by (simp add: same_calls_def)
    ultimately show ?thesis using u(4) same_calls_trans by auto
  qed
  then show "erase_registry c' = erase_registry c" "same_calls calls' calls" by simp_all
qed

lemma stream_close_cases:
  assumes "on_stream_close_callback L this sid code c calls = Ok (c', calls')"
  obtains "c' = c" "calls' = calls"
  | k call where "grpc_call_from_stream_id L c sid = Some k" "calls k = Some call" "stream_id call = sid"
      "unregister_grpc_call_stream L this k c (calls(k \<mapsto> note_stream_closed code call)) = Ok (c', calls')"
  using assms by (auto simp: on_stream_close_callback_def on_call_Ok split: option.splits if_splits)

lemma stream_close_erase:
  "on_stream_close_callback L this sid code c calls = Ok (c', calls') \<Longrightarrow> erase_registry c' = erase_registry c"
  by (erule stream_close_cases) (auto dest: unregister_Ok(1))

section \<open>User data of the session\<close>

text \<open>
  nghttp2's documented behaviour: setting the user data of a stream changes that stream only, and fails
  exactly when the stream does not exist, in which case it has no user data either.
\<close>

definition user_data_laws :: "'ss lib \<Rightarrow> bool" where
  "user_data_laws L \<longleftrightarrow> (\<forall>ss sid v ss' rv. nghttp2_session_set_stream_user_data L ss sid v = (ss', rv) \<longrightarrow>
     (\<forall>sid'. nghttp2_session_get_stream_user_data L ss' sid' =
        (if sid' \<noteq> sid then nghttp2_session_get_stream_user_data L ss sid' else if rv = 0 then v else None)))"

text \<open>
  Every pointer the live session holds is a registered call of this connection.  On a dead connection
  stale pointers may remain; it is never driven again.
\<close>

definition user_data_ok :: "'ss lib \<Rightarrow> conn_id \<Rightarrow> 'ss h2_connection \<Rightarrow> call_store \<Rightarrow> bool" where
  "user_data_ok L this c calls \<longleftrightarrow> h2_dead c \<or>
     (\<forall>sid k. grpc_call_from_stream_id L c sid = Some k \<longrightarrow>
        (\<exists>call. calls k = Some call \<and> listed this call \<and> stream_id call = sid))"

lemma user_data_okD:
  "user_data_ok L this c calls \<Longrightarrow> \<not> h2_dead c \<Longrightarrow> grpc_call_from_stream_id L c sid = Some k \<Longrightarrow>
     \<exists>call. calls k = Some call \<and> listed this call \<and> stream_id call = sid"
  by (auto simp: user_data_ok_def)

lemma user_data_ok_same:
  assumes "user_data_ok L this c calls" "h2_dead c' = h2_dead c" "h2_session c' = h2_session c"
    and "\<And>k call. calls k = Some call \<Longrightarrow> listed this call \<Longrightarrow>
       \<exists>call'. calls' k = Some call' \<and> listed this call' \<and> stream_id call' = stream_id call"
  shows "user_data_ok L this c' calls'"
proof -
  have "grpc_call_from_stream_id L c' = grpc_call_from_stream_id L c"
    using assms(3) by (simp add: grpc_call_from_stream_id_def fun_eq_iff)
  then show ?thesis using assms unfolding user_data_ok_def by metis
qed

lemma user_data_ok_note:
  assumes "user_data_ok L this c calls" "calls k = Some call" "listed this call' = listed this call" "stream_id call' = stream_id call"
  shows "user_data_ok L this c (calls(k \<mapsto> call'))"
  by (rule user_data_ok_same [OF assms(1)]) (use assms in auto)

definition fewer_pointers :: "'ss lib \<Rightarrow> 'ss h2_connection \<Rightarrow> 'ss h2_connection \<Rightarrow> bool" where
  "fewer_pointers L c c' \<longleftrightarrow>
     (\<forall>sid k. grpc_call_from_stream_id L c' sid = Some k \<longrightarrow> grpc_call_from_stream_id L c sid = Some k)"

lemma fewer_pointers_session: "h2_session c' = h2_session c \<Longrightarrow> fewer_pointers L c c'"
  by (simp add: fewer_pointers_def grpc_call_from_stream_id_def)

lemma fewer_pointers_trans: "fewer_pointers L a b \<Longrightarrow> fewer_pointers L b c \<Longrightarrow> fewer_pointers L a c"
  by (simp add: fewer_pointers_def)

lemma drop_fewer_pointers:
  assumes "user_data_laws L"
  shows "fewer_pointers L c (drop_stream_user_data L sid c)"
  unfolding fewer_pointers_def
proof (intro allI impI)
  fix sid' k assume a: "grpc_call_from_stream_id L (drop_stream_user_data L sid c) sid' = Some k"
  show "grpc_call_from_stream_id L c sid' = Some k"
  proof (cases "h2_dead c \<or> h2_session c = None")
    case True
    then have "drop_stream_user_data L sid c = c" by (auto simp: drop_stream_user_data_def split: option.splits)
    then show ?thesis using a by simp
  next
    case False
    then obtain ss where ss: "h2_session c = Some ss" "\<not> h2_dead c" by auto
    obtain ss' rv where set: "nghttp2_session_set_stream_user_data L ss sid None = (ss', rv)" by fastforce
    show ?thesis
      using a ss set assms [unfolded user_data_laws_def, rule_format, OF set, of sid']
      by (simp add: grpc_call_from_stream_id_def drop_stream_user_data_def split: if_splits)
  qed
qed

lemma unregister_fewer:
  assumes "user_data_laws L" "unregister_grpc_call_stream L this k c calls = Ok (c', calls')"
  shows "fewer_pointers L c c'"
proof -
  obtain call where call: "calls k = Some call"
    using assms(2) by (auto simp: unregister_grpc_call_stream_def on_call_Ok)
  show ?thesis
  proof (cases "\<not> stream_registered call \<or> connection call = None \<or> stream_id call \<le> 0")
    case True
    then show ?thesis using assms(2) call by (simp add: unregister_grpc_call_stream_def fewer_pointers_session)
  next
    case False
    obtain c1 calls1 where
      u: "unlink_active_stream k call (drop_stream_user_data L (stream_id call) c) calls = Ok (c1, calls1)"
      "h2_session c' = h2_session c1"
      by (rule unregister_parts [OF assms(2) call False]) auto
    have "h2_session c' = h2_session (drop_stream_user_data L (stream_id call) c)" using unlink_Ok [OF u(1), of this] u(2) by auto
    from fewer_pointers_trans [OF drop_fewer_pointers [OF assms(1)] fewer_pointers_session [OF this]] show ?thesis .
  qed
qed

lemma unregister_user_data:
  assumes laws: "user_data_laws L" and ud: "user_data_ok L this c calls"
    and u: "unregister_grpc_call_stream L this k c calls = Ok (c', calls')"
  shows "user_data_ok L this c' calls'"
proof -
  obtain call where call: "calls k = Some call"
    using u by (auto simp: unregister_grpc_call_stream_def on_call_Ok)
  have dead: "h2_dead c' = h2_dead c" using arg_cong [OF unregister_Ok(1) [OF u], of h2_dead] by (simp add: erase_registry_def)
  show ?thesis
  proof (cases "h2_dead c")
    case True
    then show ?thesis using dead by (simp add: user_data_ok_def)
  next
    case alive: False
    show ?thesis
    proof (cases "\<not> stream_registered call \<or> connection call = None \<or> stream_id call \<le> 0")
      case True
      then show ?thesis using u call ud by (simp add: unregister_grpc_call_stream_def)
    next
      case False
      define c0 where "c0 = drop_stream_user_data L (stream_id call) c"
      obtain c1 calls1 cal where un: "unlink_active_stream k call c0 calls = Ok (c1, calls1)" "calls1 k = Some cal"
        "calls' = calls1(k \<mapsto> cal\<lparr>next_active_stream := None, stream_registered := False\<rparr>)" "h2_session c' = h2_session c1"
        by (rule unregister_parts [OF u call False]) (auto simp: c0_def)
      have s1: "same_calls calls1 calls" "h2_session c1 = h2_session c0"
        "\<And>j. map_option (listed this) (calls1 j) = map_option (listed this) (calls j)"
        using unlink_Ok [OF un(1), of this] by auto
      have "\<exists>call'. calls' j = Some call' \<and> listed this call' \<and> stream_id call' = sid"
        if got: "grpc_call_from_stream_id L c' sid = Some j" for sid j
      proof -
        obtain ss where ss: "h2_session c = Some ss"
          using got un(4) s1(2) unfolding grpc_call_from_stream_id_def c0_def drop_stream_user_data_def
          by (cases "h2_session c") auto
        obtain ss' rv where set: "nghttp2_session_set_stream_user_data L ss (stream_id call) None = (ss', rv)" by fastforce
        have get: "nghttp2_session_get_stream_user_data L ss' sid = Some j" "0 < sid"
          using got un(4) s1(2) ss set alive by (auto simp: grpc_call_from_stream_id_def c0_def drop_stream_user_data_def split: if_splits)
        have "sid \<noteq> stream_id call \<and> nghttp2_session_get_stream_user_data L ss sid = Some j"
          using laws [unfolded user_data_laws_def, rule_format, OF set, of sid] get by (simp split: if_splits)
        then have sid: "sid \<noteq> stream_id call" "grpc_call_from_stream_id L c sid = Some j"
          using ss get(2) by (simp_all add: grpc_call_from_stream_id_def)
        obtain cj where cj: "calls j = Some cj" "listed this cj" "stream_id cj = sid"
          using user_data_okD [OF ud alive sid(2)] by blast
        have jk: "j \<noteq> k" using cj call sid(1) by auto
        have "map_option erase_link (calls1 j) = Some (erase_link cj)" "map_option (listed this) (calls1 j) = Some True"
          using s1(1,3) cj(1,2) by (simp_all add: same_calls_def)
        then obtain c2 where c2: "calls1 j = Some c2" "erase_link c2 = erase_link cj" "listed this c2"
          by (cases "calls1 j") simp_all
        have "stream_id c2 = sid" using erase_link_fields(1) [OF c2(2)] cj(3) by simp
        then show ?thesis using un(3) jk c2 by simp
      qed
      then show ?thesis by (simp add: user_data_ok_def)
    qed
  qed
qed

section \<open>Refusing the streams above a GOAWAY\<close>

definition refused_by :: "int \<Rightarrow> call_store \<Rightarrow> call_id \<Rightarrow> bool" where
  "refused_by last_id calls k \<longleftrightarrow> (\<exists>call. calls k = Some call \<and> last_id < stream_id call)"

definition refuse_streams :: "int \<Rightarrow> call_id list \<Rightarrow> call_store \<Rightarrow> call_store" where
  "refuse_streams last_id ks calls =
     (\<lambda>k. if k \<in> set ks \<and> refused_by last_id calls k then map_option note_stream_refused (calls k) else calls k)"

lemma refused_by_erase:
  "same_calls calls' calls \<Longrightarrow> refused_by last_id calls' k = refused_by last_id calls k"
proof -
  assume "same_calls calls' calls"
  then have "map_option erase_link (calls' k) = map_option erase_link (calls k)" by (simp add: same_calls_def)
  then show ?thesis by (cases "calls k"; cases "calls' k") (auto simp: refused_by_def dest!: erase_link_fields(1))
qed

lemma refused_by_note [simp]:
  "calls k = Some call \<Longrightarrow> refused_by last_id (calls(k \<mapsto> note_stream_refused call)) j = refused_by last_id calls j"
  by (auto simp: refused_by_def)

lemma refuse_streams_step:
  assumes "same_calls calls1 (calls(k \<mapsto> note_stream_refused call))"
    and "calls k = Some call" "refused_by last_id calls k" "k \<notin> set ks"
  shows "same_calls (refuse_streams last_id ks calls1) (refuse_streams last_id (k # ks) calls)"
  unfolding same_calls_def
proof
  fix j
  have r: "refused_by last_id calls1 j = refused_by last_id calls j"
    using refused_by_erase [OF assms(1)] refused_by_note [of calls k call, OF assms(2)] by simp
  have "map_option erase_link (calls1 j) = map_option erase_link ((calls(k \<mapsto> note_stream_refused call)) j)"
    using assms(1) by (simp add: same_calls_def)
  then show "map_option erase_link (refuse_streams last_id ks calls1 j)
    = map_option erase_link (refuse_streams last_id (k # ks) calls j)"
    using assms(2-4) r by (cases "j = k"; cases "calls j"; cases "calls1 j") (auto simp: refuse_streams_def)
qed

lemma goaway_loop_None: "goaway_loop L this last_id None c calls = Some (Ok (c, calls))"
  by (subst goaway_loop.simps) simp

lemma goaway_loop_ok:
  assumes "registry_ok this c calls (ds @ rest)" "active_path calls p rest"
  shows "\<exists>c' calls'. goaway_loop L this last_id p c calls = Some (Ok (c', calls'))
    \<and> registry_ok this c' calls' (ds @ filter (\<lambda>k. \<not> refused_by last_id calls k) rest)
    \<and> erase_registry c' = erase_registry c \<and> (h2_session c' = None) = (h2_session c = None)
    \<and> same_calls calls' (refuse_streams last_id rest calls)
    \<and> (\<forall>j. j \<notin> set (ds @ rest) \<longrightarrow> calls' j = calls j)
    \<and> (user_data_laws L \<longrightarrow> user_data_ok L this c calls \<longrightarrow> user_data_ok L this c' calls')
    \<and> (user_data_laws L \<longrightarrow> fewer_pointers L c c')"
  using assms
proof (induction rest arbitrary: ds c calls p)
  case Nil
  then show ?case by (simp add: goaway_loop_None refuse_streams_def fewer_pointers_session)
next
  case (Cons k ks)
  obtain call where call: "calls k = Some call" "p = Some k" "active_path calls (next_active_stream call) ks"
    using Cons.prems(2) by auto
  have l: "listed this call" "k \<notin> set ks" "k \<notin> set ds" using Cons.prems(1) call(1) by (auto simp: registry_ok_def)
  show ?case
  proof (cases "last_id < stream_id call")
    case True
    define callsn where "callsn = calls(k \<mapsto> note_stream_refused call)"
    have okn: "registry_ok this c callsn (ds @ k # ks)"
      unfolding callsn_def by (rule registry_ok_note [OF Cons.prems(1) call(1)]) simp_all
    obtain c1 calls1 where u: "unregister_grpc_call_stream L this k c callsn = Ok (c1, calls1)"
      "registry_ok this c1 calls1 (ds @ ks)" "erase_registry c1 = erase_registry c"
      "(h2_session c1 = None) = (h2_session c = None)"
      "same_calls calls1 callsn"
      "\<And>j. j \<notin> set ds \<Longrightarrow> j \<noteq> k \<Longrightarrow> calls1 j = callsn j"
      using unregister_listed [OF okn, of L] by metis
    have d: "distinct (ds @ k # ks)" using okn by (simp add: registry_ok_def)
    have path: "active_path calls1 (next_active_stream call) ks = active_path calls (next_active_stream call) ks"
    proof (rule active_path_frame)
      fix j assume "j \<in> set ks"
      then have "j \<notin> set ds" "j \<noteq> k" using d by auto
      then show "map_option next_active_stream (calls1 j) = map_option next_active_stream (calls j)"
        using u(6) by (simp add: callsn_def)
    qed
    have ref: "refused_by last_id calls k" using call True by (auto simp: refused_by_def)
    have same: "refused_by last_id calls1 j = refused_by last_id calls j" for j
      using refused_by_erase [OF u(5)] refused_by_note [of calls k call, OF call(1)] by (simp add: callsn_def)
    have step: "goaway_loop L this last_id p c calls = goaway_loop L this last_id (next_active_stream call) c1 calls1"
      using call True l u(1) by (subst goaway_loop.simps) (simp add: callsn_def listed_def)
    from Cons.IH [OF u(2), of "next_active_stream call"] path call(3) obtain c' calls' where
      IH: "goaway_loop L this last_id (next_active_stream call) c1 calls1 = Some (Ok (c', calls'))"
      "registry_ok this c' calls' (ds @ filter (\<lambda>k. \<not> refused_by last_id calls1 k) ks)"
      "erase_registry c' = erase_registry c1" "(h2_session c' = None) = (h2_session c1 = None)"
      "same_calls calls' (refuse_streams last_id ks calls1)" "\<forall>j. j \<notin> set (ds @ ks) \<longrightarrow> calls' j = calls1 j"
      "user_data_laws L \<longrightarrow> user_data_ok L this c1 calls1 \<longrightarrow> user_data_ok L this c' calls'"
      "user_data_laws L \<longrightarrow> fewer_pointers L c1 c'" by auto
    have fr: "\<forall>j. j \<notin> set (ds @ k # ks) \<longrightarrow> calls' j = calls j" using IH(6) u(6) by (auto simp: callsn_def)
    have "user_data_laws L \<Longrightarrow> user_data_ok L this c calls \<Longrightarrow> user_data_ok L this c1 calls1"
      using unregister_user_data [OF _ _ u(1)] user_data_ok_note [of L this c calls k call "note_stream_refused call"] call(1)
      by (simp add: callsn_def)
    note ud = this IH(7)
    have few: "user_data_laws L \<longrightarrow> fewer_pointers L c c'"
      using IH(8) unregister_fewer [OF _ u(1)] fewer_pointers_trans by blast
    have "same_calls calls' (refuse_streams last_id (k # ks) calls)"
      using IH(5) refuse_streams_step [OF u(5) [unfolded callsn_def] call(1) ref l(2)] by (rule same_calls_trans)
    then show ?thesis using step IH(1-5) u(3,4) ref same fr ud few by auto
  next
    case False
    then have nref: "\<not> refused_by last_id calls k" using call by (simp add: refused_by_def)
    have step: "goaway_loop L this last_id p c calls = goaway_loop L this last_id (next_active_stream call) c calls"
      using call False by (subst goaway_loop.simps) simp
    have "registry_ok this c calls ((ds @ [k]) @ ks)" using Cons.prems(1) by simp
    from Cons.IH [OF this call(3)] obtain c' calls' where
      IH: "goaway_loop L this last_id (next_active_stream call) c calls = Some (Ok (c', calls'))"
      "registry_ok this c' calls' (ds @ k # filter (\<lambda>k. \<not> refused_by last_id calls k) ks)"
      "erase_registry c' = erase_registry c" "(h2_session c' = None) = (h2_session c = None)"
      "same_calls calls' (refuse_streams last_id ks calls)" "\<forall>j. j \<notin> set (ds @ k # ks) \<longrightarrow> calls' j = calls j"
      "user_data_laws L \<longrightarrow> user_data_ok L this c calls \<longrightarrow> user_data_ok L this c' calls'"
      "user_data_laws L \<longrightarrow> fewer_pointers L c c'" by auto
    have "refuse_streams last_id (k # ks) calls = refuse_streams last_id ks calls"
      using nref by (auto simp: refuse_streams_def fun_eq_iff)
    then show ?thesis using step IH nref by auto
  qed
qed

lemma registry_ok_draining [simp]:
  "registry_ok this (mark_connection_draining l e c) calls ks = registry_ok this c calls ks"
  by (simp add: registry_ok_def mark_connection_draining_def)

lemma registry_ok_dead [simp]:
  "registry_ok this (mark_connection_dead L e c) calls ks = registry_ok this c calls ks"
  by (simp add: registry_ok_def)

lemma user_data_ok_draining:
  "user_data_ok L this c calls \<Longrightarrow> user_data_ok L this (mark_connection_draining l e c) calls"
  by (erule user_data_ok_same) (simp_all add: mark_connection_draining_def)

lemma goaway_received_ok:
  assumes ok: "registry_ok this c calls ks"
  shows "\<exists>c' calls'. on_goaway_received L this last_id code c calls = Ok (c', calls') \<and> h2_draining c'
    \<and> erase_registry c' = erase_registry (mark_connection_draining last_id code c)
    \<and> (h2_session c' = None) = (h2_session c = None)
    \<and> (if last_id = INT32_MAX then registry_ok this c' calls' ks \<and> calls' = calls
       else registry_ok this c' calls' (filter (\<lambda>k. \<not> refused_by last_id calls k) ks)
            \<and> same_calls calls' (refuse_streams last_id ks calls))
    \<and> (\<forall>j. j \<notin> set ks \<longrightarrow> calls' j = calls j)
    \<and> (user_data_laws L \<longrightarrow> user_data_ok L this c calls \<longrightarrow> user_data_ok L this c' calls')
    \<and> (user_data_laws L \<longrightarrow> fewer_pointers L c c')"
proof (cases "last_id = INT32_MAX")
  case True
  have "h2_draining (mark_connection_draining last_id code c)" "h2_session (mark_connection_draining last_id code c) = h2_session c"
    by (simp_all add: mark_connection_draining_def)
  then show ?thesis using ok True user_data_ok_draining fewer_pointers_session by (auto simp: on_goaway_received_def)
next
  case False
  define c1 where "c1 = mark_connection_draining last_id code c"
  have "registry_ok this c1 calls ([] @ ks)" "active_path calls (h2_active_streams c) ks"
    using ok by (simp_all add: c1_def registry_ok_def mark_connection_draining_def)
  from goaway_loop_ok [OF this, of L last_id] obtain c' calls' where
    g: "goaway_loop L this last_id (h2_active_streams c) c1 calls = Some (Ok (c', calls'))"
    "registry_ok this c' calls' (filter (\<lambda>k. \<not> refused_by last_id calls k) ks)"
    "erase_registry c' = erase_registry c1" "(h2_session c' = None) = (h2_session c1 = None)"
    "same_calls calls' (refuse_streams last_id ks calls)" "\<forall>j. j \<notin> set ks \<longrightarrow> calls' j = calls j"
    "user_data_laws L \<longrightarrow> user_data_ok L this c1 calls \<longrightarrow> user_data_ok L this c' calls'"
    "user_data_laws L \<longrightarrow> fewer_pointers L c1 c'" by auto
  have "h2_draining c' = h2_draining c1" using arg_cong [OF g(3), of h2_draining] by (simp add: erase_registry_def)
  moreover have "h2_draining c1" "h2_session c1 = h2_session c" by (simp_all add: c1_def mark_connection_draining_def)
  moreover have "user_data_ok L this c calls \<Longrightarrow> user_data_ok L this c1 calls" by (simp add: c1_def user_data_ok_draining)
  moreover have "user_data_laws L \<longrightarrow> fewer_pointers L c c'"
    using g(8) fewer_pointers_trans [OF fewer_pointers_session] calculation by blast
  moreover have "on_goaway_received L this last_id code c calls = Ok (c', calls')"
    using g(1) False by (simp add: on_goaway_received_def run_loop_def c1_def)
  ultimately show ?thesis using g(2-) False unfolding c1_def [symmetric] by auto
qed

section \<open>Registering\<close>

lemma register_ok:
  assumes "registry_ok this c calls ks" "calls k = Some call" "\<not> stream_registered call" "h2_session c \<noteq> None"
  obtains ok c' calls' where "register_grpc_call_stream L this k c calls = Ok (ok, c', calls')"
    "registry_ok this c' calls' (if ok then k # ks else ks)" "\<And>j. j \<noteq> k \<Longrightarrow> calls' j = calls j"
    "h2_session c' \<noteq> None"
    "if ok then 0 < stream_id call \<and> h2_stream_owner_count c' = h2_stream_owner_count c + 1
       \<and> calls' k = Some (call\<lparr>connection := Some this, stream_registered := True, connection_owned := True,
            next_active_stream := h2_active_streams c\<rparr>)
     else calls' = calls \<and> h2_stream_owner_count c' = h2_stream_owner_count c"
    "erase_registry (c'\<lparr>h2_stream_owner_count := 0\<rparr>) = erase_registry (c\<lparr>h2_stream_owner_count := 0\<rparr>)"
proof -
  obtain ss where ss: "h2_session c = Some ss" using assms(4) by auto
  have nk: "k \<notin> set ks" using assms(1-3) by (auto simp: registry_ok_def listed_def)
  obtain ss' rv where set: "nghttp2_session_set_stream_user_data L ss (stream_id call) (Some k) = (ss', rv)"
    by fastforce
  show ?thesis
  proof (cases "0 < stream_id call \<and> rv = 0")
    case True
    show ?thesis
    proof (rule that [of True])
      show "register_grpc_call_stream L this k c calls = Ok (True,
          c\<lparr>h2_session := Some ss', h2_active_streams := Some k, h2_active_stream_count := h2_active_stream_count c + 1,
            h2_stream_owner_count := h2_stream_owner_count c + 1\<rparr>,
          calls(k \<mapsto> call\<lparr>connection := Some this, stream_registered := True, connection_owned := True,
            next_active_stream := h2_active_streams c\<rparr>))"
        using True assms(2) ss set by (simp add: register_grpc_call_stream_def)
    qed (use True assms nk in \<open>auto simp: registry_ok_def listed_def erase_registry_def\<close>)
  next
    case False
    define c' where "c' = (if 0 < stream_id call then c\<lparr>h2_session := Some ss'\<rparr> else c)"
    have "register_grpc_call_stream L this k c calls = Ok (False, c', calls)"
      using False assms(2) ss set by (auto simp: register_grpc_call_stream_def c'_def)
    then show ?thesis
      by (rule that) (use assms in \<open>auto simp: c'_def registry_ok_def erase_registry_def\<close>)
  qed
qed

section \<open>The invariant of a connection and its calls\<close>

definition streams_ok :: "'ss lib \<Rightarrow> conn_id \<Rightarrow> 'ss h2_connection \<Rightarrow> call_store \<Rightarrow> bool" where
  "streams_ok L this c calls \<longleftrightarrow> (\<exists>ks. registry_ok this c calls ks) \<and> user_data_ok L this c calls"

text \<open>Calls of other connections.\<close>

definition foreign_kept :: "conn_id \<Rightarrow> call_store \<Rightarrow> call_store \<Rightarrow> bool" where
  "foreign_kept this calls calls' \<longleftrightarrow>
     (\<forall>j. (calls' j = None) = (calls j = None)) \<and>
     (\<forall>j call. calls j = Some call \<longrightarrow> connection call \<noteq> Some this \<longrightarrow> calls' j = Some call)"

lemma foreign_kept_refl [simp]: "foreign_kept this calls calls"
  by (simp add: foreign_kept_def)

lemma foreign_kept_trans:
  "foreign_kept this a b \<Longrightarrow> foreign_kept this b c \<Longrightarrow> foreign_kept this a c"
  by (simp add: foreign_kept_def)

lemma unlisted_foreign_kept:
  assumes "registry_ok this c calls ks" "\<And>j. j \<notin> set ks \<Longrightarrow> calls' j = calls j" "same_calls calls' calls"
  shows "foreign_kept this calls calls'"
proof -
  have "(calls' j = None) = (calls j = None)" for j
    using assms(3) by (metis map_option_is_None same_calls_def)
  moreover have "j \<notin> set ks" if "calls j = Some call" "connection call \<noteq> Some this" for j call
    using assms(1) that by (auto simp: registry_ok_def listed_def)
  ultimately show ?thesis using assms(2) by (simp add: foreign_kept_def)
qed

lemma unregister_streams:
  assumes "user_data_laws L" "streams_ok L this c calls" "calls k = Some call"
    and "connection call = Some this \<or> \<not> stream_registered call"
  shows "\<exists>c' calls'. unregister_grpc_call_stream L this k c calls = Ok (c', calls')
    \<and> streams_ok L this c' calls' \<and> erase_registry c' = erase_registry c \<and> (h2_session c' = None) = (h2_session c = None)
    \<and> same_calls calls' calls \<and> foreign_kept this calls calls'
    \<and> (\<exists>call'. calls' k = Some call' \<and> (connection call = Some this \<longrightarrow> 0 < stream_id call \<longrightarrow> \<not> stream_registered call'))"
proof -
  obtain ks where ks: "registry_ok this c calls ks" using assms(2) by (auto simp: streams_ok_def)
  from unregister_removeAll [OF ks assms(3,4), of L] obtain c' calls' where
    u: "unregister_grpc_call_stream L this k c calls = Ok (c', calls')"
    "registry_ok this c' calls' (removeAll k ks)" "erase_registry c' = erase_registry c" "same_calls calls' calls"
    "\<And>j. j \<notin> set ks \<Longrightarrow> calls' j = calls j" "(h2_session c' = None) = (h2_session c = None)" by metis
  have "streams_ok L this c' calls'"
    using u(2) unregister_user_data [OF assms(1) _ u(1)] assms(2) by (auto simp: streams_ok_def)
  moreover have f: "foreign_kept this calls calls'" by (rule unlisted_foreign_kept [OF ks u(5,4)])
  moreover obtain call' where c': "calls' k = Some call'" using f assms(3) by (cases "calls' k") (auto simp: foreign_kept_def)
  moreover have "\<not> listed this call'" using u(2) c' by (auto simp: registry_ok_def)
  moreover have "erase_link call' = erase_link call"
    using u(4) [unfolded same_calls_def, rule_format, of k] c' assms(3) by simp
  note erase_link_fields [OF this]
  ultimately show ?thesis using u by (auto simp: listed_def)
qed

lemma registry_members:
  assumes "registry_ok this c calls ks" "k \<in> set ks"
  shows "\<exists>call. calls k = Some call \<and> listed this call"
proof -
  obtain call where "calls k = Some call"
    using assms active_path_dom [of calls "h2_active_streams c" ks k] by (auto simp: registry_ok_def)
  then show ?thesis using assms by (auto simp: registry_ok_def)
qed

lemma streams_ok_note:
  assumes "streams_ok L this c calls" "calls k = Some call"
    and "next_active_stream call' = next_active_stream call" "listed this call' = listed this call" "stream_id call' = stream_id call"
  shows "streams_ok L this c (calls(k \<mapsto> call'))"
  using assms registry_ok_note [of this c calls _ k call call'] user_data_ok_note [of L this c calls k call call']
  by (auto simp: streams_ok_def)

lemma streams_ok_connection:
  assumes "streams_ok L this c calls" "h2_active_streams c' = h2_active_streams c"
    and "h2_active_stream_count c' = h2_active_stream_count c" "h2_session c' = h2_session c" "h2_dead c \<longrightarrow> h2_dead c'"
  shows "streams_ok L this c' calls"
proof -
  have "grpc_call_from_stream_id L c' = grpc_call_from_stream_id L c"
    using assms(4) by (simp add: grpc_call_from_stream_id_def fun_eq_iff)
  then show ?thesis using assms registry_ok_connection [OF _ assms(2,3)] by (auto simp: streams_ok_def user_data_ok_def)
qed

text \<open>
  While the session is driven no call is freed, so the pointers stay valid even if a callback kills the
  connection half way.
\<close>

definition pointers_ok :: "'ss lib \<Rightarrow> conn_id \<Rightarrow> 'ss h2_connection \<Rightarrow> call_store \<Rightarrow> bool" where
  "pointers_ok L this c calls \<longleftrightarrow>
     (\<forall>sid k. grpc_call_from_stream_id L c sid = Some k \<longrightarrow> (\<exists>call. calls k = Some call \<and> connection call = Some this))"

definition driving_ok :: "'ss lib \<Rightarrow> conn_id \<Rightarrow> 'ss h2_connection \<Rightarrow> call_store \<Rightarrow> bool" where
  "driving_ok L this c calls \<longleftrightarrow> streams_ok L this c calls \<and> pointers_ok L this c calls"

lemma streams_driving: "streams_ok L this c calls \<Longrightarrow> \<not> h2_dead c \<Longrightarrow> driving_ok L this c calls"
  by (fastforce simp: driving_ok_def streams_ok_def pointers_ok_def user_data_ok_def listed_def)

lemma driving_streams: "driving_ok L this c calls \<Longrightarrow> streams_ok L this c calls"
  by (simp add: driving_ok_def)

lemma pointers_ok_mono:
  assumes "pointers_ok L this c calls" "fewer_pointers L c c'"
    and "\<And>k call. calls k = Some call \<Longrightarrow> \<exists>call'. calls' k = Some call' \<and> connection call' = connection call"
  shows "pointers_ok L this c' calls'"
  using assms unfolding pointers_ok_def fewer_pointers_def by metis

lemma same_calls_connection:
  assumes "same_calls calls' calls" "calls k = Some call"
  shows "\<exists>call'. calls' k = Some call' \<and> connection call' = connection call"
proof -
  have "map_option erase_link (calls' k) = Some (erase_link call)" using assms by (simp add: same_calls_def)
  then obtain call' where c': "calls' k = Some call'" "erase_link call' = erase_link call" by (cases "calls' k") simp_all
  show ?thesis using c'(1) erase_link_fields(2) [OF c'(2)] by simp
qed

lemma stream_close_driving:
  assumes "user_data_laws L" "driving_ok L this c calls"
  shows "\<exists>c' calls'. on_stream_close_callback L this sid code c calls = Ok (c', calls')
    \<and> driving_ok L this c' calls' \<and> erase_registry c' = erase_registry c \<and> (h2_session c' = None) = (h2_session c = None)
    \<and> foreign_kept this calls calls'"
proof (cases "grpc_call_from_stream_id L c sid")
  case None
  then show ?thesis using assms by (simp add: on_stream_close_callback_def)
next
  case (Some k)
  obtain call where call: "calls k = Some call" "connection call = Some this"
    using assms(2) Some unfolding driving_ok_def pointers_ok_def by blast
  show ?thesis
  proof (cases "sid = stream_id call")
    case False
    then show ?thesis using assms Some call by (simp add: on_stream_close_callback_def)
  next
    case True
    define calls1 where "calls1 = calls(k \<mapsto> note_stream_closed code call)"
    have ok1: "streams_ok L this c calls1"
      unfolding calls1_def by (rule streams_ok_note [OF driving_streams [OF assms(2)] call(1)]) simp_all
    have k1: "calls1 k = Some (note_stream_closed code call)" "connection (note_stream_closed code call) = Some this"
      using call(2) by (simp_all add: calls1_def note_stream_closed_def)
    from unregister_streams [OF assms(1) ok1 k1(1)] k1(2) obtain c' calls' where
      u: "unregister_grpc_call_stream L this k c calls1 = Ok (c', calls')" "streams_ok L this c' calls'"
      "erase_registry c' = erase_registry c" "same_calls calls' calls1" "foreign_kept this calls1 calls'"
      "(h2_session c' = None) = (h2_session c = None)" by auto
    have "foreign_kept this calls calls1" using call by (auto simp: foreign_kept_def calls1_def)
    then have f: "foreign_kept this calls calls'" using u(5) by (rule foreign_kept_trans)
    have "pointers_ok L this c calls1"
      by (rule pointers_ok_mono [of L this c calls c]) (use assms(2) call k1 in \<open>auto simp: driving_ok_def calls1_def fewer_pointers_session note_stream_closed_def\<close>)
    then have "pointers_ok L this c' calls'"
      by (rule pointers_ok_mono [OF _ unregister_fewer [OF assms(1) u(1)] same_calls_connection [OF u(4)]])
    then show ?thesis using u f Some call True by (auto simp: on_stream_close_callback_def calls1_def [symmetric] driving_ok_def)
  qed
qed

lemma goaway_driving:
  assumes "user_data_laws L" "driving_ok L this c calls"
  shows "\<exists>c' calls'. on_goaway_received L this last_id code c calls = Ok (c', calls')
    \<and> driving_ok L this c' calls' \<and> foreign_kept this calls calls' \<and> (h2_session c' = None) = (h2_session c = None)
    \<and> (same_calls calls' calls \<or> (\<exists>ks. same_calls calls' (refuse_streams last_id ks calls)))
    \<and> erase_registry c' = erase_registry (mark_connection_draining last_id code c)"
proof -
  obtain ks where ks: "registry_ok this c calls ks" using assms(2) by (auto simp: driving_ok_def streams_ok_def)
  obtain c' calls' where g: "on_goaway_received L this last_id code c calls = Ok (c', calls')"
    "erase_registry c' = erase_registry (mark_connection_draining last_id code c)"
    "(if last_id = INT32_MAX then registry_ok this c' calls' ks \<and> calls' = calls
       else registry_ok this c' calls' (filter (\<lambda>k. \<not> refused_by last_id calls k) ks)
            \<and> same_calls calls' (refuse_streams last_id ks calls))"
    "\<forall>j. j \<notin> set ks \<longrightarrow> calls' j = calls j" "user_data_ok L this c' calls'" "fewer_pointers L c c'"
    "(h2_session c' = None) = (h2_session c = None)"
    using goaway_received_ok [OF ks, of L last_id code] assms by (auto simp: driving_ok_def streams_ok_def)
  have conn: "(calls' j = None) = (calls j = None) \<and> (\<forall>call call'. calls j = Some call \<longrightarrow> calls' j = Some call' \<longrightarrow> connection call' = connection call)" for j
  proof (cases "last_id = INT32_MAX")
    case False
    then have "map_option erase_link (calls' j) = map_option erase_link (refuse_streams last_id ks calls j)"
      using g(3) by (simp add: same_calls_def)
    then have "map_option connection (map_option erase_link (calls' j))
        = map_option connection (map_option erase_link (refuse_streams last_id ks calls j))" by simp
    then have "map_option connection (calls' j) = map_option connection (calls j)"
      by (simp add: option.map_comp comp_def refuse_streams_def erase_link_def note_stream_refused_def split: if_splits)
    then show ?thesis by (cases "calls j"; cases "calls' j") simp_all
  qed (use g(3) in simp)
  have "j \<notin> set ks" if "calls j = Some call" "connection call \<noteq> Some this" for j call
    using ks that by (auto simp: registry_ok_def listed_def)
  moreover have "(calls' j = None) = (calls j = None)" for j using conn by blast
  ultimately have "foreign_kept this calls calls'" using g(4) unfolding foreign_kept_def by metis
  moreover have "streams_ok L this c' calls'" using g(3,5) by (auto simp: streams_ok_def split: if_splits)
  moreover have "pointers_ok L this c' calls'"
  proof (rule pointers_ok_mono [of L this c calls, OF _ g(6)])
    show "pointers_ok L this c calls" using assms(2) by (simp add: driving_ok_def)
    fix k call assume "calls k = Some call"
    then show "\<exists>call'. calls' k = Some call' \<and> connection call' = connection call"
      using conn [of k] by (cases "calls' k") simp_all
  qed
  moreover have "same_calls calls' calls \<or> (\<exists>ks. same_calls calls' (refuse_streams last_id ks calls))"
    using g(3) by (auto split: if_splits)
  ultimately show ?thesis using g(1,2,7) by (auto simp: driving_ok_def)
qed

section \<open>Properties\<close>

text \<open>
  C24.  A GOAWAY refuses exactly the streams it did not admit.  On a well-formed connection the handler
  returns (its walk over the linked list ends although it removes elements on the way), the connection is
  draining, every listed stream above \<open>last_stream_id\<close> is marked refused and closed and has left the list,
  every other stream keeps its place and its state, and a graceful-shutdown notice (\<open>INT32_MAX\<close>) changes no stream.
\<close>

theorem goaway_refuses_exactly:
  assumes "registry_ok this c calls ks"
  shows "\<exists>c' calls'. on_goaway_received L this last_id code c calls = Ok (c', calls')
    \<and> h2_draining c' \<and> \<not> connection_usable (Some c')
    \<and> (if last_id = INT32_MAX then registry_ok this c' calls' ks \<and> calls' = calls
       else registry_ok this c' calls' (filter (\<lambda>k. \<not> refused_by last_id calls k) ks)
            \<and> same_calls calls' (refuse_streams last_id ks calls))"
proof -
  have "h2_draining c' \<Longrightarrow> \<not> connection_usable (Some c')" for c' :: "'a h2_connection"
    by (simp add: connection_usable_def)
  then show ?thesis using goaway_received_ok [OF assms, of L last_id code] by blast
qed

definition example_calls :: call_store where
  "example_calls =
     [0 \<mapsto> grpc_call_zero\<lparr>connection := Some 7, stream_id := 5, stream_registered := True, next_active_stream := Some 1\<rparr>,
      1 \<mapsto> grpc_call_zero\<lparr>connection := Some 7, stream_id := 3, stream_registered := True, next_active_stream := Some 2\<rparr>,
      2 \<mapsto> grpc_call_zero\<lparr>connection := Some 7, stream_id := 1, stream_registered := True\<rparr>]"

lemma example_registry:
  "registry_ok 7 (example_connection\<lparr>h2_active_streams := Some 0, h2_active_stream_count := 3\<rparr>) example_calls [0, 1, 2]"
  by (auto simp: registry_ok_def example_calls_def listed_def example_defs split: if_splits)

theorem goaway_refuses_exactly_witness:
  "\<exists>c' calls'. on_goaway_received example_lib 7 1 0
      (example_connection\<lparr>h2_active_streams := Some 0, h2_active_stream_count := 3\<rparr>) example_calls = Ok (c', calls')
    \<and> registry_ok 7 c' calls' [2]"
proof -
  have "filter (\<lambda>k. \<not> refused_by 1 example_calls k) [0, 1, 2] = [2]"
    by (simp add: refused_by_def example_calls_def)
  then show ?thesis
    using goaway_refuses_exactly [OF example_registry, of example_lib 1 0] by auto
qed

end
