(* ===== verification/Exchange_Events.thy ===== *)
theory Exchange_Events
  imports Read_Ahead Response_Metadata Stream_Registry
begin

text \<open>
  The life of one exchange as nghttp2 drives it: a sequence of header, DATA, frame and close callbacks
  for the stream of one call, in any order the peer can produce.  \<open>delivered\<close> is the reachability
  relation; its invariant relates the stored status to the history.
\<close>

section \<open>Callbacks of one stream\<close>

datatype stream_event =
    EvHeader headers_category string string
  | EvData "byte list"
  | EvFrame h2_frame
  | EvClosed nat

definition deliver ::
    "'ss lib \<Rightarrow> module_globals \<Rightarrow> call_id \<Rightarrow> stream_event \<Rightarrow> 'ss h2_connection \<Rightarrow> grpc_call
      \<Rightarrow> (int \<times> 'ss h2_connection \<times> grpc_call) option" where
  "deliver L G this ev c call =
     (case ev of
        EvHeader cat name val \<Rightarrow> Some (on_header_callback L cat (stream_id call) name val c call)
      | EvData data \<Rightarrow> on_data_chunk_recv_callback L G this (stream_id call) data c call
      | EvFrame frame \<Rightarrow> Some (on_stream_frame_recv L frame c call)
      | EvClosed code \<Rightarrow> Some (0, c, note_stream_closed code call))"

inductive delivered ::
    "'ss lib \<Rightarrow> module_globals \<Rightarrow> call_id \<Rightarrow> 'ss h2_connection \<times> grpc_call \<Rightarrow> stream_event list
      \<Rightarrow> 'ss h2_connection \<times> grpc_call \<Rightarrow> bool"
  for L :: "'ss lib" and G :: module_globals and this :: call_id and s :: "'ss h2_connection \<times> grpc_call" where
  delivered_start: "delivered L G this s [] s"
| delivered_step:
    "delivered L G this s evs (c, call) \<Longrightarrow> deliver L G this ev c call = Some (rv, c', call') \<Longrightarrow>
     delivered L G this s (evs @ [ev]) (c', call')"

inductive_cases delivered_snocE: "delivered L G this s (evs @ [ev]) (c', call')"

section \<open>What the callbacks keep\<close>

text \<open>The three fields that decide between OK and a protocol failure.\<close>

definition status_view :: "grpc_call \<Rightarrow> int \<times> bool \<times> bool" where
  "status_view call = (grpc_status call, grpc_status_seen call, invalid_grpc_status call)"

lemma status_view_fields:
  "status_fields call' = status_fields call \<Longrightarrow>
     grpc_status call' = grpc_status call \<and> grpc_status_seen call' = grpc_status_seen call"
  by (simp add: status_fields_def)

lemma add_entry_status_view:
  "grpc_protocol_add_response_metadata_entry L name val t c call = (rv, c', call') \<Longrightarrow>
     status_view call' = status_view call"
  by (auto simp: grpc_protocol_add_response_metadata_entry_def status_view_def Let_def split: if_splits prod.splits)

lemma status_view_updates [simp]:
  "status_view (call\<lparr>initial_grpc_status_seen := b\<rparr>) = status_view call"
  "status_view (call\<lparr>http_status := i\<rparr>) = status_view call"
  "status_view (call\<lparr>grpc_encoding := so\<rparr>) = status_view call"
  "status_view (call\<lparr>grpc_message := so\<rparr>) = status_view call"
  "status_view (call\<lparr>content_type_seen := b\<rparr>) = status_view call"
  "status_view (call\<lparr>content_type := so\<rparr>) = status_view call"
  "status_view (call\<lparr>invalid_content_type := b\<rparr>) = status_view call"
  "status_view (call\<lparr>discard_response_body := b\<rparr>) = status_view call"
  "status_view (call\<lparr>response_header_buf := bs\<rparr>) = status_view call"
  "status_view (call\<lparr>response_header_len := n\<rparr>) = status_view call"
  "status_view (call\<lparr>response_payload_len := w\<rparr>) = status_view call"
  "status_view (call\<lparr>response_payload_offset := n\<rparr>) = status_view call"
  "status_view (call\<lparr>response_message_count := n\<rparr>) = status_view call"
  "status_view (call\<lparr>malformed_response_frame := b\<rparr>) = status_view call"
  "status_view (call\<lparr>response_message_too_large := b\<rparr>) = status_view call"
  "status_view (call\<lparr>compressed_response_seen := b\<rparr>) = status_view call"
  "status_view (call\<lparr>unsupported_response_encoding := b\<rparr>) = status_view call"
  "status_view (call\<lparr>response_body := bs\<rparr>) = status_view call"
  by (simp_all add: status_view_def)

lemma status_view_steps [simp]:
  "status_view (reset_frame_state call) = status_view call"
  "status_view (direct_open_message call) = status_view call"
  "status_view (grpc_protocol_flag_compressed_message call) = status_view call"
  by (simp_all add: reset_frame_state_def direct_open_message_def grpc_protocol_flag_compressed_message_def Let_def
      split: option.split)

lemma header_status_view:
  assumes "on_header_callback L cat sid name val c call = (rv, c', call')" "name \<noteq> ''grpc-status''"
  shows "status_view call' = status_view call"
  using assms
  by (auto simp: on_header_callback_def Let_def dest!: add_entry_status_view split: if_splits prod.splits)

lemma header_status:
  assumes "on_header_callback L cat (stream_id call) ''grpc-status'' val c call = (rv, c', call')"
  shows "grpc_status_seen call'" "grpc_status call' = grpc_protocol_parse_status_value val"
    and "grpc_status_seen call \<or> invalid_grpc_status call \<Longrightarrow> invalid_grpc_status call'"
  using assms
  by (auto simp: on_header_callback_def Let_def grpc_protocol_mark_response_metadata_as_trailing_def split: if_splits)

lemma frame_status:
  assumes "on_stream_frame_recv L frame c call = (rv, c', call')"
  shows "grpc_status call' = grpc_status call \<and> grpc_status_seen call' = grpc_status_seen call
    \<and> (invalid_grpc_status call \<longrightarrow> invalid_grpc_status call')"
  using assms by (auto simp: on_stream_frame_recv_def Let_def split: h2_frame.splits if_splits prod.splits)

subsection \<open>The aggregating path\<close>

definition iter_status_view :: "'ss iter \<Rightarrow> (int \<times> bool \<times> bool) option" where
  "iter_status_view it =
     (case it of IterReturn _ _ call \<Rightarrow> Some (status_view call) | IterContinue _ call _ \<Rightarrow> Some (status_view call)
      | IterStuck \<Rightarrow> None)"

lemma iter_status_view_simps [simp]:
  "iter_status_view (IterReturn rv c call) = Some (status_view call)"
  "iter_status_view (IterContinue c call rest) = Some (status_view call)"
  "iter_status_view IterStuck = None"
  by (simp_all add: iter_status_view_def)

lemma validate_reject_status_view [simp]: "iter_status_view (validate_reject L c call) = Some (status_view call)"
  by (simp add: validate_reject_def split: prod.split)

lemma validate_payload_status_view:
  "iter_status_view (validate_payload_step c call data) \<in> {None, Some (status_view call)}"
  by (simp add: validate_payload_step_def Let_def)

lemma validate_header_status_view:
  "iter_status_view (validate_header_complete L c call data) \<in> {None, Some (status_view call)}"
  using validate_payload_status_view [of c "(direct_open_message call)\<lparr>response_payload_offset := 0\<rparr>" data]
  by (simp add: validate_header_complete_def Let_def)

lemma validate_iteration_status_view:
  "iter_status_view (validate_iteration L c call data) \<in> {None, Some (status_view call)}"
proof -
  have "iter_status_view (validate_header_complete L c (call\<lparr>response_header_buf := b, response_header_len := n\<rparr>) d)
      \<in> {None, Some (status_view call)}" for b n d
    using validate_header_status_view [of L c "call\<lparr>response_header_buf := b, response_header_len := n\<rparr>" d] by simp
  then show ?thesis using validate_payload_status_view [of c call data]
    by (simp add: validate_iteration_def Let_def)
qed

lemma validate_loop_status_view:
  "validate_loop L c call data = Some (rv, c', call') \<Longrightarrow> status_view call' = status_view call"
proof (induction L c call data rule: validate_loop.induct)
  case (1 L c call data)
  then show ?case
    using validate_iteration_status_view [of L c call data]
    by (subst (asm) (2) validate_loop.simps)
       (auto simp: iter_status_view_def split: if_splits iter.splits)
qed

text \<open>Both decoders treat bytes after the status as a protocol violation.\<close>

lemma process_status:
  assumes "grpc_protocol_process_response_data_direct L G this c call data = Some (rv, c', call')"
  shows "grpc_status call' = grpc_status call \<and> grpc_status_seen call' = grpc_status_seen call
    \<and> (invalid_grpc_status call \<or> grpc_status_seen call \<longrightarrow> invalid_grpc_status call')"
proof -
  have "invalid_grpc_status call'" if "grpc_status_seen call"
    using assms that
    by (auto simp: grpc_protocol_process_response_data_direct_def Let_def split: prod.splits)
  then show ?thesis
    using status_view_fields [OF data_status_fields [OF assms]] data_keeps_invalid [OF assms] by blast
qed

lemma validate_status:
  assumes "grpc_protocol_validate_response_message_lengths L c call data = Some (rv, c', call')"
  shows "grpc_status call' = grpc_status call \<and> grpc_status_seen call' = grpc_status_seen call
    \<and> (invalid_grpc_status call \<or> grpc_status_seen call \<longrightarrow> invalid_grpc_status call')"
  using assms validate_loop_status_view [of L c call data rv c' call']
  by (auto simp: grpc_protocol_validate_response_message_lengths_def Let_def status_view_def
      split: prod.splits if_splits)

lemma data_chunk_status:
  assumes "on_data_chunk_recv_callback L G this (stream_id call) data c call = Some (rv, c', call')"
  shows "grpc_status call' = grpc_status call \<and> grpc_status_seen call' = grpc_status_seen call
    \<and> (invalid_grpc_status call \<or> (grpc_status_seen call \<and> data \<noteq> []) \<longrightarrow> invalid_grpc_status call')"
proof (cases "data = []")
  case True
  then show ?thesis using assms by (simp add: on_data_chunk_recv_callback_def)
next
  case False
  then show ?thesis using assms
    by (auto simp: on_data_chunk_recv_callback_def dest!: process_status validate_status
        split: if_splits option.splits prod.splits)
qed

section \<open>History of an exchange\<close>

fun status_values :: "stream_event list \<Rightarrow> string list" where
  "status_values [] = []"
| "status_values (EvHeader cat name val # evs) =
     (if name = ''grpc-status'' then val # status_values evs else status_values evs)"
| "status_values (_ # evs) = status_values evs"

lemma status_values_append [simp]: "status_values (xs @ ys) = status_values xs @ status_values ys"
  by (induction xs rule: status_values.induct) simp_all

text \<open>Some DATA bytes arrived after a \<open>grpc-status\<close> header.\<close>

definition data_after_status :: "stream_event list \<Rightarrow> bool" where
  "data_after_status evs \<longleftrightarrow>
     (\<exists>pre d post. evs = pre @ EvData d # post \<and> d \<noteq> [] \<and> status_values pre \<noteq> [])"

lemma data_after_status_snoc:
  "data_after_status (evs @ [ev]) \<longleftrightarrow>
     data_after_status evs \<or> (\<exists>d. ev = EvData d \<and> d \<noteq> [] \<and> status_values evs \<noteq> [])"
proof
  assume "data_after_status (evs @ [ev])"
  then obtain pre d post where "evs @ [ev] = pre @ EvData d # post" "d \<noteq> []" "status_values pre \<noteq> []"
    unfolding data_after_status_def by blast
  then show "data_after_status evs \<or> (\<exists>d. ev = EvData d \<and> d \<noteq> [] \<and> status_values evs \<noteq> [])"
    by (cases post rule: rev_cases) (auto simp: data_after_status_def)
next
  show "data_after_status evs \<or> (\<exists>d. ev = EvData d \<and> d \<noteq> [] \<and> status_values evs \<noteq> [])
      \<Longrightarrow> data_after_status (evs @ [ev])"
    unfolding data_after_status_def by (elim disjE exE conjE) (metis append_Cons append_assoc, blast)
qed

definition history_ok :: "stream_event list \<Rightarrow> grpc_call \<Rightarrow> bool" where
  "history_ok evs call \<longleftrightarrow>
     grpc_status_seen call = (status_values evs \<noteq> [])
     \<and> grpc_status call = (if status_values evs = [] then -1
                            else grpc_protocol_parse_status_value (last (status_values evs)))
     \<and> (2 \<le> length (status_values evs) \<or> data_after_status evs \<longrightarrow> invalid_grpc_status call)"

lemma deliver_history:
  assumes "deliver L G this ev c call = Some (rv, c', call')" "history_ok evs call"
  shows "history_ok (evs @ [ev]) call'"
proof (cases ev)
  case (EvHeader cat name val)
  show ?thesis
  proof (cases "name = ''grpc-status''")
    case True
    then have "on_header_callback L cat (stream_id call) ''grpc-status'' val c call = (rv, c', call')"
      using assms(1) EvHeader by (simp add: deliver_def)
    from header_status [OF this] assms(2) EvHeader True show ?thesis
      by (auto simp: history_ok_def data_after_status_snoc)
  next
    case False
    then have "status_view call' = status_view call"
      using assms(1) EvHeader by (intro header_status_view) (auto simp: deliver_def)
    with assms(2) EvHeader False show ?thesis
      by (auto simp: history_ok_def data_after_status_snoc status_view_def)
  qed
next
  case (EvData data)
  then have "on_data_chunk_recv_callback L G this (stream_id call) data c call = Some (rv, c', call')"
    using assms(1) by (simp add: deliver_def)
  from data_chunk_status [OF this] assms(2) EvData show ?thesis
    by (auto simp: history_ok_def data_after_status_snoc)
next
  case (EvFrame frame)
  then have "on_stream_frame_recv L frame c call = (rv, c', call')" using assms(1) by (simp add: deliver_def)
  from frame_status [OF this] assms(2) EvFrame show ?thesis
    by (auto simp: history_ok_def data_after_status_snoc)
next
  case (EvClosed code)
  with assms show ?thesis
    by (auto simp: deliver_def note_stream_closed_def history_ok_def data_after_status_snoc)
qed

lemma delivered_history:
  "delivered L G this s evs s' \<Longrightarrow> history_ok [] (snd s) \<Longrightarrow> history_ok evs (snd s')"
proof (induction rule: delivered.induct)
  case (delivered_step evs c call ev rv c' call')
  then show ?case using deliver_history by (metis snd_conv)
qed simp

text \<open>
  C21.  An exchange that resolves to OK was acknowledged by the server: for every sequence of callbacks
  the peer can cause, the call reports OK only if exactly one \<open>grpc-status\<close> header arrived, its value is
  the text \<open>0\<close>, and no response bytes followed it.
\<close>

theorem ok_needs_single_status:
  assumes "delivered L G this (c0, call0) evs (c, call)"
    and "grpc_status call0 = -1" "\<not> grpc_status_seen call0"
    and "grpc_lite_status_code_from_call call cancelled = GRPC_STATUS_OK"
  shows "status_values evs = [''0''] \<and> \<not> data_after_status evs"
proof -
  have "history_ok [] call0" using assms(2,3) by (simp add: history_ok_def data_after_status_def)
  then have h: "history_ok evs call" using delivered_history [OF assms(1)] by simp
  have ok: "grpc_status call = 0" "\<not> invalid_grpc_status call" using assms(4) status_ok_flags by blast+
  then obtain v where v: "status_values evs = [v]" "grpc_protocol_parse_status_value v = int 0"
    using h by (cases "status_values evs" rule: rev_cases) (auto simp: history_ok_def Suc_le_eq split: if_splits)
  have "v = dec_nat 0" using parse_status_complete [OF v(2)] by simp
  then have "v = ''0''" by (simp add: dec_nat.simps digit_char_def char_of_def bit_0)
  then show ?thesis using v h ok by (auto simp: history_ok_def)
qed

definition fresh_exchange :: grpc_call where
  "fresh_exchange = grpc_call_zero\<lparr>stream_id := 1, grpc_status := -1, http_status := -1,
     max_response_metadata_bytes := 100, content_type_seen := True\<rparr>"

theorem ok_needs_single_status_witness:
  "\<exists>c call. delivered example_lib example_globals 1 (example_connection, fresh_exchange)
      [EvHeader HCAT_HEADERS ''grpc-status'' ''0''] (c, call)
    \<and> grpc_lite_status_code_from_call call False = GRPC_STATUS_OK
    \<and> status_values [EvHeader HCAT_HEADERS ''grpc-status'' ''0''] = [''0'']"
proof -
  define call1 where "call1 = fresh_exchange\<lparr>grpc_status_seen := True, grpc_status := 0\<rparr>"
  have "grpc_protocol_parse_status_value ''0'' = 0"
    by (simp add: grpc_protocol_parse_status_value_def)
  then have "deliver example_lib example_globals 1 (EvHeader HCAT_HEADERS ''grpc-status'' ''0'')
      example_connection fresh_exchange = Some (0, example_connection, call1)"
    by (simp add: deliver_def on_header_callback_def call1_def fresh_exchange_def grpc_call_zero_def Let_def)
  then have d: "delivered example_lib example_globals 1 (example_connection, fresh_exchange)
      ([] @ [EvHeader HCAT_HEADERS ''grpc-status'' ''0'']) (example_connection, call1)"
    by (intro delivered_step [OF delivered_start])
  have ok: "grpc_lite_status_code_from_call call1 False = GRPC_STATUS_OK"
    by (simp add: status_ok_flags call1_def fresh_exchange_def grpc_call_zero_def)
  have "grpc_status fresh_exchange = -1" "\<not> grpc_status_seen fresh_exchange"
    by (simp_all add: fresh_exchange_def grpc_call_zero_def)
  from ok_needs_single_status [OF d this ok] d ok show ?thesis by auto
qed

end
