(* ===== verification/Wire_IO.thy ===== *)
theory Wire_IO
  imports Exchange_State
begin

text \<open>
  Deadline-bounded socket I/O of the transport (\<open>src/src/transport.c\<close>, 1245 to 1310 and 1436 to 1690).
  The operating system and OpenSSL are an \<open>io_world\<close>: the clock readings, poll results and read and
  write outcomes they will produce, in order, plus \<open>errno\<close> and the bytes accepted so far.  Every
  theorem holds for all such scripts.  A call that finds its script used up is blocked in the
  system call; the result is then \<open>None\<close>.
\<close>

section \<open>The world\<close>

datatype poll_outcome =
    PollReady
  | PollOtherEvents
  | PollTimeout
  | PollErrno int

text \<open>A socket write accepts \<open>n\<close> bytes (at most what was offered) or fails with an errno.\<close>

datatype write_outcome = WroteUpTo nat | WriteErrno int

text \<open>\<open>SSL_write\<close> accepts at least one byte or fails with an \<open>SSL_get_error\<close> code.\<close>

datatype ssl_write_outcome = SslWroteUpTo nat | SslWriteError int

datatype read_outcome = ReadBytes "byte list" | ReadErrno int

datatype ssl_read_outcome = SslReadBytes byte "byte list" | SslReadError int

record io_world =
  w_clock :: "nat list"
  w_errno :: int
  w_poll :: "poll_outcome list"
  w_send :: "write_outcome list"
  w_ssl_write :: "ssl_write_outcome list"
  w_recv :: "read_outcome list"
  w_ssl_read :: "ssl_read_outcome list"
  w_wire :: "byte list"

abbreviation (input) SSL_ERROR_WANT_READ :: int where "SSL_ERROR_WANT_READ \<equiv> 2"
abbreviation (input) SSL_ERROR_WANT_WRITE :: int where "SSL_ERROR_WANT_WRITE \<equiv> 3"

definition set_errno :: "int \<Rightarrow> io_world \<Rightarrow> io_world" where
  "set_errno e w = w\<lparr>w_errno := e\<rparr>"

definition monotonic_us :: "io_world \<Rightarrow> (nat \<times> io_world) option" where
  "monotonic_us w = (case w_clock w of [] \<Rightarrow> None | t # ts \<Rightarrow> Some (t, w\<lparr>w_clock := ts\<rparr>))"

section \<open>Deadlines\<close>

definition poll_timeout_ms_for_deadline :: "nat \<Rightarrow> io_world \<Rightarrow> (int \<times> io_world) option" where
  "poll_timeout_ms_for_deadline deadline w =
     (if deadline = 0 then Some (-1, w)
      else case monotonic_us w of
             None \<Rightarrow> None
           | Some (now, w) \<Rightarrow>
               if deadline \<le> now then Some (0, w)
               else (let remaining_us = deadline - now;
                         remaining_ms = ((remaining_us + 999) mod 2 ^ 64) div 1000
                     in Some (if INT_MAX < int remaining_ms then INT_MAX else int remaining_ms, w)))"

definition remaining_timeout_us_for_deadline :: "nat \<Rightarrow> io_world \<Rightarrow> (int \<times> io_world) option" where
  "remaining_timeout_us_for_deadline deadline w =
     (if deadline = 0 then Some (0, w)
      else case monotonic_us w of
             None \<Rightarrow> None
           | Some (now, w) \<Rightarrow>
               if deadline \<le> now then Some (-1, w)
               else (let remaining = deadline - now
                     in Some (if ZEND_LONG_MAX < int remaining then ZEND_LONG_MAX else int remaining, w)))"

text \<open>
  \<open>PollOtherEvents\<close>: \<open>poll\<close> returned a positive number but none of the tested bits is set; \<open>errno\<close> is
  then whatever it was.
\<close>

function poll_fd_until_deadline :: "nat \<Rightarrow> io_world \<Rightarrow> (int \<times> io_world) option" where
  "poll_fd_until_deadline deadline w =
     (case poll_timeout_ms_for_deadline deadline w of
        None \<Rightarrow> None
      | Some (timeout_ms, w1) \<Rightarrow>
          if timeout_ms = 0 then Some (-1, set_errno ETIMEDOUT w1)
          else (case w_poll w of
                  [] \<Rightarrow> None
                | p # ps \<Rightarrow>
                    (let w2 = w1\<lparr>w_poll := ps\<rparr>
                     in case p of
                          PollReady \<Rightarrow> Some (0, w2)
                        | PollOtherEvents \<Rightarrow> Some (-1, w2)
                        | PollTimeout \<Rightarrow> Some (-1, set_errno ETIMEDOUT w2)
                        | PollErrno e \<Rightarrow>
                            if e \<noteq> EINTR then Some (-1, set_errno e w2)
                            else poll_fd_until_deadline deadline (set_errno e w2))))"
  by pat_completeness auto
termination
  by (relation "measure (\<lambda>(d, w). length (w_poll w))") (auto simp: set_errno_def)

declare poll_fd_until_deadline.simps [simp del]

section \<open>Writing\<close>

text \<open>
  The tail shared by the two retry loops: wait for the socket, then either go round again or fail.
  \<open>Inl w\<close> means retry; \<open>Inr (expired, c, w)\<close> is the failing return, where \<open>expired\<close> says that
  \<open>*timed_out\<close> is set.
\<close>

definition wait_or_fail ::
    "'ss lib \<Rightarrow> string \<Rightarrow> nat \<Rightarrow> 'ss h2_connection \<Rightarrow> io_world
      \<Rightarrow> (io_world + (bool \<times> 'ss h2_connection \<times> io_world)) option" where
  "wait_or_fail L what deadline c w =
     (case poll_fd_until_deadline deadline w of
        None \<Rightarrow> None
      | Some (poll_result, w) \<Rightarrow>
          (let fail = (\<lambda>w.
                 if w_errno w \<noteq> ETIMEDOUT
                 then (False, c\<lparr>h2_last_io_errno := w_errno w,
                                h2_last_error_detail := snprintf_s 256 (what @ '' poll failed: '' @ c_str (libc_strerror L (w_errno w)))\<rparr>, w)
                 else (True, set_connection_error_detail ''HTTP/2 transport deadline exceeded''
                               (c\<lparr>h2_last_io_errno := w_errno w\<rparr>), w))
           in if poll_result = 0 then
                (case remaining_timeout_us_for_deadline deadline w of
                   None \<Rightarrow> None
                 | Some (remaining, w) \<Rightarrow>
                     if 0 \<le> remaining then Some (Inl w) else Some (Inr (fail (set_errno ETIMEDOUT w))))
              else Some (Inr (fail w))))"

text \<open>I/O touches only the error fields of a connection.\<close>

definition erase_errors :: "'ss h2_connection \<Rightarrow> 'ss h2_connection" where
  "erase_errors c = c\<lparr>h2_last_io_errno := 0, h2_last_ssl_error := 0, h2_last_error_detail := []\<rparr>"

lemma erase_errors_simps [simp]:
  "erase_errors (c\<lparr>h2_last_io_errno := e\<rparr>) = erase_errors c"
  "erase_errors (c\<lparr>h2_last_ssl_error := e\<rparr>) = erase_errors c"
  "erase_errors (c\<lparr>h2_last_error_detail := d\<rparr>) = erase_errors c"
  "erase_errors (set_connection_error_detail d c) = erase_errors c"
  by (simp_all add: erase_errors_def set_connection_error_detail_def)

lemma poll_keeps:
  "poll_fd_until_deadline d w = Some (r, w') \<Longrightarrow>
     w_send w' = w_send w \<and> w_ssl_write w' = w_ssl_write w \<and> w_recv w' = w_recv w
     \<and> w_ssl_read w' = w_ssl_read w \<and> w_wire w' = w_wire w"
proof (induction d w rule: poll_fd_until_deadline.induct)
  case (1 d w)
  show ?case
    using "1.prems" "1.IH"
    by (subst (asm) poll_fd_until_deadline.simps)
       (fastforce simp: set_errno_def poll_timeout_ms_for_deadline_def monotonic_us_def Let_def
         split: option.splits prod.splits list.splits poll_outcome.splits if_splits)
qed

lemma remaining_keeps:
  "remaining_timeout_us_for_deadline d w = Some (r, w') \<Longrightarrow>
     w_send w' = w_send w \<and> w_ssl_write w' = w_ssl_write w \<and> w_recv w' = w_recv w
     \<and> w_ssl_read w' = w_ssl_read w \<and> w_wire w' = w_wire w"
  by (auto simp: remaining_timeout_us_for_deadline_def monotonic_us_def Let_def
      split: if_splits option.splits list.splits)

lemma wait_or_fail_retry:
  "wait_or_fail L what d c w = Some (Inl w') \<Longrightarrow>
     w_send w' = w_send w \<and> w_ssl_write w' = w_ssl_write w \<and> w_recv w' = w_recv w
     \<and> w_ssl_read w' = w_ssl_read w \<and> w_wire w' = w_wire w"
  by (auto simp: wait_or_fail_def Let_def dest!: poll_keeps remaining_keeps
      split: option.splits prod.splits if_splits)

lemma wait_or_fail_fails:
  "wait_or_fail L what d c w = Some (Inr (e, c', w')) \<Longrightarrow>
     w_wire w' = w_wire w \<and> erase_errors c' = erase_errors c"
  by (auto simp: wait_or_fail_def set_errno_def Let_def dest!: poll_keeps remaining_keeps
      split: option.splits prod.splits if_splits)

text \<open>
  One write.  The result is the number of bytes accepted (negative on failure), whether
  \<open>*timed_out\<close> is set, and the new states.
\<close>

function ssl_write_loop ::
    "'ss lib \<Rightarrow> nat \<Rightarrow> byte list \<Rightarrow> 'ss h2_connection \<Rightarrow> io_world
      \<Rightarrow> (int \<times> bool \<times> 'ss h2_connection \<times> io_world) option" where
  "ssl_write_loop L deadline data c w =
     (case w_ssl_write w of
        [] \<Rightarrow> None
      | SslWroteUpTo n # os \<Rightarrow>
          (let k = min (Suc n) (length data)
           in Some (int k, False, c, w\<lparr>w_ssl_write := os, w_wire := w_wire w @ take k data\<rparr>))
      | SslWriteError ssl_error # os \<Rightarrow>
          (let w = w\<lparr>w_ssl_write := os\<rparr>; c = c\<lparr>h2_last_ssl_error := ssl_error\<rparr>
           in if ssl_error = SSL_ERROR_WANT_READ \<or> ssl_error = SSL_ERROR_WANT_WRITE then
                (case wait_or_fail L ''SSL_write'' deadline c w of
                   None \<Rightarrow> None
                 | Some (Inr (expired, c, w)) \<Rightarrow> Some (-1, expired, c, w)
                 | Some (Inl w') \<Rightarrow> ssl_write_loop L deadline data c w')
              else Some (-1, False,
                     c\<lparr>h2_last_io_errno := ECONNRESET,
                       h2_last_error_detail := snprintf_s 256 (''SSL_write failed: SSL_get_error='' @ dec_int ssl_error)\<rparr>,
                     set_errno ECONNRESET w)))"
  by pat_completeness auto
termination
  by (relation "measure (\<lambda>(L, d, data, c, w). length (w_ssl_write w))") (auto dest: wait_or_fail_retry)

declare ssl_write_loop.simps [simp del]

function socket_write_loop ::
    "'ss lib \<Rightarrow> nat \<Rightarrow> byte list \<Rightarrow> 'ss h2_connection \<Rightarrow> io_world
      \<Rightarrow> (int \<times> bool \<times> 'ss h2_connection \<times> io_world) option" where
  "socket_write_loop L deadline data c w =
     (case w_send w of
        [] \<Rightarrow> None
      | WroteUpTo n # os \<Rightarrow>
          (let k = min n (length data)
           in Some (int k, False, c, w\<lparr>w_send := os, w_wire := w_wire w @ take k data\<rparr>))
      | WriteErrno e # os \<Rightarrow>
          (let w = set_errno e (w\<lparr>w_send := os\<rparr>)
           in if e = EAGAIN then
                (case wait_or_fail L ''send'' deadline c w of
                   None \<Rightarrow> None
                 | Some (Inr (expired, c, w)) \<Rightarrow> Some (-1, expired, c, w)
                 | Some (Inl w') \<Rightarrow> socket_write_loop L deadline data c w')
              else Some (-1, False,
                     c\<lparr>h2_last_io_errno := e,
                       h2_last_error_detail := snprintf_s 256 (''send failed: '' @ c_str (libc_strerror L e))\<rparr>, w)))"
  by pat_completeness auto
termination
  by (relation "measure (\<lambda>(L, d, data, c, w). length (w_send w))") (auto simp: set_errno_def dest: wait_or_fail_retry)

declare socket_write_loop.simps [simp del]

definition h2_connection_send ::
    "'ss lib \<Rightarrow> nat \<Rightarrow> byte list \<Rightarrow> 'ss h2_connection \<Rightarrow> io_world
      \<Rightarrow> (int \<times> bool \<times> 'ss h2_connection \<times> io_world) option" where
  "h2_connection_send L deadline data c w =
     (case remaining_timeout_us_for_deadline deadline w of
        None \<Rightarrow> None
      | Some (remaining, w) \<Rightarrow>
          if remaining < 0 then
            Some (-1, True,
              set_connection_error_detail ''HTTP/2 transport deadline exceeded'' (c\<lparr>h2_last_io_errno := ETIMEDOUT\<rparr>),
              set_errno ETIMEDOUT w)
          else if h2_ssl c then
            (if INT_MAX < int (length data) then
               Some (-1, False,
                 set_connection_error_detail ''SSL_write length exceeds INT_MAX'' (c\<lparr>h2_last_io_errno := EMSGSIZE\<rparr>),
                 set_errno EMSGSIZE w)
             else ssl_write_loop L deadline data c w)
          else socket_write_loop L deadline data c w)"

text \<open>The public wrapper used with a call: it copies the failure into the call.\<close>

definition connection_send ::
    "'ss lib \<Rightarrow> grpc_call \<Rightarrow> byte list \<Rightarrow> 'ss h2_connection \<Rightarrow> io_world
      \<Rightarrow> (int \<times> grpc_call \<times> 'ss h2_connection \<times> io_world) option" where
  "connection_send L call data c w =
     (case h2_connection_send L (deadline_abs_us call) data c w of
        None \<Rightarrow> None
      | Some (written, expired, c, w) \<Rightarrow>
          (let call = (if expired then call\<lparr>timed_out := True\<rparr> else call);
               call = (if written < 0
                       then call\<lparr>last_io_errno := w_errno w, last_ssl_error := h2_last_ssl_error c,
                                 last_io_error_detail := snprintf_s 256 (h2_last_error_detail c)\<rparr>
                       else call)
           in Some (written, call, c, w)))"

text \<open>What a write did: the accepted prefix is on the wire, only error fields changed.\<close>

definition wrote :: "byte list \<Rightarrow> 'ss h2_connection \<Rightarrow> io_world \<Rightarrow> int \<Rightarrow> 'ss h2_connection \<Rightarrow> io_world \<Rightarrow> bool" where
  "wrote data c w written c' w' \<longleftrightarrow>
     written \<le> int (length data) \<and> erase_errors c' = erase_errors c
     \<and> w_wire w' = w_wire w @ (if 0 \<le> written then take (nat written) data else [])"

lemma ssl_write_loop_wrote:
  "ssl_write_loop L d data c w = Some (written, expired, c', w') \<Longrightarrow> wrote data c w written c' w'"
proof (induction L d data c w rule: ssl_write_loop.induct)
  case (1 L d data c w)
  show ?case
  proof (cases "w_ssl_write w")
    case Nil
    then show ?thesis using "1.prems" by (subst (asm) ssl_write_loop.simps) simp
  next
    case (Cons a os)
    show ?thesis
    proof (cases a)
      case (SslWroteUpTo n)
      then show ?thesis using "1.prems" Cons by (subst (asm) ssl_write_loop.simps) (auto simp: wrote_def Let_def)
    next
      case (SslWriteError e)
      define w1 where "w1 = w\<lparr>w_ssl_write := os\<rparr>"
      define c1 where "c1 = c\<lparr>h2_last_ssl_error := e\<rparr>"
      show ?thesis
      proof (cases "e = SSL_ERROR_WANT_READ \<or> e = SSL_ERROR_WANT_WRITE")
        case True
        then have eq: "ssl_write_loop L d data c w = (case wait_or_fail L ''SSL_write'' d c1 w1 of
                   None \<Rightarrow> None
                 | Some (Inr (expired, c, w)) \<Rightarrow> Some (-1, expired, c, w)
                 | Some (Inl w') \<Rightarrow> ssl_write_loop L d data c1 w')"
          unfolding c1_def w1_def using Cons SslWriteError by (subst ssl_write_loop.simps) (auto simp: Let_def)
        have IH: "wait_or_fail L ''SSL_write'' d c1 w1 = Some (Inl w2) \<Longrightarrow>
            ssl_write_loop L d data c1 w2 = Some (written, expired, c', w') \<Longrightarrow> wrote data c1 w2 written c' w'" for w2
          using "1.IH" [OF Cons SslWriteError w1_def c1_def True] by simp
        from "1.prems" eq IH show ?thesis
          by (auto simp: wrote_def w1_def c1_def dest!: wait_or_fail_retry wait_or_fail_fails
              split: option.splits sum.splits)
      next
        case False
        then show ?thesis using "1.prems" Cons SslWriteError
          by (subst (asm) ssl_write_loop.simps) (auto simp: wrote_def set_errno_def)
      qed
    qed
  qed
qed

lemma socket_write_loop_wrote:
  "socket_write_loop L d data c w = Some (written, expired, c', w') \<Longrightarrow> wrote data c w written c' w'"
proof (induction L d data c w rule: socket_write_loop.induct)
  case (1 L d data c w)
  show ?case
  proof (cases "w_send w")
    case Nil
    then show ?thesis using "1.prems" by (subst (asm) socket_write_loop.simps) simp
  next
    case (Cons a os)
    show ?thesis
    proof (cases a)
      case (WroteUpTo n)
      then show ?thesis using "1.prems" Cons by (subst (asm) socket_write_loop.simps) (auto simp: wrote_def Let_def)
    next
      case (WriteErrno e)
      define w1 where "w1 = set_errno e (w\<lparr>w_send := os\<rparr>)"
      show ?thesis
      proof (cases "e = EAGAIN")
        case True
        then have eq: "socket_write_loop L d data c w = (case wait_or_fail L ''send'' d c w1 of
                   None \<Rightarrow> None
                 | Some (Inr (expired, c, w)) \<Rightarrow> Some (-1, expired, c, w)
                 | Some (Inl w') \<Rightarrow> socket_write_loop L d data c w')"
          unfolding w1_def using Cons WriteErrno by (subst socket_write_loop.simps) (auto simp: Let_def)
        have IH: "wait_or_fail L ''send'' d c w1 = Some (Inl w2) \<Longrightarrow>
            socket_write_loop L d data c w2 = Some (written, expired, c', w') \<Longrightarrow> wrote data c w2 written c' w'" for w2
          using "1.IH" [OF Cons WriteErrno w1_def True] by simp
        from "1.prems" eq IH show ?thesis
          by (auto simp: wrote_def w1_def set_errno_def dest!: wait_or_fail_retry wait_or_fail_fails
              split: option.splits sum.splits)
      next
        case False
        then show ?thesis using "1.prems" Cons WriteErrno
          by (subst (asm) socket_write_loop.simps) (auto simp: wrote_def set_errno_def Let_def)
      qed
    qed
  qed
qed

lemma send_wrote:
  assumes "h2_connection_send L d data c w = Some (written, expired, c', w')"
  shows "wrote data c w written c' w'"
proof -
  obtain r w1 where r: "remaining_timeout_us_for_deadline d w = Some (r, w1)"
    using assms by (auto simp: h2_connection_send_def split: option.splits)
  have "wrote data c w1 written c' w'"
    using assms r
    by (auto simp: h2_connection_send_def wrote_def set_errno_def
        dest!: ssl_write_loop_wrote socket_write_loop_wrote split: if_splits)
  then show ?thesis using remaining_keeps [OF r] by (simp add: wrote_def)
qed

section \<open>Write everything, buffer, flush\<close>

text \<open>
  \<open>True\<close> is \<open>SUCCESS\<close>.  A write of zero bytes counts as a failure, so every round makes progress.
\<close>

function h2_connection_write_all ::
    "'ss lib \<Rightarrow> nat \<Rightarrow> byte list \<Rightarrow> 'ss h2_connection \<Rightarrow> io_world
      \<Rightarrow> (bool \<times> bool \<times> 'ss h2_connection \<times> io_world) option" where
  "h2_connection_write_all L deadline data c w =
     (if data = [] then Some (True, False, c, w)
      else case h2_connection_send L deadline data c w of
             None \<Rightarrow> None
           | Some (written, expired, c', w') \<Rightarrow>
               if written \<le> 0 then Some (False, expired, c', w')
               else h2_connection_write_all L deadline (drop (nat written) data) c' w')"
  by pat_completeness auto
termination
  by (relation "measure (\<lambda>(L, d, data, c, w). length data)") auto

declare h2_connection_write_all.simps [simp del]

definition h2_connection_flush_write_buffer ::
    "'ss lib \<Rightarrow> nat \<Rightarrow> 'ss h2_connection \<Rightarrow> io_world \<Rightarrow> (bool \<times> bool \<times> 'ss h2_connection \<times> io_world) option" where
  "h2_connection_flush_write_buffer L deadline c w =
     (if h2_write_buffer c = [] then Some (True, False, c, w)
      else case h2_connection_write_all L deadline (h2_write_buffer c) c w of
             None \<Rightarrow> None
           | Some (ok, expired, c, w) \<Rightarrow>
               if ok then Some (True, expired, c\<lparr>h2_write_buffer := []\<rparr>, w) else Some (False, expired, c, w))"

text \<open>
  The allocation of the buffer cannot fail (\<open>pemalloc\<close> does not return NULL).
\<close>

definition h2_connection_buffer_or_write ::
    "'ss lib \<Rightarrow> nat \<Rightarrow> byte list \<Rightarrow> 'ss h2_connection \<Rightarrow> io_world
      \<Rightarrow> (bool \<times> bool \<times> 'ss h2_connection \<times> io_world) option" where
  "h2_connection_buffer_or_write L deadline data c w =
     (if \<not> h2_write_coalescing c then h2_connection_write_all L deadline data c w
      else if h2_write_buffer_cap c < length data then
        (case h2_connection_flush_write_buffer L deadline c w of
           None \<Rightarrow> None
         | Some (ok, expired, c, w) \<Rightarrow>
             if \<not> ok then Some (False, expired, c, w)
             else (case h2_connection_write_all L deadline data c w of
                     None \<Rightarrow> None
                   | Some (ok, expired', c, w) \<Rightarrow> Some (ok, expired \<or> expired', c, w)))
      else
        (let append = (\<lambda>c. c\<lparr>h2_write_buffer := h2_write_buffer c @ data\<rparr>)
         in if h2_write_buffer_cap c < length (h2_write_buffer c) + length data then
              (case h2_connection_flush_write_buffer L deadline c w of
                 None \<Rightarrow> None
               | Some (ok, expired, c, w) \<Rightarrow>
                   if \<not> ok then Some (False, expired, c, w) else Some (True, expired, append c, w))
            else Some (True, False, append c, w)))"

section \<open>Sinks: ordered, lossless output\<close>

text \<open>
  The contract of an output function: a successful call appends its bytes to the stream; a failed one
  leaves a prefix of what should have been there, so nothing is ever reordered, repeated or invented.
  \<open>out\<close> is the stream including bytes still buffered, \<open>committed\<close> what has left the process.
\<close>

locale byte_sink =
  fixes put :: "byte list \<Rightarrow> 's \<Rightarrow> (bool \<times> 's) option"
    and out :: "'s \<Rightarrow> byte list" and committed :: "'s \<Rightarrow> byte list" and sane :: "'s \<Rightarrow> bool"
  assumes put_ok: "sane s \<Longrightarrow> put data s = Some (True, s') \<Longrightarrow> sane s' \<and> out s' = out s @ data"
    and put_fail: "sane s \<Longrightarrow> put data s = Some (False, s') \<Longrightarrow> \<exists>rest. committed s' @ rest = out s @ data"
begin

fun puts :: "byte list list \<Rightarrow> 's \<Rightarrow> (bool \<times> 's) option" where
  "puts [] s = Some (True, s)"
| "puts (d # ds) s =
     (case put d s of None \<Rightarrow> None | Some (ok, s) \<Rightarrow> if ok then puts ds s else Some (False, s))"

lemma puts_ok: "sane s \<Longrightarrow> puts ds s = Some (True, s') \<Longrightarrow> sane s' \<and> out s' = out s @ concat ds"
proof (induction ds arbitrary: s)
  case (Cons d ds)
  then obtain s1 where "put d s = Some (True, s1)" "puts ds s1 = Some (True, s')"
    by (auto split: option.splits prod.splits if_splits)
  then show ?case using Cons put_ok by fastforce
qed simp

lemma puts_fail:
  "sane s \<Longrightarrow> puts ds s = Some (False, s') \<Longrightarrow> \<exists>rest. committed s' @ rest = out s @ concat ds"
proof (induction ds arbitrary: s)
  case (Cons d ds)
  then obtain ok s1 where p: "put d s = Some (ok, s1)" by (auto split: option.splits prod.splits)
  show ?case
  proof (cases ok)
    case True
    then show ?thesis using Cons p put_ok [of s d s1] by fastforce
  next
    case False
    then have "s' = s1" using Cons.prems(2) p by simp
    moreover obtain rest where "committed s1 @ rest = out s @ d" using put_fail [of s d s1] Cons.prems(1) p False by auto
    then have "committed s1 @ rest @ concat ds = out s @ concat (d # ds)" by simp
    ultimately show ?thesis by blast
  qed
qed simp

end

definition write_all_put ::
    "'ss lib \<Rightarrow> nat \<Rightarrow> byte list \<Rightarrow> 'ss h2_connection \<times> io_world \<Rightarrow> (bool \<times> ('ss h2_connection \<times> io_world)) option" where
  "write_all_put L deadline data s =
     map_option (\<lambda>(ok, expired, c, w). (ok, (c, w))) (h2_connection_write_all L deadline data (fst s) (snd s))"

definition coalesce_put ::
    "'ss lib \<Rightarrow> nat \<Rightarrow> byte list \<Rightarrow> 'ss h2_connection \<times> io_world \<Rightarrow> (bool \<times> ('ss h2_connection \<times> io_world)) option" where
  "coalesce_put L deadline data s =
     map_option (\<lambda>(ok, expired, c, w). (ok, (c, w))) (h2_connection_buffer_or_write L deadline data (fst s) (snd s))"

lemma write_all_result:
  "h2_connection_write_all L d data c w = Some (ok, expired, c', w') \<Longrightarrow>
     erase_errors c' = erase_errors c \<and> (\<exists>rest. w_wire w' @ rest = w_wire w @ data)
     \<and> (ok \<longrightarrow> w_wire w' = w_wire w @ data)"
proof (induction L d data c w rule: h2_connection_write_all.induct)
  case (1 L d data c w)
  show ?case
  proof (cases "data = []")
    case True
    then show ?thesis using "1.prems" by (subst (asm) h2_connection_write_all.simps) simp
  next
    case False
    then obtain n e c1 w1 where snd: "h2_connection_send L d data c w = Some (n, e, c1, w1)"
      using "1.prems" by (subst (asm) h2_connection_write_all.simps) (auto split: option.splits)
    note wr = send_wrote [OF snd]
    show ?thesis
    proof (cases "n \<le> 0")
      case True
      then have "ok = False" "c' = c1" "w' = w1"
        using "1.prems" False snd by (subst (asm) h2_connection_write_all.simps, simp)+
      then show ?thesis using wr True by (auto simp: wrote_def split: if_splits)
    next
      case pos: False
      then have rec: "h2_connection_write_all L d (drop (nat n) data) c1 w1 = Some (ok, expired, c', w')"
        using "1.prems" False snd by (subst (asm) h2_connection_write_all.simps) simp
      have IH: "erase_errors c' = erase_errors c1 \<and> (\<exists>rest. w_wire w' @ rest = w_wire w1 @ drop (nat n) data)
          \<and> (ok \<longrightarrow> w_wire w' = w_wire w1 @ drop (nat n) data)"
        using "1.IH" [OF False snd _ _ _ pos rec] by simp
      have "w_wire w1 = w_wire w @ take (nat n) data" "erase_errors c1 = erase_errors c"
        using wr pos by (auto simp: wrote_def)
      then have "w_wire w1 @ drop (nat n) data = w_wire w @ data" by simp
      then show ?thesis using IH \<open>erase_errors c1 = erase_errors c\<close> by simp
    qed
  qed
qed

interpretation direct_sink: byte_sink "write_all_put L deadline" "\<lambda>s. w_wire (snd s)" "\<lambda>s. w_wire (snd s)" "\<lambda>_. True"
  by unfold_locales (auto simp: write_all_put_def dest!: write_all_result)

text \<open>The buffered stream: what left the process followed by what the buffer holds.\<close>

definition buffered_out :: "'ss h2_connection \<times> io_world \<Rightarrow> byte list" where
  "buffered_out s = w_wire (snd s) @ h2_write_buffer (fst s)"

definition buffer_sane :: "'ss h2_connection \<times> io_world \<Rightarrow> bool" where
  "buffer_sane s \<longleftrightarrow> h2_write_coalescing (fst s) \<and> length (h2_write_buffer (fst s)) \<le> h2_write_buffer_cap (fst s)"

lemma erase_errors_eqD:
  assumes "erase_errors c' = erase_errors c"
  shows "h2_write_buffer c' = h2_write_buffer c \<and> h2_write_buffer_cap c' = h2_write_buffer_cap c
    \<and> h2_write_coalescing c' = h2_write_coalescing c \<and> h2_dead c' = h2_dead c \<and> h2_fd c' = h2_fd c
    \<and> h2_session c' = h2_session c \<and> h2_current_write_deadline_abs_us c' = h2_current_write_deadline_abs_us c
    \<and> h2_setup_deadline_abs_us c' = h2_setup_deadline_abs_us c"
  using arg_cong [OF assms, of h2_write_buffer] arg_cong [OF assms, of h2_write_buffer_cap]
    arg_cong [OF assms, of h2_write_coalescing] arg_cong [OF assms, of h2_dead] arg_cong [OF assms, of h2_fd]
    arg_cong [OF assms, of h2_session] arg_cong [OF assms, of h2_current_write_deadline_abs_us]
    arg_cong [OF assms, of h2_setup_deadline_abs_us]
  by (simp_all add: erase_errors_def)

lemma flush_result:
  assumes "h2_connection_flush_write_buffer L d c w = Some (ok, expired, c', w')"
  shows "\<exists>rest. w_wire w' @ rest = w_wire w @ h2_write_buffer c"
    and "ok \<Longrightarrow> w_wire w' = w_wire w @ h2_write_buffer c \<and> h2_write_buffer c' = []"
    and "h2_write_buffer_cap c' = h2_write_buffer_cap c \<and> h2_write_coalescing c' = h2_write_coalescing c"
proof -
  show "\<exists>rest. w_wire w' @ rest = w_wire w @ h2_write_buffer c"
    using assms
    by (auto simp: h2_connection_flush_write_buffer_def dest!: write_all_result split: if_splits option.splits)
  show "ok \<Longrightarrow> w_wire w' = w_wire w @ h2_write_buffer c \<and> h2_write_buffer c' = []"
    using assms
    by (auto simp: h2_connection_flush_write_buffer_def dest!: write_all_result split: if_splits option.splits)
  show "h2_write_buffer_cap c' = h2_write_buffer_cap c \<and> h2_write_coalescing c' = h2_write_coalescing c"
    using assms
    by (auto simp: h2_connection_flush_write_buffer_def dest!: write_all_result erase_errors_eqD
        split: if_splits option.splits)
qed

lemma buffer_or_write_result:
  assumes "buffer_sane (c, w)" "h2_connection_buffer_or_write L d data c w = Some (ok, expired, c', w')"
  shows "if ok then buffer_sane (c', w') \<and> buffered_out (c', w') = buffered_out (c, w) @ data
    else \<exists>rest. w_wire w' @ rest = buffered_out (c, w) @ data"
proof -
  have co: "h2_write_coalescing c" "length (h2_write_buffer c) \<le> h2_write_buffer_cap c"
    using assms(1) by (simp_all add: buffer_sane_def)
  consider (large) "h2_write_buffer_cap c < length data"
    | (flush) "\<not> h2_write_buffer_cap c < length data" "h2_write_buffer_cap c < length (h2_write_buffer c) + length data"
    | (fits) "\<not> h2_write_buffer_cap c < length data" "\<not> h2_write_buffer_cap c < length (h2_write_buffer c) + length data"
    by blast
  then show ?thesis
  proof cases
    case large
    then obtain ok1 e1 c1 w1 where f: "h2_connection_flush_write_buffer L d c w = Some (ok1, e1, c1, w1)"
      using assms(2) co by (auto simp: h2_connection_buffer_or_write_def split: option.splits)
    show ?thesis
    proof (cases ok1)
      case True
      then obtain e2 where "h2_connection_write_all L d data c1 w1 = Some (ok, e2, c', w')"
        using assms(2) co large f by (auto simp: h2_connection_buffer_or_write_def split: option.splits)
      from write_all_result [OF this] flush_result(2) [OF f True] flush_result(3) [OF f] co show ?thesis
        by (auto simp: buffered_out_def buffer_sane_def dest!: erase_errors_eqD)
    next
      case False
      with assms(2) co large f have "ok = False" "w' = w1"
        by (auto simp: h2_connection_buffer_or_write_def)
      with flush_result(1) [OF f] show ?thesis by (auto simp: buffered_out_def) (metis append_assoc)
    qed
  next
    case flush
    then obtain e1 c1 w1 where f: "h2_connection_flush_write_buffer L d c w = Some (ok, e1, c1, w1)"
      "w' = w1" "ok \<Longrightarrow> c' = c1\<lparr>h2_write_buffer := h2_write_buffer c1 @ data\<rparr>"
      using assms(2) co
      by (auto simp: h2_connection_buffer_or_write_def Let_def split: option.splits if_splits)
    show ?thesis
    proof (cases ok)
      case True
      with f flush_result(2) [OF f(1) True] flush_result(3) [OF f(1)] co flush show ?thesis
        by (simp add: buffered_out_def buffer_sane_def)
    next
      case False
      with f(2) flush_result(1) [OF f(1)] show ?thesis by (auto simp: buffered_out_def) (metis append_assoc)
    qed
  next
    case fits
    then show ?thesis using assms(2) co
      by (auto simp: h2_connection_buffer_or_write_def Let_def buffered_out_def buffer_sane_def)
  qed
qed

interpretation coalescing_sink: byte_sink "coalesce_put L deadline" buffered_out "\<lambda>s. w_wire (snd s)" buffer_sane
  by unfold_locales (auto simp: coalesce_put_def dest!: buffer_or_write_result)

section \<open>Reading\<close>

text \<open>
  The result is \<open>nread\<close> with the bytes read (0 bytes: end of file on a plain socket).  A read delivers
  at most \<open>len\<close> bytes.
\<close>

function ssl_read_loop ::
    "'ss lib \<Rightarrow> nat \<Rightarrow> nat \<Rightarrow> 'ss h2_connection \<Rightarrow> io_world
      \<Rightarrow> (int \<times> byte list \<times> 'ss h2_connection \<times> io_world) option" where
  "ssl_read_loop L deadline len c w =
     (case w_ssl_read w of
        [] \<Rightarrow> None
      | SslReadBytes b bs # os \<Rightarrow>
          (let bytes = take len (b # bs) in Some (int (length bytes), bytes, c, w\<lparr>w_ssl_read := os\<rparr>))
      | SslReadError ssl_error # os \<Rightarrow>
          (let w = w\<lparr>w_ssl_read := os\<rparr>; c = c\<lparr>h2_last_ssl_error := ssl_error\<rparr>
           in if ssl_error = SSL_ERROR_WANT_READ \<or> ssl_error = SSL_ERROR_WANT_WRITE then
                (case wait_or_fail L ''SSL_read'' deadline c w of
                   None \<Rightarrow> None
                 | Some (Inr (expired, c, w)) \<Rightarrow> Some (-1, [], c, w)
                 | Some (Inl w') \<Rightarrow> ssl_read_loop L deadline len c w')
              else Some (-1, [],
                     c\<lparr>h2_last_io_errno := ECONNRESET,
                       h2_last_error_detail := snprintf_s 256 (''SSL_read failed: SSL_get_error='' @ dec_int ssl_error)\<rparr>,
                     set_errno ECONNRESET w)))"
  by pat_completeness auto
termination
  by (relation "measure (\<lambda>(L, d, len, c, w). length (w_ssl_read w))") (auto dest: wait_or_fail_retry)

declare ssl_read_loop.simps [simp del]

function socket_read_loop ::
    "'ss lib \<Rightarrow> nat \<Rightarrow> nat \<Rightarrow> 'ss h2_connection \<Rightarrow> io_world
      \<Rightarrow> (int \<times> byte list \<times> 'ss h2_connection \<times> io_world) option" where
  "socket_read_loop L deadline len c w =
     (case w_recv w of
        [] \<Rightarrow> None
      | ReadBytes bs # os \<Rightarrow>
          (let bytes = take len bs in Some (int (length bytes), bytes, c, w\<lparr>w_recv := os\<rparr>))
      | ReadErrno e # os \<Rightarrow>
          (let w = set_errno e (w\<lparr>w_recv := os\<rparr>)
           in if e = EAGAIN then
                (case wait_or_fail L ''recv'' deadline c w of
                   None \<Rightarrow> None
                 | Some (Inr (expired, c, w)) \<Rightarrow> Some (-1, [], c, w)
                 | Some (Inl w') \<Rightarrow> socket_read_loop L deadline len c w')
              else Some (-1, [],
                     c\<lparr>h2_last_io_errno := e,
                       h2_last_error_detail := snprintf_s 256 (''recv failed: '' @ c_str (libc_strerror L e))\<rparr>, w)))"
  by pat_completeness auto
termination
  by (relation "measure (\<lambda>(L, d, len, c, w). length (w_recv w))") (auto simp: set_errno_def dest: wait_or_fail_retry)

declare socket_read_loop.simps [simp del]

definition connection_recv ::
    "'ss lib \<Rightarrow> nat \<Rightarrow> nat \<Rightarrow> 'ss h2_connection \<Rightarrow> io_world
      \<Rightarrow> (int \<times> byte list \<times> 'ss h2_connection \<times> io_world) option" where
  "connection_recv L deadline len c w =
     (case remaining_timeout_us_for_deadline deadline w of
        None \<Rightarrow> None
      | Some (remaining, w) \<Rightarrow>
          if remaining < 0 then
            Some (-1, [],
              set_connection_error_detail ''HTTP/2 transport deadline exceeded'' (c\<lparr>h2_last_io_errno := ETIMEDOUT\<rparr>),
              set_errno ETIMEDOUT w)
          else if h2_ssl c then ssl_read_loop L deadline len c w
          else socket_read_loop L deadline len c w)"

definition read_ok :: "nat \<Rightarrow> 'ss h2_connection \<Rightarrow> io_world \<Rightarrow> int \<Rightarrow> byte list \<Rightarrow> 'ss h2_connection \<Rightarrow> io_world \<Rightarrow> bool" where
  "read_ok len c w nread bytes c' w' \<longleftrightarrow>
     length bytes \<le> len \<and> (nread < 0 \<longrightarrow> bytes = []) \<and> (0 \<le> nread \<longrightarrow> nread = int (length bytes))
     \<and> erase_errors c' = erase_errors c \<and> w_wire w' = w_wire w"

lemma ssl_read_loop_ok:
  "ssl_read_loop L d len c w = Some (n, bs, c', w') \<Longrightarrow> read_ok len c w n bs c' w'"
proof (induction L d len c w rule: ssl_read_loop.induct)
  case (1 L d len c w)
  show ?case
  proof (cases "w_ssl_read w")
    case Nil
    then show ?thesis using "1.prems" by (subst (asm) ssl_read_loop.simps) simp
  next
    case (Cons a os)
    show ?thesis
    proof (cases a)
      case (SslReadBytes x xs)
      then show ?thesis using "1.prems" Cons by (subst (asm) ssl_read_loop.simps) (auto simp: read_ok_def Let_def)
    next
      case (SslReadError e)
      define w1 where "w1 = w\<lparr>w_ssl_read := os\<rparr>"
      define c1 where "c1 = c\<lparr>h2_last_ssl_error := e\<rparr>"
      show ?thesis
      proof (cases "e = SSL_ERROR_WANT_READ \<or> e = SSL_ERROR_WANT_WRITE")
        case True
        then have eq: "ssl_read_loop L d len c w = (case wait_or_fail L ''SSL_read'' d c1 w1 of
                   None \<Rightarrow> None
                 | Some (Inr (expired, c, w)) \<Rightarrow> Some (-1, [], c, w)
                 | Some (Inl w') \<Rightarrow> ssl_read_loop L d len c1 w')"
          unfolding c1_def w1_def using Cons SslReadError by (subst ssl_read_loop.simps) (auto simp: Let_def)
        have IH: "wait_or_fail L ''SSL_read'' d c1 w1 = Some (Inl w2) \<Longrightarrow>
            ssl_read_loop L d len c1 w2 = Some (n, bs, c', w') \<Longrightarrow> read_ok len c1 w2 n bs c' w'" for w2
          using "1.IH" [OF Cons SslReadError w1_def c1_def True] by simp
        consider w2 where "wait_or_fail L ''SSL_read'' d c1 w1 = Some (Inl w2)"
            "ssl_read_loop L d len c1 w2 = Some (n, bs, c', w')"
          | e' where "wait_or_fail L ''SSL_read'' d c1 w1 = Some (Inr (e', c', w'))" "n = -1" "bs = []"
          using "1.prems" eq by (auto split: option.splits sum.splits)
        then show ?thesis
        proof cases
          case (1 w2)
          then show ?thesis using IH wait_or_fail_retry [OF 1(1)] by (simp add: read_ok_def w1_def c1_def)
        next
          case 2
          then show ?thesis using wait_or_fail_fails [OF 2(1)] by (simp add: read_ok_def w1_def c1_def)
        qed
      next
        case False
        then show ?thesis using "1.prems" Cons SslReadError
          by (subst (asm) ssl_read_loop.simps) (auto simp: read_ok_def set_errno_def)
      qed
    qed
  qed
qed

lemma socket_read_loop_ok:
  "socket_read_loop L d len c w = Some (n, bs, c', w') \<Longrightarrow> read_ok len c w n bs c' w'"
proof (induction L d len c w rule: socket_read_loop.induct)
  case (1 L d len c w)
  show ?case
  proof (cases "w_recv w")
    case Nil
    then show ?thesis using "1.prems" by (subst (asm) socket_read_loop.simps) simp
  next
    case (Cons a os)
    show ?thesis
    proof (cases a)
      case (ReadBytes xs)
      then show ?thesis using "1.prems" Cons by (subst (asm) socket_read_loop.simps) (auto simp: read_ok_def Let_def)
    next
      case (ReadErrno e)
      define w1 where "w1 = set_errno e (w\<lparr>w_recv := os\<rparr>)"
      show ?thesis
      proof (cases "e = EAGAIN")
        case True
        then have eq: "socket_read_loop L d len c w = (case wait_or_fail L ''recv'' d c w1 of
                   None \<Rightarrow> None
                 | Some (Inr (expired, c, w)) \<Rightarrow> Some (-1, [], c, w)
                 | Some (Inl w') \<Rightarrow> socket_read_loop L d len c w')"
          unfolding w1_def using Cons ReadErrno by (subst socket_read_loop.simps) (auto simp: Let_def)
        have IH: "wait_or_fail L ''recv'' d c w1 = Some (Inl w2) \<Longrightarrow>
            socket_read_loop L d len c w2 = Some (n, bs, c', w') \<Longrightarrow> read_ok len c w2 n bs c' w'" for w2
          using "1.IH" [OF Cons ReadErrno w1_def True] by simp
        consider w2 where "wait_or_fail L ''recv'' d c w1 = Some (Inl w2)"
            "socket_read_loop L d len c w2 = Some (n, bs, c', w')"
          | e' where "wait_or_fail L ''recv'' d c w1 = Some (Inr (e', c', w'))" "n = -1" "bs = []"
          using "1.prems" eq by (auto split: option.splits sum.splits)
        then show ?thesis
        proof cases
          case (1 w2)
          then show ?thesis using IH wait_or_fail_retry [OF 1(1)] by (simp add: read_ok_def w1_def set_errno_def)
        next
          case 2
          then show ?thesis using wait_or_fail_fails [OF 2(1)] by (simp add: read_ok_def w1_def set_errno_def)
        qed
      next
        case False
        then show ?thesis using "1.prems" Cons ReadErrno
          by (subst (asm) socket_read_loop.simps) (auto simp: read_ok_def set_errno_def Let_def)
      qed
    qed
  qed
qed

lemma connection_recv_ok:
  assumes "connection_recv L d len c w = Some (n, bs, c', w')"
  shows "read_ok len c w n bs c' w'"
proof -
  obtain r w1 where r: "remaining_timeout_us_for_deadline d w = Some (r, w1)"
    using assms by (auto simp: connection_recv_def split: option.splits)
  have "read_ok len c w1 n bs c' w'"
    using assms r
    by (auto simp: connection_recv_def read_ok_def set_errno_def
        dest!: ssl_read_loop_ok socket_read_loop_ok split: if_splits)
  then show ?thesis using remaining_keeps [OF r] by (simp add: read_ok_def)
qed

end
