(* ===== verification/Wire_Send.thy ===== *)
theory Wire_Send
  imports Wire_IO Response_Parser Stream_Registry
begin

text \<open>
  Sending frames (\<open>src/src/transport.c\<close>, 1944 to 2136): the send callback, the two DATA callbacks and the
  function that drives the session and flushes the coalescing buffer.  nghttp2 decides which callbacks
  \<open>nghttp2_session_send\<close> makes; they are a list of \<open>send_event\<close>s over which the theorems quantify.  DATA
  sources are addresses of calls: an event whose call is no longer in the store is a use after free and
  ends in \<open>Fault\<close>.
\<close>

section \<open>Callbacks\<close>

definition write_deadline :: "'ss h2_connection \<Rightarrow> nat" where
  "write_deadline c = (if 0 < h2_current_write_deadline_abs_us c then h2_current_write_deadline_abs_us c
                       else h2_setup_deadline_abs_us c)"

text \<open>The flag that \<open>timed_out\<close> points to.\<close>

definition note_write_expired :: "bool \<Rightarrow> 'ss h2_connection \<Rightarrow> 'ss h2_connection" where
  "note_write_expired expired c =
     (if \<not> expired then c
      else if 0 < h2_current_write_deadline_abs_us c then c\<lparr>h2_current_write_timed_out := True\<rparr>
      else c\<lparr>h2_setup_timed_out := True\<rparr>)"

definition callback_put ::
    "'ss lib \<Rightarrow> byte list \<Rightarrow> 'ss h2_connection \<Rightarrow> io_world \<Rightarrow> (bool \<times> 'ss h2_connection \<times> io_world) option" where
  "callback_put L data c w =
     (case h2_connection_buffer_or_write L (write_deadline c) data c w of
        None \<Rightarrow> None
      | Some (ok, expired, c, w) \<Rightarrow> Some (ok, note_write_expired expired c, w))"

definition send_callback ::
    "'ss lib \<Rightarrow> byte list \<Rightarrow> 'ss h2_connection \<Rightarrow> io_world \<Rightarrow> (int \<times> 'ss h2_connection \<times> io_world) option" where
  "send_callback L data c w =
     (case callback_put L data c w of
        None \<Rightarrow> None
      | Some (ok, c, w) \<Rightarrow> Some (if ok then int (length data) else NGHTTP2_ERR_CALLBACK_FAILURE, c, w))"

definition remaining_request_bytes :: "grpc_call \<Rightarrow> nat" where
  "remaining_request_bytes call =
     (let total_len = grpc_header_len call + length (request_bytes call)
      in if total_len \<le> request_offset call then 0 else total_len - request_offset call)"

text \<open>The result is the number of bytes to send and the EOF flag; a NULL source is an empty body.\<close>

definition data_source_read_callback :: "grpc_call option \<Rightarrow> nat \<Rightarrow> nat \<times> bool" where
  "data_source_read_callback source len =
     (case source of
        None \<Rightarrow> (0, True)
      | Some call \<Rightarrow>
          (let remaining = remaining_request_bytes call;
               to_send = (if remaining < len then remaining else len)
           in (to_send, to_send = remaining)))"

text \<open>The chunk of the request at the current offset; \<open>None\<close> when the source is exhausted.\<close>

definition request_chunk :: "grpc_call \<Rightarrow> byte list option" where
  "request_chunk call =
     (if request_offset call < grpc_header_len call
      then Some (take (grpc_header_len call - request_offset call) (drop (request_offset call) (grpc_header call)))
      else (let payload_offset = request_offset call - grpc_header_len call
            in if length (request_bytes call) \<le> payload_offset then None
               else Some (drop payload_offset (request_bytes call))))"

text \<open>The array \<open>grpc_header\<close> has five bytes and \<open>grpc_header_len\<close> does not exceed it.\<close>

definition request_ok :: "grpc_call \<Rightarrow> bool" where
  "request_ok call \<longleftrightarrow> length (grpc_header call) = 5 \<and> grpc_header_len call \<le> 5"

lemma request_chunk_nonempty: "request_ok call \<Longrightarrow> request_chunk call = Some chunk \<Longrightarrow> chunk \<noteq> []"
  by (auto simp: request_chunk_def request_ok_def Let_def split: if_splits)

text \<open>
  The loop of the DATA callback.  An empty chunk would leave \<open>length\<close> unchanged and the loop would not end
  (\<open>None\<close>); with a well-formed request it does not occur.
\<close>

function send_data_loop ::
    "'ss lib \<Rightarrow> nat \<Rightarrow> grpc_call \<Rightarrow> 'ss h2_connection \<Rightarrow> io_world
      \<Rightarrow> (int \<times> grpc_call \<times> 'ss h2_connection \<times> io_world) option" where
  "send_data_loop L len call c w =
     (if len = 0 then Some (0, call, c, w)
      else case request_chunk call of
             None \<Rightarrow> Some (NGHTTP2_ERR_CALLBACK_FAILURE, call, c, w)
           | Some chunk \<Rightarrow>
               (let chunk = take len chunk
                in if chunk = [] then None
                   else case callback_put L chunk c w of
                          None \<Rightarrow> None
                        | Some (ok, c, w) \<Rightarrow>
                            if \<not> ok then Some (NGHTTP2_ERR_CALLBACK_FAILURE, call, c, w)
                            else send_data_loop L (len - length chunk)
                                   (call\<lparr>request_offset := request_offset call + length chunk\<rparr>) c w))"
  by pat_completeness auto
termination
  by (relation "measure (\<lambda>(L, len, call, c, w). len)") auto

declare send_data_loop.simps [simp del]

definition h2_send_data_callback ::
    "'ss lib \<Rightarrow> byte list \<Rightarrow> nat \<Rightarrow> nat \<Rightarrow> grpc_call \<Rightarrow> 'ss h2_connection \<Rightarrow> io_world
      \<Rightarrow> (int \<times> grpc_call \<times> 'ss h2_connection \<times> io_world) option" where
  "h2_send_data_callback L framehd len padlen call c w =
     (if 0 < padlen then Some (NGHTTP2_ERR_TEMPORAL_CALLBACK_FAILURE, call, c, w)
      else case callback_put L (take 9 framehd) c w of
             None \<Rightarrow> None
           | Some (ok, c, w) \<Rightarrow>
               if \<not> ok then Some (NGHTTP2_ERR_CALLBACK_FAILURE, call, c, w)
               else send_data_loop L len call c w)"

section \<open>Driving the session\<close>

datatype send_event =
    SendBytes "byte list"
  | SendData call_id "byte list" nat nat
  | SendClosed int nat

text \<open>
  \<open>SendClosed sid code\<close>: nghttp2 closes a stream while sending (after a RST_STREAM or the last END_STREAM)
  and calls \<open>on_stream_close_callback\<close>.
\<close>

fun run_send_events ::
    "'ss lib \<Rightarrow> conn_id \<Rightarrow> send_event list \<Rightarrow> 'ss h2_connection \<Rightarrow> call_store \<Rightarrow> io_world
      \<Rightarrow> (int \<times> 'ss h2_connection \<times> call_store \<times> io_world) res" where
  "run_send_events L self [] c calls w = Ok (0, c, calls, w)"
| "run_send_events L self (SendBytes data # evs) c calls w =
     (case send_callback L data c w of
        None \<Rightarrow> Blocked
      | Some (rv, c, w) \<Rightarrow> if rv < 0 then Ok (rv, c, calls, w) else run_send_events L self evs c calls w)"
| "run_send_events L self (SendData cid framehd len padlen # evs) c calls w =
     (case calls cid of
        None \<Rightarrow> Fault
      | Some call \<Rightarrow>
          (case h2_send_data_callback L framehd len padlen call c w of
             None \<Rightarrow> Blocked
           | Some (rv, call, c, w) \<Rightarrow>
               (let calls = calls(cid \<mapsto> call)
                in if rv \<noteq> 0 \<and> rv \<noteq> NGHTTP2_ERR_TEMPORAL_CALLBACK_FAILURE then Ok (rv, c, calls, w)
                   else run_send_events L self evs c calls w)))"
| "run_send_events L self (SendClosed sid code # evs) c calls w =
     and_then (on_stream_close_callback L self sid code c calls) (\<lambda>(c, calls). run_send_events L self evs c calls w)"

text \<open>
  \<open>nghttp2_session_send\<close> makes the callbacks \<open>evs\<close>, stops at the first that fails, and otherwise returns \<open>rv\<close>;
  \<open>adv\<close> is what happens to the session's own state.
\<close>

definition nghttp2_session_send ::
    "'ss lib \<Rightarrow> conn_id \<Rightarrow> send_event list \<times> ('ss \<Rightarrow> 'ss) \<times> int \<Rightarrow> 'ss h2_connection \<Rightarrow> call_store \<Rightarrow> io_world
      \<Rightarrow> (int \<times> 'ss h2_connection \<times> call_store \<times> io_world) res" where
  "nghttp2_session_send L self script c calls w =
     (case script of (evs, adv, rv) \<Rightarrow>
        (case run_send_events L self evs c calls w of
           Ok (r, c, calls, w) \<Rightarrow>
             Ok (if r \<noteq> 0 then r else rv, c\<lparr>h2_session := map_option adv (h2_session c)\<rparr>, calls, w)
         | Blocked \<Rightarrow> Blocked
         | Fault \<Rightarrow> Fault))"

definition end_of_send :: "'ss h2_connection \<Rightarrow> 'ss h2_connection" where
  "end_of_send c = c\<lparr>h2_current_io_call := None, h2_current_write_deadline_abs_us := 0,
     h2_current_write_timed_out := False, h2_write_coalescing := False, h2_write_buffer := []\<rparr>"

definition note_send_failure :: "'ss h2_connection \<Rightarrow> grpc_call \<Rightarrow> grpc_call" where
  "note_send_failure c call =
     (let call = (if h2_current_write_timed_out c then call\<lparr>timed_out := True\<rparr> else call)
      in call\<lparr>last_io_errno := h2_last_io_errno c, last_ssl_error := h2_last_ssl_error c,
              last_io_error_detail := snprintf_s 256 (h2_last_error_detail c)\<rparr>)"

text \<open>The connection as \<open>send_pending\<close> hands it to the session.\<close>

definition start_of_send :: "call_id option \<Rightarrow> nat \<Rightarrow> 'ss h2_connection \<Rightarrow> 'ss h2_connection" where
  "start_of_send this deadline c =
     c\<lparr>h2_current_io_call := this, h2_current_write_deadline_abs_us := deadline,
       h2_current_write_timed_out := False, h2_write_coalescing := True, h2_write_buffer := []\<rparr>"

text \<open>The flush after a successful session run.\<close>

definition flush_after_send ::
    "'ss lib \<Rightarrow> int \<Rightarrow> 'ss h2_connection \<Rightarrow> io_world \<Rightarrow> (int \<times> 'ss h2_connection \<times> io_world) option" where
  "flush_after_send L rv c w =
     (if rv \<noteq> 0 then Some (rv, c, w)
      else case h2_connection_flush_write_buffer L (write_deadline c) c w of
             None \<Rightarrow> None
           | Some (ok, expired, c, w) \<Rightarrow>
               Some (if ok then 0 else NGHTTP2_ERR_CALLBACK_FAILURE, note_write_expired expired c, w))"

text \<open>A failure kills the connection and is copied into the call.\<close>

definition finish_send ::
    "'ss lib \<Rightarrow> call_id option \<Rightarrow> int \<Rightarrow> 'ss h2_connection \<Rightarrow> call_store \<Rightarrow> io_world
      \<Rightarrow> (int \<times> 'ss h2_connection \<times> call_store \<times> io_world) res" where
  "finish_send L this rv c calls w =
     (let c = (if rv \<noteq> 0 then mark_connection_dead L rv c else c)
      in case this of
           None \<Rightarrow> Ok (rv, end_of_send c, calls, w)
         | Some cid \<Rightarrow>
             if rv = 0 then Ok (rv, end_of_send c, calls, w)
             else (case calls cid of
                     None \<Rightarrow> Fault
                   | Some call \<Rightarrow> Ok (rv, end_of_send c, calls(cid \<mapsto> note_send_failure c call), w)))"

definition send_pending_h2_frames_with_deadline ::
    "'ss lib \<Rightarrow> conn_id \<Rightarrow> send_event list \<times> ('ss \<Rightarrow> 'ss) \<times> int \<Rightarrow> call_id option \<Rightarrow> nat \<Rightarrow> 'ss h2_connection \<Rightarrow> call_store \<Rightarrow> io_world
      \<Rightarrow> (int \<times> 'ss h2_connection \<times> call_store \<times> io_world) res" where
  "send_pending_h2_frames_with_deadline L self script this fallback c calls w =
     (if h2_session c = None then Ok (NGHTTP2_ERR_INVALID_ARGUMENT, c, calls, w)
      else if h2_dead c \<or> h2_fd c < 0 then Ok (NGHTTP2_ERR_INVALID_ARGUMENT, c, calls, w)
      else if \<not> (case this of None \<Rightarrow> True | Some cid \<Rightarrow> calls cid \<noteq> None) then Fault
      else
        (let deadline = (case this of None \<Rightarrow> fallback | Some cid \<Rightarrow> deadline_abs_us (the (calls cid)))
         in case nghttp2_session_send L self script (start_of_send this deadline c) calls w of
              Blocked \<Rightarrow> Blocked
            | Fault \<Rightarrow> Fault
            | Ok (rv, c, calls, w) \<Rightarrow>
                (case flush_after_send L rv c w of
                   None \<Rightarrow> Blocked
                 | Some (rv, c, w) \<Rightarrow> finish_send L this rv c calls w)))"

definition send_pending_h2_frames ::
    "'ss lib \<Rightarrow> conn_id \<Rightarrow> send_event list \<times> ('ss \<Rightarrow> 'ss) \<times> int \<Rightarrow> call_id option \<Rightarrow> 'ss h2_connection \<Rightarrow> call_store \<Rightarrow> io_world
      \<Rightarrow> (int \<times> 'ss h2_connection \<times> call_store \<times> io_world) res" where
  "send_pending_h2_frames L self script this c calls w =
     send_pending_h2_frames_with_deadline L self script this (h2_setup_deadline_abs_us c) c calls w"

section \<open>The bytes that reach the peer\<close>

definition request_wire :: "grpc_call \<Rightarrow> byte list" where
  "request_wire call = take (grpc_header_len call) (grpc_header call) @ request_bytes call"

lemma request_chunk_Some:
  assumes "request_ok call" "request_chunk call = Some chunk"
  shows "\<exists>rest. drop (request_offset call) (request_wire call) = chunk @ rest"
proof (cases "request_offset call < grpc_header_len call")
  case True
  then have "chunk = take (grpc_header_len call - request_offset call) (drop (request_offset call) (grpc_header call))"
    using assms(2) by (simp add: request_chunk_def)
  then show ?thesis using True assms(1)
    by (auto simp: request_wire_def request_ok_def drop_take)
next
  case False
  then show ?thesis using assms by (auto simp: request_chunk_def request_wire_def request_ok_def Let_def min_def split: if_splits)
qed

lemma request_chunk_None:
  assumes "request_ok call" "request_chunk call = None"
  shows "drop (request_offset call) (request_wire call) = []"
  using assms by (auto simp: request_chunk_def request_wire_def request_ok_def Let_def min_def split: if_splits)

lemma note_write_expired_keeps [simp]:
  "h2_write_buffer (note_write_expired e c) = h2_write_buffer c"
  "h2_write_coalescing (note_write_expired e c) = h2_write_coalescing c"
  "h2_write_buffer_cap (note_write_expired e c) = h2_write_buffer_cap c"
  by (simp_all add: note_write_expired_def)

lemma callback_put_result:
  assumes "buffer_sane (c, w)" "callback_put L data c w = Some (ok, c', w')"
  shows "if ok then buffer_sane (c', w') \<and> buffered_out (c', w') = buffered_out (c, w) @ data
    else \<exists>rest. w_wire w' @ rest = buffered_out (c, w) @ data"
proof -
  obtain e c1 where b: "h2_connection_buffer_or_write L (write_deadline c) data c w = Some (ok, e, c1, w')"
    "c' = note_write_expired e c1"
    using assms(2) by (auto simp: callback_put_def split: option.splits)
  from buffer_or_write_result [OF assms(1) b(1)] show ?thesis
    by (cases ok) (simp_all add: b(2) buffer_sane_def buffered_out_def)
qed

text \<open>
  The stream an event stands for: \<open>emitted bytes ok (c, w) (c', w')\<close> says that a successful step appended
  exactly \<open>bytes\<close> and a failed one left a prefix.
\<close>

definition emitted ::
    "byte list \<Rightarrow> bool \<Rightarrow> 'ss h2_connection \<times> io_world \<Rightarrow> 'ss h2_connection \<times> io_world \<Rightarrow> bool" where
  "emitted bytes ok s s' \<longleftrightarrow>
     (if ok then buffer_sane s' \<and> buffered_out s' = buffered_out s @ bytes
      else \<exists>rest. w_wire (snd s') @ rest = buffered_out s @ bytes)"

lemma emitted_append:
  assumes "emitted a True s s1" "emitted b ok s1 s2"
  shows "emitted (a @ b) ok s s2"
  using assms by (auto simp: emitted_def split: if_splits)

lemma emitted_failed:
  assumes "emitted a False s s1"
  shows "emitted (a @ b) False s s1"
proof -
  obtain rest where "w_wire (snd s1) @ rest = buffered_out s @ a" using assms by (auto simp: emitted_def)
  then have "w_wire (snd s1) @ rest @ b = buffered_out s @ a @ b" by simp
  then show ?thesis unfolding emitted_def by metis
qed

lemma callback_put_emitted:
  "buffer_sane (c, w) \<Longrightarrow> callback_put L data c w = Some (ok, c', w') \<Longrightarrow> emitted data ok (c, w) (c', w')"
  using callback_put_result by (fastforce simp: emitted_def split: if_splits)

lemma send_data_loop_emitted:
  "send_data_loop L len call c w = Some (rv, call', c', w') \<Longrightarrow> request_ok call \<Longrightarrow> buffer_sane (c, w) \<Longrightarrow>
     emitted (take len (drop (request_offset call) (request_wire call))) (rv = 0) (c, w) (c', w')
     \<and> (rv = 0 \<longrightarrow> len \<le> length (request_wire call) - request_offset call
           \<and> call' = call\<lparr>request_offset := request_offset call + len\<rparr>)
     \<and> (rv = 0 \<or> rv = NGHTTP2_ERR_CALLBACK_FAILURE)"
proof (induction L len call c w rule: send_data_loop.induct)
  case (1 L len call c w)
  show ?case
  proof (cases "len = 0")
    case True
    then show ?thesis using "1.prems" by (subst (asm) send_data_loop.simps) (simp add: emitted_def)
  next
    case False
    show ?thesis
    proof (cases "request_chunk call")
      case None
      then show ?thesis
        using "1.prems" False request_chunk_None [OF "1.prems"(2) None]
        by (subst (asm) send_data_loop.simps) (auto simp: emitted_def buffered_out_def)
    next
      case (Some full)
      obtain rest where rest: "drop (request_offset call) (request_wire call) = full @ rest"
        using request_chunk_Some [OF "1.prems"(2) Some] by blast
      define chunk where "chunk = take len full"
      have ne: "chunk \<noteq> []" using request_chunk_nonempty [OF "1.prems"(2) Some] False by (simp add: chunk_def)
      have slice: "take len (drop (request_offset call) (request_wire call))
          = chunk @ take (len - length chunk) (drop (request_offset call + length chunk) (request_wire call))"
      proof -
        have "take len (full @ rest) = take len full @ take (len - length full) rest" by simp
        moreover have "drop (request_offset call + length chunk) (request_wire call) = drop (length chunk) (full @ rest)"
          using rest by (metis add.commute drop_drop)
        ultimately show ?thesis using rest by (cases "len \<le> length full") (simp_all add: chunk_def)
      qed
      obtain ok c1 w1 where put: "callback_put L chunk c w = Some (ok, c1, w1)"
        using "1.prems"(1) False Some ne
        by (subst (asm) send_data_loop.simps) (auto simp: chunk_def Let_def split: option.splits)
      note em = callback_put_emitted [OF "1.prems"(3) put]
      show ?thesis
      proof (cases ok)
        case False
        then have "rv = NGHTTP2_ERR_CALLBACK_FAILURE" "c' = c1" "w' = w1"
          using "1.prems"(1) \<open>len \<noteq> 0\<close> Some ne put
          by (subst (asm) send_data_loop.simps, simp add: chunk_def [symmetric])+
        then show ?thesis using em False slice emitted_failed by simp
      next
        case True
        define call1 where "call1 = call\<lparr>request_offset := request_offset call + length chunk\<rparr>"
        have rec: "send_data_loop L (len - length chunk) call1 c1 w1 = Some (rv, call', c', w')"
          using "1.prems"(1) \<open>len \<noteq> 0\<close> Some ne put True
          by (subst (asm) send_data_loop.simps) (simp add: chunk_def [symmetric] call1_def)
        have c1: "request_ok call1" "request_wire call1 = request_wire call"
          using "1.prems"(2) by (simp_all add: call1_def request_ok_def request_wire_def)
        have sane: "buffer_sane (c1, w1)" using em True by (simp add: emitted_def)
        have "emitted (take (len - length chunk) (drop (request_offset call1) (request_wire call1))) (rv = 0) (c1, w1) (c', w')
           \<and> (rv = 0 \<longrightarrow> len - length chunk \<le> length (request_wire call1) - request_offset call1
               \<and> call' = call1\<lparr>request_offset := request_offset call1 + (len - length chunk)\<rparr>)
           \<and> (rv = 0 \<or> rv = NGHTTP2_ERR_CALLBACK_FAILURE)"
          using "1.IH" [OF \<open>len \<noteq> 0\<close> Some chunk_def ne put refl refl _ rec [unfolded call1_def]
              c1(1) [unfolded call1_def] sane] True
          unfolding call1_def by blast
        moreover have "length chunk \<le> len" "length chunk \<le> length (request_wire call) - request_offset call"
          using arg_cong [OF rest, of length] by (simp_all add: chunk_def)
        ultimately show ?thesis using em True slice c1(2) emitted_append by (auto simp: call1_def)
      qed
    qed
  qed
qed

text \<open>
  The byte stream a list of events stands for.  A DATA event contributes its frame header and the next
  bytes of its request.
\<close>

fun wire_image :: "send_event list \<Rightarrow> call_store \<Rightarrow> byte list" where
  "wire_image [] calls = []"
| "wire_image (SendBytes data # evs) calls = data @ wire_image evs calls"
| "wire_image (SendData cid framehd len padlen # evs) calls =
     (case calls cid of
        None \<Rightarrow> []
      | Some call \<Rightarrow>
          if 0 < padlen then wire_image evs calls
          else take 9 framehd @ take len (drop (request_offset call) (request_wire call))
               @ wire_image evs (calls(cid \<mapsto> call\<lparr>request_offset := request_offset call + len\<rparr>)))"
| "wire_image (SendClosed sid code # evs) calls = wire_image evs calls"

text \<open>Only the request fields of the calls matter for the stream of bytes.\<close>

definition request_view :: "grpc_call \<Rightarrow> byte list \<times> nat \<times> byte list \<times> nat" where
  "request_view call = (grpc_header call, grpc_header_len call, request_bytes call, request_offset call)"

definition same_requests :: "call_store \<Rightarrow> call_store \<Rightarrow> bool" where
  "same_requests calls' calls \<longleftrightarrow> (\<forall>k. map_option request_view (calls' k) = map_option request_view (calls k))"

lemma request_view_eqD:
  "request_view a = request_view b \<Longrightarrow> request_wire a = request_wire b \<and> request_offset a = request_offset b
     \<and> request_ok a = request_ok b \<and> request_view (a\<lparr>request_offset := n\<rparr>) = request_view (b\<lparr>request_offset := n\<rparr>)"
  by (simp add: request_view_def request_wire_def request_ok_def)

lemma wire_image_same: "same_requests calls' calls \<Longrightarrow> wire_image evs calls' = wire_image evs calls"
proof (induction evs calls arbitrary: calls' rule: wire_image.induct)
  case (3 cid framehd len padlen evs calls)
  have v: "map_option request_view (calls' cid) = map_option request_view (calls cid)" using "3.prems" by (simp add: same_requests_def)
  show ?case
  proof (cases "calls cid")
    case None
    then show ?thesis using v by simp
  next
    case (Some call)
    then obtain call' where c': "calls' cid = Some call'" "request_view call' = request_view call" using v by auto
    note e = request_view_eqD [OF c'(2)]
    have "same_requests (calls'(cid \<mapsto> call'\<lparr>request_offset := request_offset call + len\<rparr>))
        (calls(cid \<mapsto> call\<lparr>request_offset := request_offset call + len\<rparr>))"
      using "3.prems" e by (simp add: same_requests_def)
    then have "padlen = 0 \<Longrightarrow> wire_image evs (calls'(cid \<mapsto> call'\<lparr>request_offset := request_offset call + len\<rparr>))
        = wire_image evs (calls(cid \<mapsto> call\<lparr>request_offset := request_offset call + len\<rparr>))"
      using "3.IH"(2) [OF Some] by (simp del: fun_upd_apply)
    moreover have "0 < padlen \<Longrightarrow> wire_image evs calls' = wire_image evs calls" using "3.IH"(1) [OF Some] "3.prems" by simp
    ultimately show ?thesis using Some c' e by simp
  qed
qed simp_all

definition requests_ok :: "call_store \<Rightarrow> bool" where
  "requests_ok calls \<longleftrightarrow> (\<forall>cid call. calls cid = Some call \<longrightarrow> request_ok call)"

lemma requests_ok_update:
  "requests_ok calls \<Longrightarrow> calls cid = Some call \<Longrightarrow> requests_ok (calls(cid \<mapsto> call\<lparr>request_offset := n\<rparr>))"
  by (auto simp: requests_ok_def request_ok_def)

lemma requests_ok_same: "same_requests calls' calls \<Longrightarrow> requests_ok calls \<Longrightarrow> requests_ok calls'"
proof -
  assume a: "same_requests calls' calls" "requests_ok calls"
  have "request_ok call'" if "calls' k = Some call'" for k call'
  proof -
    have "map_option request_view (calls' k) = map_option request_view (calls k)" using a(1) unfolding same_requests_def by blast
    then have "map_option request_view (calls k) = Some (request_view call')" using that by simp
    then obtain call where v: "calls k = Some call" "request_view call = request_view call'" by auto
    have "request_ok call" using a(2) v(1) by (simp add: requests_ok_def)
    then show ?thesis using request_view_eqD [OF v(2)] by simp
  qed
  then show ?thesis by (simp add: requests_ok_def)
qed

lemma request_view_erase_link: "request_view (erase_link call) = request_view call"
  by (simp add: request_view_def erase_link_def)

lemma same_calls_requests: "same_calls calls' calls \<Longrightarrow> same_requests calls' calls"
  unfolding same_calls_def same_requests_def
proof
  fix k assume "\<forall>j. map_option erase_link (calls' j) = map_option erase_link (calls j)"
  then have "map_option request_view (map_option erase_link (calls' k)) = map_option request_view (map_option erase_link (calls k))" by simp
  then show "map_option request_view (calls' k) = map_option request_view (calls k)"
    by (simp add: option.map_comp comp_def request_view_erase_link)
qed

lemma stream_close_requests:
  assumes "on_stream_close_callback L self sid code c calls = Ok (c', calls')"
  shows "same_requests calls' calls"
  using assms
proof (cases rule: stream_close_cases)
  case 1
  then show ?thesis by (simp add: same_requests_def)
next
  case (2 k call)
  have "same_requests calls' (calls(k \<mapsto> note_stream_closed code call))"
    by (rule same_calls_requests [OF unregister_Ok(2) [OF 2(4)]])
  then show ?thesis using 2(2) by (auto simp: same_requests_def request_view_def note_stream_closed_def)
qed

lemma buffer_sane_registry:
  assumes "erase_registry c' = erase_registry c"
  shows "buffer_sane (c', w) = buffer_sane (c, w)" "buffered_out (c', w) = buffered_out (c, w)"
proof -
  have "h2_write_buffer c' = h2_write_buffer c" "h2_write_buffer_cap c' = h2_write_buffer_cap c" "h2_write_coalescing c' = h2_write_coalescing c"
    using arg_cong [OF assms, of h2_write_buffer] arg_cong [OF assms, of h2_write_buffer_cap]
      arg_cong [OF assms, of h2_write_coalescing] by (simp_all add: erase_registry_def)
  then show "buffer_sane (c', w) = buffer_sane (c, w)" "buffered_out (c', w) = buffered_out (c, w)"
    by (simp_all add: buffer_sane_def buffered_out_def)
qed

lemma send_callback_emitted:
  assumes "buffer_sane (c, w)" "send_callback L data c w = Some (rv, c', w')"
  shows "emitted data (0 \<le> rv) (c, w) (c', w') \<and> (rv < 0 \<longrightarrow> rv = NGHTTP2_ERR_CALLBACK_FAILURE)"
  using assms(2) callback_put_emitted [OF assms(1)]
  by (auto simp: send_callback_def split: option.splits)

lemma send_data_callback_emitted:
  assumes "buffer_sane (c, w)" "request_ok call" "padlen = 0"
    and "h2_send_data_callback L framehd len padlen call c w = Some (rv, call', c', w')"
  shows "emitted (take 9 framehd @ take len (drop (request_offset call) (request_wire call))) (rv = 0) (c, w) (c', w')"
    and "rv = 0 \<Longrightarrow> call' = call\<lparr>request_offset := request_offset call + len\<rparr>"
    and "rv = 0 \<or> rv = NGHTTP2_ERR_CALLBACK_FAILURE"
proof -
  obtain ok c1 w1 where put: "callback_put L (take 9 framehd) c w = Some (ok, c1, w1)"
    using assms by (auto simp: h2_send_data_callback_def split: option.splits)
  note em = callback_put_emitted [OF assms(1) put]
  show "emitted (take 9 framehd @ take len (drop (request_offset call) (request_wire call))) (rv = 0) (c, w) (c', w')"
    and "rv = 0 \<Longrightarrow> call' = call\<lparr>request_offset := request_offset call + len\<rparr>"
    and "rv = 0 \<or> rv = NGHTTP2_ERR_CALLBACK_FAILURE"
  proof (atomize (full), cases ok)
    case True
    then have "send_data_loop L len call c1 w1 = Some (rv, call', c', w')"
      using assms(3,4) put by (simp add: h2_send_data_callback_def)
    from send_data_loop_emitted [OF this assms(2)] em True
    show "emitted (take 9 framehd @ take len (drop (request_offset call) (request_wire call))) (rv = 0) (c, w) (c', w')
      \<and> (rv = 0 \<longrightarrow> call' = call\<lparr>request_offset := request_offset call + len\<rparr>)
      \<and> (rv = 0 \<or> rv = NGHTTP2_ERR_CALLBACK_FAILURE)"
      by (auto intro: emitted_append simp: emitted_def)
  next
    case False
    then have "rv = NGHTTP2_ERR_CALLBACK_FAILURE" "c' = c1" "w' = w1"
      using assms(3,4) put by (auto simp: h2_send_data_callback_def)
    then show "emitted (take 9 framehd @ take len (drop (request_offset call) (request_wire call))) (rv = 0) (c, w) (c', w')
      \<and> (rv = 0 \<longrightarrow> call' = call\<lparr>request_offset := request_offset call + len\<rparr>)
      \<and> (rv = 0 \<or> rv = NGHTTP2_ERR_CALLBACK_FAILURE)"
      using em False emitted_failed by auto
  qed
qed

lemma run_send_events_emitted:
  "run_send_events L self evs c calls w = Ok (rv, c', calls', w') \<Longrightarrow> requests_ok calls \<Longrightarrow> buffer_sane (c, w) \<Longrightarrow>
     emitted (wire_image evs calls) (rv = 0) (c, w) (c', w') \<and> (\<forall>cid. (calls' cid = None) = (calls cid = None))"
proof (induction L self evs c calls w rule: run_send_events.induct)
  case (1 L self c calls w)
  then show ?case by (simp add: emitted_def)
next
  case (2 L self data evs c calls w)
  then obtain r c1 w1 where s: "send_callback L data c w = Some (r, c1, w1)"
    by (auto split: option.splits)
  note em = send_callback_emitted [OF "2.prems"(3) s]
  show ?case
  proof (cases "r < 0")
    case True
    then show ?thesis using "2.prems"(1) s em emitted_failed by auto
  next
    case False
    then have "buffer_sane (c1, w1)" using em by (simp add: emitted_def)
    moreover have "run_send_events L self evs c1 calls w1 = Ok (rv, c', calls', w')" using "2.prems"(1) s False by simp
    ultimately have IH: "emitted (wire_image evs calls) (rv = 0) (c1, w1) (c', w')"
      "\<forall>cid. (calls' cid = None) = (calls cid = None)"
      using "2.IH" [OF s refl refl False _ "2.prems"(2)] by blast+
    have "emitted data True (c, w) (c1, w1)" using em False by simp
    then show ?thesis using emitted_append [OF _ IH(1)] IH(2) by simp
  qed
next
  case (3 L self cid framehd len padlen evs c calls w)
  then obtain call where call: "calls cid = Some call" by (auto split: option.splits)
  then obtain r call1 c1 w1 where s: "h2_send_data_callback L framehd len padlen call c w = Some (r, call1, c1, w1)"
    using "3.prems"(1) by (auto split: option.splits)
  have ok: "request_ok call" using "3.prems"(2) call by (auto simp: requests_ok_def)
  show ?case
  proof (cases "0 < padlen")
    case True
    then have "r = NGHTTP2_ERR_TEMPORAL_CALLBACK_FAILURE" "call1 = call" "c1 = c" "w1 = w"
      using s by (auto simp: h2_send_data_callback_def)
    moreover have "calls(cid \<mapsto> call) = calls" using call by auto
    moreover have "run_send_events L self evs c calls w = Ok (rv, c', calls', w')"
      using "3.prems"(1) call s calculation by simp
    ultimately show ?thesis
      using "3.IH" [OF call s refl refl refl refl] "3.prems"(2,3) True call by simp
  next
    case False
    then have pad: "padlen = 0" by simp
    note em = send_data_callback_emitted [OF "3.prems"(3) ok pad s]
    show ?thesis
    proof (cases "r = 0")
      case True
      then have c1: "call1 = call\<lparr>request_offset := request_offset call + len\<rparr>" using em(2) by simp
      have sane: "buffer_sane (c1, w1)" using em(1) True by (simp add: emitted_def)
      have rq: "requests_ok (calls(cid \<mapsto> call1))" using requests_ok_update [OF "3.prems"(2) call] c1 by simp
      have run: "run_send_events L self evs c1 (calls(cid \<mapsto> call1)) w1 = Ok (rv, c', calls', w')"
        using "3.prems"(1) call s True by simp
      have IH: "emitted (wire_image evs (calls(cid \<mapsto> call1))) (rv = 0) (c1, w1) (c', w')"
        "\<forall>k. (calls' k = None) = ((calls(cid \<mapsto> call1)) k = None)"
        using "3.IH" [OF call s refl refl refl refl _ run rq sane] True by blast+
      have "emitted (take 9 framehd @ take len (drop (request_offset call) (request_wire call))) True (c, w) (c1, w1)"
        using em(1) True by simp
      from emitted_append [OF this IH(1)] IH(2) call pad c1 show ?thesis by (auto split: if_splits)
    next
      case False
      then have "rv = r" "c' = c1" "w' = w1" "calls' = calls(cid \<mapsto> call1)"
        using em(3) "3.prems"(1) call s by auto
      moreover have "emitted (take 9 framehd @ take len (drop (request_offset call) (request_wire call))) False (c, w) (c1, w1)"
        using em(1) False by simp
      note emitted_failed [OF this, of "wire_image evs (calls(cid \<mapsto> call\<lparr>request_offset := request_offset call + len\<rparr>))"]
      ultimately show ?thesis using False call pad by auto
    qed
  qed
next
  case (4 L self sid code evs c calls w)
  then obtain c1 calls1 where cl: "on_stream_close_callback L self sid code c calls = Ok (c1, calls1)"
    "run_send_events L self evs c1 calls1 w = Ok (rv, c', calls', w')" by (auto simp: and_then_Ok)
  note b = buffer_sane_registry [OF stream_close_erase [OF cl(1)]] and r = stream_close_requests [OF cl(1)]
  have "requests_ok calls1" "buffer_sane (c1, w)" using requests_ok_same [OF r] "4.prems" b by simp_all
  from "4.IH" [OF cl(2) this] have IH: "emitted (wire_image evs calls1) (rv = 0) (c1, w) (c', w')"
    "\<forall>cid. (calls' cid = None) = (calls1 cid = None)" by blast+
  have "(calls1 cid = None) = (calls cid = None)" for cid using r by (metis map_option_is_None same_requests_def)
  then show ?case using IH b wire_image_same [OF r] by (auto simp: emitted_def)
qed

section \<open>What sending leaves alone\<close>

text \<open>Everything but the error fields, the write buffer and the timeout flags.\<close>

definition erase_io :: "'ss h2_connection \<Rightarrow> 'ss h2_connection" where
  "erase_io c = (erase_errors c)\<lparr>h2_write_buffer := [], h2_current_write_timed_out := False, h2_setup_timed_out := False\<rparr>"

lemma erase_io_errors: "erase_errors c' = erase_errors c \<Longrightarrow> erase_io c' = erase_io c"
  by (simp add: erase_io_def)

lemma erase_io_updates [simp]:
  "erase_io (c\<lparr>h2_write_buffer := b\<rparr>) = erase_io c" "erase_io (note_write_expired e c) = erase_io c"
  by (simp_all add: erase_io_def erase_errors_def note_write_expired_def)

lemma write_all_erase_io:
  "h2_connection_write_all L d data c w = Some (ok, e, c', w') \<Longrightarrow> erase_io c' = erase_io c"
  by (rule erase_io_errors) (blast dest: write_all_result)

lemma flush_erase_io:
  "h2_connection_flush_write_buffer L d c w = Some (ok, e, c', w') \<Longrightarrow> erase_io c' = erase_io c"
  by (auto simp: h2_connection_flush_write_buffer_def dest!: write_all_erase_io split: if_splits option.splits)

lemma buffer_or_write_erase_io:
  assumes "h2_connection_buffer_or_write L d data c w = Some (ok, e, c', w')"
  shows "erase_io c' = erase_io c"
proof (cases "h2_write_coalescing c \<and> h2_write_buffer_cap c < length data")
  case True
  then show ?thesis using assms
    by (auto simp: h2_connection_buffer_or_write_def dest!: write_all_erase_io flush_erase_io
        split: option.splits if_splits)
next
  case False
  then show ?thesis using assms
    by (auto simp: h2_connection_buffer_or_write_def Let_def dest!: write_all_erase_io flush_erase_io
        split: option.splits if_splits)
qed

lemma callback_put_erase_io:
  "callback_put L data c w = Some (ok, c', w') \<Longrightarrow> erase_io c' = erase_io c"
  by (auto simp: callback_put_def dest!: buffer_or_write_erase_io split: option.splits)

lemma send_data_loop_erase_io:
  "send_data_loop L len call c w = Some (rv, call', c', w') \<Longrightarrow>
     erase_io c' = erase_io c \<and> (\<exists>n. call' = call\<lparr>request_offset := n\<rparr>)"
proof (induction L len call c w rule: send_data_loop.induct)
  case (1 L len call c w)
  have self: "\<exists>n. call = call\<lparr>request_offset := n\<rparr>" by (rule exI [of _ "request_offset call"]) simp
  show ?case
  proof (cases "len = 0 \<or> request_chunk call = None")
    case True
    then have "c' = c" "call' = call"
      using "1.prems" by (subst (asm) send_data_loop.simps, simp split: if_splits)+
    then show ?thesis using self by simp
  next
    case False
    then obtain full where f: "len \<noteq> 0" "request_chunk call = Some full" by auto
    define chunk where "chunk = take len full"
    have ne: "chunk \<noteq> []" using "1.prems" f by (subst (asm) send_data_loop.simps) (auto simp: chunk_def Let_def split: if_splits)
    obtain ok c1 w1 where put: "callback_put L chunk c w = Some (ok, c1, w1)"
      using "1.prems" f ne by (subst (asm) send_data_loop.simps) (auto simp: chunk_def Let_def split: option.splits)
    show ?thesis
    proof (cases ok)
      case True
      have "send_data_loop L (len - length chunk) (call\<lparr>request_offset := request_offset call + length chunk\<rparr>) c1 w1
          = Some (rv, call', c', w')"
        using "1.prems" f ne put True by (subst (asm) send_data_loop.simps) (simp add: chunk_def [symmetric])
      with "1.IH" [OF f chunk_def ne put refl refl] True callback_put_erase_io [OF put] show ?thesis by auto
    next
      case False
      then have "call' = call" "c' = c1"
        using "1.prems" f ne put by (subst (asm) send_data_loop.simps, simp add: chunk_def [symmetric])+
      then show ?thesis using callback_put_erase_io [OF put] self by simp
    qed
  qed
qed

lemma send_data_callback_erase_io:
  "h2_send_data_callback L framehd len padlen call c w = Some (r, call', c', w') \<Longrightarrow>
     erase_io c' = erase_io c \<and> (\<exists>n. call' = call\<lparr>request_offset := n\<rparr>)"
proof -
  have "\<exists>n. call = call\<lparr>request_offset := n\<rparr>" by (rule exI [of _ "request_offset call"]) simp
  then show "h2_send_data_callback L framehd len padlen call c w = Some (r, call', c', w') \<Longrightarrow> ?thesis"
    by (auto simp: h2_send_data_callback_def dest!: callback_put_erase_io send_data_loop_erase_io
        split: option.splits if_splits)
qed

text \<open>Closing a stream also touches the bookkeeping of the streams.\<close>

definition erase_send :: "'ss h2_connection \<Rightarrow> 'ss h2_connection" where
  "erase_send c = (erase_io c)\<lparr>h2_active_streams := None, h2_active_stream_count := 0, h2_session := None\<rparr>"

lemma erase_io_send: "erase_io c' = erase_io c \<Longrightarrow> erase_send c' = erase_send c"
  by (simp add: erase_send_def)

lemma registry_send:
  assumes "erase_registry c' = erase_registry c"
  shows "erase_send c' = erase_send c"
proof -
  have "erase_send c = erase_io (erase_registry c)" for c :: "'a h2_connection"
    by (simp add: erase_send_def erase_io_def erase_errors_def erase_registry_def)
  then show ?thesis using assms by simp
qed

lemma run_send_events_erase_io:
  "run_send_events L self evs c calls w = Ok (rv, c', calls', w') \<Longrightarrow> erase_send c' = erase_send c"
proof (induction evs arbitrary: c calls w)
  case (Cons ev evs)
  show ?case
  proof (cases ev)
    case (SendBytes data)
    then obtain r c1 w1 where s: "send_callback L data c w = Some (r, c1, w1)"
      using Cons.prems by (auto split: option.splits)
    have "erase_send c1 = erase_send c"
      using s by (auto intro!: erase_io_send simp: send_callback_def dest!: callback_put_erase_io split: option.splits)
    then show ?thesis using Cons SendBytes s by (auto split: if_splits)
  next
    case (SendData cid framehd len padlen)
    then obtain call r call1 c1 w1 where s: "calls cid = Some call"
      "h2_send_data_callback L framehd len padlen call c w = Some (r, call1, c1, w1)"
      using Cons.prems by (auto split: option.splits)
    have "erase_send c1 = erase_send c" using send_data_callback_erase_io [OF s(2)] erase_io_send by blast
    moreover have "c' = c1 \<or> run_send_events L self evs c1 (calls(cid \<mapsto> call1)) w1 = Ok (rv, c', calls', w')"
      using Cons.prems SendData s by (auto simp: Let_def split: if_splits)
    ultimately show ?thesis using Cons.IH by metis
  next
    case (SendClosed sid code)
    then obtain c1 calls1 where cl: "on_stream_close_callback L self sid code c calls = Ok (c1, calls1)"
      "run_send_events L self evs c1 calls1 w = Ok (rv, c', calls', w')" using Cons.prems by (auto simp: and_then_Ok)
    then show ?thesis using Cons.IH [OF cl(2)] registry_send [OF stream_close_erase [OF cl(1)]] by simp
  qed
qed simp

section \<open>Properties\<close>

lemma finish_send_result:
  assumes "finish_send L this rv0 c calls w = Ok (rv, c', calls', w')"
  shows "rv = rv0 \<and> w' = w \<and> (rv = 0 \<longrightarrow> c' = end_of_send c \<and> calls' = calls)
    \<and> (rv \<noteq> 0 \<longrightarrow> c' = end_of_send (mark_connection_dead L rv c))"
  using assms by (auto simp: finish_send_def Let_def split: option.splits if_splits)

lemma flush_after_send_result:
  assumes "flush_after_send L rv0 c w = Some (rv, c', w')" "buffer_sane (c, w)"
  shows "(rv = 0 \<longrightarrow> rv0 = 0 \<and> w_wire w' = buffered_out (c, w)) \<and> erase_io c' = erase_io c
    \<and> (rv0 = 0 \<longrightarrow> (\<exists>rest. w_wire w' @ rest = buffered_out (c, w))) \<and> (rv0 \<noteq> 0 \<longrightarrow> rv = rv0 \<and> w' = w)"
proof (cases "rv0 = 0")
  case True
  then obtain ok e c1 where f: "h2_connection_flush_write_buffer L (write_deadline c) c w = Some (ok, e, c1, w')"
    "rv = (if ok then 0 else NGHTTP2_ERR_CALLBACK_FAILURE)" "c' = note_write_expired e c1"
    using assms by (auto simp: flush_after_send_def split: option.splits)
  with True flush_result(1,2) [OF f(1)] flush_erase_io [OF f(1)] show ?thesis
    by (auto simp: buffered_out_def)
next
  case False
  with assms show ?thesis by (auto simp: flush_after_send_def)
qed

lemma session_send_result:
  assumes "nghttp2_session_send L self (evs, adv, rv0) c calls w = Ok (rv, c', calls', w')" "requests_ok calls" "buffer_sane (c, w)"
  shows "if rv = 0 then buffer_sane (c', w') \<and> buffered_out (c', w') = buffered_out (c, w) @ wire_image evs calls
    else \<exists>rest. w_wire w' @ rest = buffered_out (c, w) @ wire_image evs calls"
proof -
  obtain r c1 where run: "run_send_events L self evs c calls w = Ok (r, c1, calls', w')"
    "rv = (if r \<noteq> 0 then r else rv0)" "c' = c1\<lparr>h2_session := map_option adv (h2_session c1)\<rparr>"
    using assms(1) by (auto simp: nghttp2_session_send_def split: res.splits)
  have em: "emitted (wire_image evs calls) (r = 0) (c, w) (c1, w')"
    using run_send_events_emitted [OF run(1) assms(2,3)] by blast
  show ?thesis
  proof (cases "r = 0")
    case True
    then have "buffer_sane (c1, w')" "buffered_out (c1, w') = buffered_out (c, w) @ wire_image evs calls"
      using em by (simp_all add: emitted_def)
    then show ?thesis using run(3) by (auto simp: buffer_sane_def buffered_out_def)
  next
    case False
    then show ?thesis using em run(2) by (simp add: emitted_def)
  qed
qed

lemma erase_send_fields:
  assumes "erase_send c' = erase_send c"
  shows "h2_dead c' = h2_dead c" "h2_fd c' = h2_fd c" "h2_stream_owner_count c' = h2_stream_owner_count c"
    "h2_draining c' = h2_draining c" "h2_detached_from_cache c' = h2_detached_from_cache c"
    "h2_current_read_call c' = h2_current_read_call c" "h2_recv_scratch_len c' = h2_recv_scratch_len c"
    "h2_persistent c' = h2_persistent c"
  using arg_cong [OF assms, of h2_dead] arg_cong [OF assms, of h2_fd] arg_cong [OF assms, of h2_stream_owner_count]
    arg_cong [OF assms, of h2_draining] arg_cong [OF assms, of h2_detached_from_cache]
    arg_cong [OF assms, of h2_current_read_call] arg_cong [OF assms, of h2_recv_scratch_len] arg_cong [OF assms, of h2_persistent]
  by (simp_all add: erase_send_def erase_io_def erase_errors_def)

lemma session_send_dead:
  assumes "nghttp2_session_send L self (evs, adv, rv0) c calls w = Ok (rv, c', calls', w')"
  shows "h2_dead c' = h2_dead c"
proof -
  obtain r c1 where run: "run_send_events L self evs c calls w = Ok (r, c1, calls', w')" "c' = c1\<lparr>h2_session := map_option adv (h2_session c1)\<rparr>"
    using assms by (auto simp: nghttp2_session_send_def split: res.splits)
  show ?thesis using erase_send_fields(1) [OF run_send_events_erase_io [OF run(1)]] run(2) by simp
qed

lemma send_pending_refused:
  assumes "h2_session c = None \<or> h2_dead c \<or> h2_fd c < 0"
  shows "send_pending_h2_frames_with_deadline L self script this fb c calls w = Ok (NGHTTP2_ERR_INVALID_ARGUMENT, c, calls, w)"
  using assms by (cases "h2_session c = None") (simp_all add: send_pending_h2_frames_with_deadline_def)

lemma send_pending_parts:
  assumes "send_pending_h2_frames_with_deadline L self script this fb c calls w = Ok (rv, c', calls', w')"
    and "h2_session c \<noteq> None" "\<not> h2_dead c" "\<not> h2_fd c < 0"
  obtains d r c1 calls1 w1 rv1 c2 w2 where
    "nghttp2_session_send L self script (start_of_send this d c) calls w = Ok (r, c1, calls1, w1)"
    "flush_after_send L r c1 w1 = Some (rv1, c2, w2)"
    "finish_send L this rv1 c2 calls1 w2 = Ok (rv, c', calls', w')"
  using assms
  by (auto simp: send_pending_h2_frames_with_deadline_def Let_def split: res.splits if_splits option.splits)

text \<open>
  C22.  Frames reach the socket complete and in order.  When \<open>send_pending_h2_frames\<close> returns 0, the bytes
  the operating system accepted are exactly the session's frames in the order it produced them, each DATA
  frame being its header followed by the next bytes of the request, whatever the coalescing buffer did;
  nothing stays buffered.  When it fails, what was sent is a prefix of that stream and the connection is
  no longer allowed to do I/O, so a torn frame is never followed by other bytes.
\<close>

theorem send_in_order:
  assumes "send_pending_h2_frames_with_deadline L self (evs, adv, rv0) this fb c calls w = Ok (rv, c', calls', w')"
    and "requests_ok calls"
  shows "(if rv = 0 then w_wire w' = w_wire w @ wire_image evs calls \<and> h2_write_buffer c' = [] \<and> \<not> h2_dead c'
    else (\<exists>rest. w_wire w' @ rest = w_wire w @ wire_image evs calls) \<and> \<not> connection_io_allowed (Some c'))"
proof (cases "h2_session c = None \<or> h2_dead c \<or> h2_fd c < 0")
  case True
  then have "rv = NGHTTP2_ERR_INVALID_ARGUMENT" "c' = c" "w' = w"
    using assms(1) unfolding send_pending_refused [OF True] by auto
  moreover have "\<not> connection_io_allowed (Some c)" using True by (auto simp: connection_io_allowed_def)
  ultimately show ?thesis by simp
next
  case False
  obtain d r c1 calls1 w1 rv1 c2 w2 where
    sess: "nghttp2_session_send L self (evs, adv, rv0) (start_of_send this d c) calls w = Ok (r, c1, calls1, w1)"
    and fl2: "flush_after_send L r c1 w1 = Some (rv1, c2, w2)"
    and fin2: "finish_send L this rv1 c2 calls1 w2 = Ok (rv, c', calls', w')"
    using send_pending_parts [OF assms(1)] False by blast
  have "w2 = w'" using finish_send_result [OF fin2] by simp
  note fl = fl2 [unfolded this] and fin = fin2 [unfolded this]
  have sane: "buffer_sane (start_of_send this d c, w)" "buffered_out (start_of_send this d c, w) = w_wire w"
    by (simp_all add: buffer_sane_def buffered_out_def start_of_send_def)
  note s = session_send_result [OF sess assms(2) sane(1), unfolded sane(2)]
  note f = finish_send_result [OF fin]
  have dead: "\<not> h2_dead c1" using session_send_dead [OF sess] False by (simp add: start_of_send_def)
  show ?thesis
  proof (cases "r = 0")
    case True
    then have b: "buffer_sane (c1, w1)" "buffered_out (c1, w1) = w_wire w @ wire_image evs calls" using s by simp_all
    note g = flush_after_send_result [OF fl b(1), unfolded b(2)]
    have "\<not> h2_dead c2" using g dead erase_send_fields(1) [OF erase_io_send] by metis
    then show ?thesis using f g True by (auto simp: end_of_send_def connection_io_allowed_def)
  next
    case False
    then have "rv1 = r" "w' = w1" using fl by (auto simp: flush_after_send_def)
    then show ?thesis using f s False by (auto simp: end_of_send_def connection_io_allowed_def)
  qed
qed

definition idle_world :: io_world where
  "idle_world = \<lparr>w_clock = [], w_errno = 0, w_poll = [], w_send = [WroteUpTo 2, WroteUpTo 9], w_ssl_write = [],
     w_recv = [], w_ssl_read = [], w_wire = []\<rparr>"

theorem send_in_order_witness:
  "\<exists>c' calls' w'. send_pending_h2_frames_with_deadline example_lib 0 ([SendBytes [1], SendBytes [2, 3]], id, 0) None 0
      (example_connection\<lparr>h2_write_buffer_cap := 8\<rparr>) Map.empty idle_world = Ok (0, c', calls', w')
    \<and> w_wire w' = [1, 2, 3]"
proof -
  obtain c' calls' w' where r: "send_pending_h2_frames_with_deadline example_lib 0 ([SendBytes [1], SendBytes [2, 3]], id, 0)
      None 0 (example_connection\<lparr>h2_write_buffer_cap := 8\<rparr>) Map.empty idle_world = Ok (0, c', calls', w')"
    by (simp add: send_pending_h2_frames_with_deadline_def example_defs nghttp2_session_send_def start_of_send_def
        send_callback_def callback_put_def h2_connection_buffer_or_write_def write_deadline_def note_write_expired_def
        flush_after_send_def h2_connection_flush_write_buffer_def h2_connection_write_all.simps
        h2_connection_send_def remaining_timeout_us_for_deadline_def socket_write_loop.simps idle_world_def
        finish_send_def end_of_send_def Let_def)
  from send_in_order [OF r] r show ?thesis by (auto simp: requests_ok_def idle_world_def)
qed

section \<open>The request body\<close>

text \<open>
  nghttp2 asks the read callback how many bytes the next DATA frame may carry (given a flow-control limit)
  and stops after the frame flagged EOF.  \<open>body_frames\<close> lists the answers for a sequence of limits.
\<close>

fun body_frames :: "nat list \<Rightarrow> grpc_call \<Rightarrow> (nat \<times> bool) list" where
  "body_frames [] call = []"
| "body_frames (m # ms) call =
     (let (n, eof) = data_source_read_callback (Some call) m
      in (n, eof) # (if eof then [] else body_frames ms (call\<lparr>request_offset := request_offset call + n\<rparr>)))"

definition body_events :: "call_id \<Rightarrow> (nat \<times> bool) list \<Rightarrow> send_event list" where
  "body_events cid frames = map (\<lambda>(n, eof). SendData cid [] n 0) frames"

lemma request_wire_length: "request_ok call \<Longrightarrow> length (request_wire call) = grpc_header_len call + length (request_bytes call)"
  by (simp add: request_ok_def request_wire_def)

lemma request_wire_offset [simp]: "request_wire (call\<lparr>request_offset := n\<rparr>) = request_wire call"
  by (simp add: request_wire_def)

lemma body_frames_complete:
  assumes "request_ok call" "request_offset call < length (request_wire call)"
    and "length (request_wire call) - request_offset call \<le> sum_list limits"
  shows "wire_image (body_events cid (body_frames limits call)) (calls(cid \<mapsto> call))
      = drop (request_offset call) (request_wire call)
    \<and> (\<exists>k. map snd (body_frames limits call) = replicate k False @ [True])"
  using assms
proof (induction limits arbitrary: call calls)
  case (Cons m ms)
  define rem where "rem = length (request_wire call) - request_offset call"
  have r: "remaining_request_bytes call = rem" "0 < rem"
    using Cons.prems request_wire_length [OF Cons.prems(1)] by (simp_all add: remaining_request_bytes_def rem_def)
  show ?case
  proof (cases "rem \<le> m")
    case True
    then have "body_frames (m # ms) call = [(rem, True)]" using r by (auto simp: data_source_read_callback_def)
    then show ?thesis
      by (auto simp: body_events_def rem_def intro: exI [of _ 0])
  next
    case False
    define call1 where "call1 = call\<lparr>request_offset := request_offset call + m\<rparr>"
    have f: "body_frames (m # ms) call = (m, False) # body_frames ms call1"
      using False r by (simp add: data_source_read_callback_def call1_def)
    have "request_ok call1" "request_offset call1 < length (request_wire call1)"
      "length (request_wire call1) - request_offset call1 \<le> sum_list ms"
      using Cons.prems False by (simp_all add: call1_def request_ok_def rem_def)
    from Cons.IH [OF this, of calls] obtain k where
      IH: "wire_image (body_events cid (body_frames ms call1)) (calls(cid \<mapsto> call1)) = drop (request_offset call1) (request_wire call1)"
      "map snd (body_frames ms call1) = replicate k False @ [True]" by auto
    have "take m (drop (request_offset call) (request_wire call)) @ drop (request_offset call1) (request_wire call1)
        = drop (request_offset call) (request_wire call)"
      by (simp add: call1_def) (metis add.commute append_take_drop_id drop_drop)
    moreover have "map snd (body_frames (m # ms) call) = replicate (Suc k) False @ [True]" using f IH(2) by simp
    moreover have "wire_image (body_events cid (body_frames (m # ms) call)) (calls(cid \<mapsto> call))
        = take m (drop (request_offset call) (request_wire call)) @ drop (request_offset call1) (request_wire call1)"
      unfolding f IH(1) [symmetric] by (simp add: body_events_def call1_def)
    ultimately show ?thesis by metis
  qed
qed simp



end
