(* ===== verification/Session_Driver.thy ===== *)
theory Session_Driver
  imports Wire_Send Exchange_Events
begin

text \<open>
  Driving a session over the store of calls: the receive callbacks as nghttp2 dispatches them by stream id
  (\<open>src/src/transport.c\<close>, 2148 to 2343), \<open>nghttp2_session_mem_recv\<close> as a script of callbacks, and the
  invariant that sending and receiving keep: every pointer the session holds is a live call, the list of
  active streams is well formed, and no callback touches a call of another connection.
\<close>

section \<open>Receive callbacks over the store\<close>

fun frame_stream_id :: "h2_frame \<Rightarrow> int" where
  "frame_stream_id (HeadersFrame sid cat e) = sid"
| "frame_stream_id (RstStreamFrame sid code) = sid"
| "frame_stream_id (PushPromiseFrame sid) = sid"
| "frame_stream_id (GoawayFrame last_id code) = 0"
| "frame_stream_id (OtherFrame sid) = sid"

text \<open>The common shape: look up the call, do nothing if there is none.\<close>

definition with_stream_call ::
    "'ss lib \<Rightarrow> int \<Rightarrow> (call_id \<Rightarrow> grpc_call \<Rightarrow> (int \<times> 'ss h2_connection \<times> grpc_call) option)
      \<Rightarrow> 'ss h2_connection \<Rightarrow> call_store \<Rightarrow> (int \<times> 'ss h2_connection \<times> call_store) res" where
  "with_stream_call L sid f c calls =
     (case grpc_call_from_stream_id L c sid of
        None \<Rightarrow> Ok (0, c, calls)
      | Some k \<Rightarrow> on_call calls k (\<lambda>call.
          case f k call of
            None \<Rightarrow> Blocked
          | Some (rv, c, call) \<Rightarrow> Ok (rv, c, calls(k \<mapsto> call))))"

definition on_frame_recv_callback ::
    "'ss lib \<Rightarrow> conn_id \<Rightarrow> h2_frame \<Rightarrow> 'ss h2_connection \<Rightarrow> call_store \<Rightarrow> (int \<times> 'ss h2_connection \<times> call_store) res" where
  "on_frame_recv_callback L self frame c calls =
     (case frame of
        GoawayFrame last_id code \<Rightarrow>
          and_then (on_goaway_received L self last_id code c calls) (\<lambda>(c, calls). Ok (0, c, calls))
      | _ \<Rightarrow> with_stream_call L (frame_stream_id frame) (\<lambda>k call. Some (on_stream_frame_recv L frame c call)) c calls)"

datatype recv_event =
    RecvHeader int headers_category string string
  | RecvData int "byte list"
  | RecvFrame h2_frame
  | RecvClosed int nat

definition run_recv_event ::
    "'ss lib \<Rightarrow> module_globals \<Rightarrow> conn_id \<Rightarrow> recv_event \<Rightarrow> 'ss h2_connection \<Rightarrow> call_store
      \<Rightarrow> (int \<times> 'ss h2_connection \<times> call_store) res" where
  "run_recv_event L G self ev c calls =
     (case ev of
        RecvHeader sid cat name val \<Rightarrow>
          with_stream_call L sid (\<lambda>k call. Some (on_header_callback L cat sid name val c call)) c calls
      | RecvData sid data \<Rightarrow>
          with_stream_call L sid (\<lambda>k call. on_data_chunk_recv_callback L G k sid data c call) c calls
      | RecvFrame frame \<Rightarrow> on_frame_recv_callback L self frame c calls
      | RecvClosed sid code \<Rightarrow>
          and_then (on_stream_close_callback L self sid code c calls) (\<lambda>(c, calls). Ok (0, c, calls)))"

fun run_recv_events ::
    "'ss lib \<Rightarrow> module_globals \<Rightarrow> conn_id \<Rightarrow> recv_event list \<Rightarrow> 'ss h2_connection \<Rightarrow> call_store
      \<Rightarrow> (int \<times> 'ss h2_connection \<times> call_store) res" where
  "run_recv_events L G self [] c calls = Ok (0, c, calls)"
| "run_recv_events L G self (ev # evs) c calls =
     and_then (run_recv_event L G self ev c calls) (\<lambda>(rv, c, calls).
       if rv \<noteq> 0 then Ok (rv, c, calls) else run_recv_events L G self evs c calls)"

text \<open>
  The session makes the callbacks \<open>evs\<close>; a callback that fails makes the function return that code at
  once, otherwise it returns \<open>rv\<close>.  Calling it without a session is a NULL dereference.
\<close>

definition nghttp2_session_mem_recv ::
    "'ss lib \<Rightarrow> module_globals \<Rightarrow> conn_id \<Rightarrow> recv_event list \<times> ('ss \<Rightarrow> 'ss) \<times> int \<Rightarrow> 'ss h2_connection \<Rightarrow> call_store
      \<Rightarrow> (int \<times> 'ss h2_connection \<times> call_store) res" where
  "nghttp2_session_mem_recv L G self script c calls =
     (if h2_session c = None then Fault
      else case script of (evs, adv, rv) \<Rightarrow>
        and_then (run_recv_events L G self evs c calls) (\<lambda>(r, c, calls).
          Ok (if r \<noteq> 0 then r else rv, c\<lparr>h2_session := map_option adv (h2_session c)\<rparr>, calls)))"

section \<open>What callbacks keep\<close>

text \<open>nghttp2 keeps the user data of its streams across RST submissions and drops it only when a stream goes away.\<close>

definition rst_laws :: "'ss lib \<Rightarrow> bool" where
  "rst_laws L \<longleftrightarrow> (\<forall>ss sid code sid'. nghttp2_session_get_stream_user_data L (fst (nghttp2_submit_rst_stream L ss sid code)) sid'
     = nghttp2_session_get_stream_user_data L ss sid')"

definition session_laws :: "'ss lib \<Rightarrow> bool" where
  "session_laws L \<longleftrightarrow> user_data_laws L \<and> rst_laws L"

definition adv_ok :: "'ss lib \<Rightarrow> ('ss \<Rightarrow> 'ss) \<Rightarrow> bool" where
  "adv_ok L adv \<longleftrightarrow> (\<forall>ss sid. nghttp2_session_get_stream_user_data L (adv ss) sid
     \<in> {None, nghttp2_session_get_stream_user_data L ss sid})"

text \<open>The fields of a connection that decide who owns it.\<close>

definition conn_owner :: "'ss h2_connection \<Rightarrow> int \<times> bool \<times> bool \<times> nat \<times> bool \<times> call_id option" where
  "conn_owner c = (h2_fd c, h2_persistent c, h2_detached_from_cache c, h2_stream_owner_count c,
     h2_session c = None, h2_current_read_call c)"

definition conn_kept :: "'ss h2_connection \<Rightarrow> 'ss h2_connection \<Rightarrow> bool" where
  "conn_kept c c' \<longleftrightarrow> conn_owner c' = conn_owner c \<and> (h2_dead c \<longrightarrow> h2_dead c') \<and> (h2_draining c \<longrightarrow> h2_draining c')"

lemma conn_kept_refl [simp]: "conn_kept c c"
  by (simp add: conn_kept_def)

lemma conn_kept_trans: "conn_kept a b \<Longrightarrow> conn_kept b c \<Longrightarrow> conn_kept a c"
  by (simp add: conn_kept_def)

text \<open>The fields of a call that driving a session never changes.\<close>

definition call_fixed ::
    "grpc_call \<Rightarrow> conn_id option \<times> int \<times> bool \<times> (nat \<times> nat) \<times> (bool \<times> bool \<times> bool) \<times> byte list \<times> nat \<times> byte list" where
  "call_fixed call = (connection call, stream_id call, connection_owned call, (deadline_abs_us call, retry_attempt call),
     (decode_response_incrementally call, direct_response_payload call, queue_response_payloads call),
     grpc_header call, grpc_header_len call, request_bytes call)"

definition calls_kept :: "conn_id \<Rightarrow> call_store \<Rightarrow> call_store \<Rightarrow> bool" where
  "calls_kept self calls calls' \<longleftrightarrow>
     (\<forall>k. map_option call_fixed (calls' k) = map_option call_fixed (calls k))
     \<and> (\<forall>k call. calls k = Some call \<longrightarrow> connection call \<noteq> Some self \<longrightarrow> calls' k = Some call)"

lemma calls_kept_refl [simp]: "calls_kept self calls calls"
  by (simp add: calls_kept_def)

lemma calls_keptD:
  assumes "calls_kept self calls calls'" "calls k = Some call"
  shows "\<exists>call'. calls' k = Some call' \<and> call_fixed call' = call_fixed call"
proof -
  have "map_option call_fixed (calls' k) = Some (call_fixed call)" using assms by (simp add: calls_kept_def)
  then show ?thesis by (cases "calls' k") simp_all
qed

lemma calls_kept_trans:
  assumes "calls_kept self a b" "calls_kept self b c"
  shows "calls_kept self a c"
proof -
  have "c k = Some call" if "a k = Some call" "connection call \<noteq> Some self" for k call
    using assms that by (simp add: calls_kept_def)
  then show ?thesis using assms by (simp add: calls_kept_def)
qed

lemma calls_kept_upd:
  assumes "calls k = Some call" "connection call = Some self" "call_fixed call' = call_fixed call"
  shows "calls_kept self calls (calls(k \<mapsto> call'))"
  using assms by (auto simp: calls_kept_def)

lemma call_fixed_erase_link [simp]: "call_fixed (erase_link call) = call_fixed call"
  by (simp add: call_fixed_def erase_link_def)

lemma call_fixed_notes [simp]:
  "call_fixed (note_stream_refused call) = call_fixed call" "call_fixed (note_stream_closed e call) = call_fixed call"
  by (simp_all add: call_fixed_def note_stream_refused_def note_stream_closed_def)

lemma same_calls_fixed:
  assumes "same_calls calls' calls"
  shows "map_option call_fixed (calls' k) = map_option call_fixed (calls k)"
proof -
  have "map_option call_fixed (map_option erase_link (calls' k)) = map_option call_fixed (map_option erase_link (calls k))"
    using assms by (simp add: same_calls_def)
  then show ?thesis by (simp add: option.map_comp comp_def)
qed

lemma refuse_streams_fixed: "map_option call_fixed (refuse_streams l ks calls k) = map_option call_fixed (calls k)"
  by (simp add: refuse_streams_def option.map_comp comp_def)

section \<open>Callbacks of one call\<close>

text \<open>The call-side and the connection-side effect of a header, DATA or frame callback.\<close>

definition call_core :: "grpc_call \<Rightarrow> call_id option \<times> bool \<times>
    (conn_id option \<times> int \<times> bool \<times> (nat \<times> nat) \<times> (bool \<times> bool \<times> bool) \<times> byte list \<times> nat \<times> byte list)" where
  "call_core call = (next_active_stream call, stream_registered call, call_fixed call)"

definition conn_step :: "'ss lib \<Rightarrow> 'ss h2_connection \<Rightarrow> 'ss h2_connection \<Rightarrow> bool" where
  "conn_step L c c' \<longleftrightarrow> conn_kept c c' \<and> h2_active_streams c' = h2_active_streams c
     \<and> h2_active_stream_count c' = h2_active_stream_count c
     \<and> (rst_laws L \<longrightarrow> grpc_call_from_stream_id L c' = grpc_call_from_stream_id L c)"

lemma conn_step_refl [simp]: "conn_step L c c"
  by (simp add: conn_step_def)

lemma conn_step_trans: "conn_step L a b \<Longrightarrow> conn_step L b c \<Longrightarrow> conn_step L a c"
  by (auto simp: conn_step_def intro: conn_kept_trans)

lemma mark_dead_conn_step: "conn_step L c (mark_connection_dead L e c)"
  by (simp add: conn_step_def conn_kept_def conn_owner_def grpc_call_from_stream_id_def fun_eq_iff mark_connection_dead_def Let_def)

lemma submit_rst_conn_step:
  assumes "grpc_protocol_submit_rst_stream_in_callback L e c call = (rv, c')"
  shows "conn_step L c c'"
proof -
  have "conn_step L c (c\<lparr>h2_session := Some ss'\<rparr>)"
    if "h2_session c = Some ss" "nghttp2_submit_rst_stream L ss (stream_id call) e = (ss', r)" for ss ss' r
  proof -
    have "rst_laws L \<longrightarrow> (\<forall>sid. nghttp2_session_get_stream_user_data L ss' sid = nghttp2_session_get_stream_user_data L ss sid)"
      using that(2) unfolding rst_laws_def by (metis fst_conv)
    then show ?thesis using that(1)
      by (simp add: conn_step_def conn_kept_def conn_owner_def grpc_call_from_stream_id_def fun_eq_iff)
  qed
  then show ?thesis using assms mark_dead_conn_step conn_step_trans
    by (auto simp: grpc_protocol_submit_rst_stream_in_callback_def Let_def split: option.splits if_splits prod.splits) blast
qed

lemma erase_parser_core:
  assumes "erase_parser call' = erase_parser call"
  shows "call_core call' = call_core call"
proof -
  have "call_core (erase_parser call) = call_core call" for call
    by (simp add: call_core_def call_fixed_def erase_parser_def)
  then show ?thesis using assms by metis
qed

interpretation core: parser_invariant L G this "\<lambda>c call. conn_step L c0 c \<and> call_core call = core0"
  by unfold_locales
     (auto dest: erase_parser_core conn_step_trans submit_rst_conn_step simp: enqueued_def call_core_def call_fixed_def)

definition direct_call :: "grpc_call \<Rightarrow> bool" where
  "direct_call call \<longleftrightarrow> decode_response_incrementally call \<and> direct_response_payload call \<and> queue_response_payloads call"

lemma data_callback_core:
  assumes "on_data_chunk_recv_callback L G k sid data c call = Some (rv, c', call')" "direct_call call"
  shows "conn_step L c c' \<and> call_core call' = call_core call"
  using assms core.process [of L G k c call data _ _ _ c "call_core call"]
  by (auto simp: on_data_chunk_recv_callback_def direct_call_def split: if_splits option.splits)

lemma call_core_updates [simp]:
  "call_core (call\<lparr>initial_grpc_status_seen := b\<rparr>) = call_core call"
  "call_core (call\<lparr>invalid_grpc_status := b\<rparr>) = call_core call"
  "call_core (call\<lparr>grpc_status_seen := b\<rparr>) = call_core call"
  "call_core (call\<lparr>grpc_status := i\<rparr>) = call_core call"
  "call_core (call\<lparr>http_status := i\<rparr>) = call_core call"
  "call_core (call\<lparr>grpc_encoding := so\<rparr>) = call_core call"
  "call_core (call\<lparr>grpc_message := so\<rparr>) = call_core call"
  "call_core (call\<lparr>content_type_seen := b\<rparr>) = call_core call"
  "call_core (call\<lparr>content_type := so\<rparr>) = call_core call"
  "call_core (call\<lparr>invalid_content_type := b\<rparr>) = call_core call"
  "call_core (call\<lparr>discard_response_body := b\<rparr>) = call_core call"
  "call_core (call\<lparr>metadata_too_large := b\<rparr>) = call_core call"
  "call_core (call\<lparr>metadata_list := ms\<rparr>) = call_core call"
  "call_core (call\<lparr>metadata_entry_count := n\<rparr>) = call_core call"
  "call_core (call\<lparr>metadata_bytes := n\<rparr>) = call_core call"
  "call_core (call\<lparr>initial_headers_end_stream := b\<rparr>) = call_core call"
  "call_core (call\<lparr>trailing_headers_seen := b\<rparr>) = call_core call"
  "call_core (call\<lparr>stream_reset_seen := b\<rparr>) = call_core call"
  "call_core (call\<lparr>stream_error_code := n\<rparr>) = call_core call"
  "call_core (call\<lparr>malformed_response_frame := b\<rparr>) = call_core call"
  "call_core (call\<lparr>last_io_errno := i\<rparr>) = call_core call"
  "call_core (call\<lparr>last_ssl_error := i\<rparr>) = call_core call"
  "call_core (call\<lparr>last_io_error_detail := d\<rparr>) = call_core call"
  "call_core (call\<lparr>timed_out := b\<rparr>) = call_core call"
  "call_core (call\<lparr>connection_broken := b\<rparr>) = call_core call"
  "call_core (call\<lparr>locally_cancelled := b\<rparr>) = call_core call"
  "call_core (call\<lparr>request_offset := n\<rparr>) = call_core call"
  by (simp_all add: call_core_def call_fixed_def)

lemma mark_trailing_core [simp]: "call_core (grpc_protocol_mark_response_metadata_as_trailing call) = call_core call"
  by (simp add: grpc_protocol_mark_response_metadata_as_trailing_def)

lemma add_entry_core:
  assumes "grpc_protocol_add_response_metadata_entry L name val t c call = (rv, c', call')"
  shows "conn_step L c c' \<and> call_core call' = call_core call"
  using assms submit_rst_conn_step
  by (auto simp: grpc_protocol_add_response_metadata_entry_def Let_def split: if_splits prod.splits)

lemma header_callback_core:
  assumes "on_header_callback L cat sid name val c call = (rv, c', call')"
  shows "conn_step L c c' \<and> call_core call' = call_core call"
  using assms
  by (auto simp: on_header_callback_def Let_def dest!: add_entry_core split: if_splits prod.splits)

lemma frame_callback_core:
  assumes "on_stream_frame_recv L frame c call = (rv, c', call')"
  shows "conn_step L c c' \<and> call_core call' = call_core call"
  using assms submit_rst_conn_step
  by (auto simp: on_stream_frame_recv_def Let_def split: h2_frame.splits if_splits prod.splits)

section \<open>The invariant\<close>

definition calls_wf :: "call_store \<Rightarrow> bool" where
  "calls_wf calls \<longleftrightarrow> (\<forall>k call. calls k = Some call \<longrightarrow> direct_call call \<and> request_ok call)"

lemma call_fixed_wf:
  "call_fixed call' = call_fixed call \<Longrightarrow> (direct_call call' \<and> request_ok call') = (direct_call call \<and> request_ok call)"
  by (simp add: call_fixed_def direct_call_def request_ok_def)

lemma calls_kept_wf:
  assumes "calls_kept self calls calls'" "calls_wf calls"
  shows "calls_wf calls'"
  unfolding calls_wf_def
proof (intro allI impI)
  fix k call' assume k: "calls' k = Some call'"
  have "map_option call_fixed (calls' k) = map_option call_fixed (calls k)" using assms(1) unfolding calls_kept_def by blast
  then have "map_option call_fixed (calls k) = Some (call_fixed call')" using k by simp
  then obtain call where c: "calls k = Some call" "call_fixed call = call_fixed call'" by (cases "calls k") simp_all
  have "direct_call call \<and> request_ok call" using assms(2) c(1) by (simp add: calls_wf_def)
  then show "direct_call call' \<and> request_ok call'" using call_fixed_wf [OF c(2)] by simp
qed

text \<open>One step of driving: the invariant again, the connection's ownership and all foreign calls kept.\<close>

definition driven :: "'ss lib \<Rightarrow> conn_id \<Rightarrow> 'ss h2_connection \<times> call_store \<Rightarrow> 'ss h2_connection \<times> call_store \<Rightarrow> bool" where
  "driven L self s s' \<longleftrightarrow>
     driving_ok L self (fst s') (snd s') \<and> conn_kept (fst s) (fst s') \<and> calls_kept self (snd s) (snd s')"

lemma driven_trans: "driven L self a b \<Longrightarrow> driven L self b c \<Longrightarrow> driven L self a c"
  by (auto simp: driven_def intro: conn_kept_trans calls_kept_trans)

lemma call_core_fields:
  assumes "call_core call' = call_core call"
  shows "next_active_stream call' = next_active_stream call" "listed self call' = listed self call"
    "stream_id call' = stream_id call" "connection call' = connection call" "call_fixed call' = call_fixed call"
  using assms by (simp_all add: call_core_def call_fixed_def listed_def)

lemma driven_connection:
  assumes "driving_ok L self c calls" "conn_step L c c'" "rst_laws L"
  shows "driven L self (c, calls) (c', calls)"
proof -
  have f: "grpc_call_from_stream_id L c' = grpc_call_from_stream_id L c" "h2_active_streams c' = h2_active_streams c"
    "h2_active_stream_count c' = h2_active_stream_count c" "h2_dead c \<longrightarrow> h2_dead c'" "conn_kept c c'"
    using assms(2,3) by (simp_all add: conn_step_def conn_kept_def)
  have "streams_ok L self c' calls"
    using assms(1) f registry_ok_connection [OF _ f(2,3)]
    by (auto simp: driving_ok_def streams_ok_def user_data_ok_def)
  then show ?thesis using assms(1) f by (auto simp: driven_def driving_ok_def pointers_ok_def)
qed

lemma driven_call:
  assumes "driving_ok L self c calls" "calls k = Some call" "connection call = Some self"
    and "call_core call' = call_core call"
  shows "driven L self (c, calls) (c, calls(k \<mapsto> call'))"
proof -
  note core = call_core_fields [OF assms(4)]
  have "streams_ok L self c (calls(k \<mapsto> call'))"
    by (rule streams_ok_note [OF driving_streams [OF assms(1)] assms(2)]) (use core in simp_all)
  moreover have "pointers_ok L self c (calls(k \<mapsto> call'))"
    using assms core(4) by (auto simp: driving_ok_def pointers_ok_def)
  ultimately show ?thesis using calls_kept_upd [of calls k call self call', OF assms(2,3) core(5)] by (simp add: driven_def driving_ok_def)
qed

lemma with_stream_call_driven:
  assumes ok: "driving_ok L self c calls" "rst_laws L" "calls_wf calls"
    and f: "\<And>k call rv c' call'. direct_call call \<Longrightarrow> f k call = Some (rv, c', call') \<Longrightarrow> conn_step L c c' \<and> call_core call' = call_core call"
  shows "safe (\<lambda>(rv, s'). driven L self (c, calls) s') (with_stream_call L sid f c calls)"
proof (cases "grpc_call_from_stream_id L c sid")
  case None
  then show ?thesis using ok by (simp add: with_stream_call_def driven_def)
next
  case (Some k)
  obtain call where call: "calls k = Some call" "connection call = Some self"
    using ok(1) Some unfolding driving_ok_def pointers_ok_def by blast
  show ?thesis
  proof (cases "f k call")
    case None
    then show ?thesis using Some call by (simp add: with_stream_call_def)
  next
    case r: (Some r)
    obtain rv c' call' where r': "r = (rv, c', call')" by (metis surj_pair)
    have st: "conn_step L c c'" "call_core call' = call_core call"
      using f [of call k rv c' call'] r r' ok(3) call(1) by (simp_all add: calls_wf_def)
    have "driven L self (c, calls) (c', calls)" by (rule driven_connection [OF ok(1) st(1) ok(2)])
    moreover from this have "driven L self (c', calls) (c', calls(k \<mapsto> call'))"
      by (intro driven_call [of L self c' calls k call call', OF _ call st(2)]) (simp add: driven_def)
    ultimately show ?thesis using Some call r r' driven_trans by (simp add: with_stream_call_def) blast
  qed
qed

section \<open>Receiving is safe\<close>

lemma erase_registry_kept:
  assumes "erase_registry c' = erase_registry c" "(h2_session c' = None) = (h2_session c = None)"
  shows "conn_kept c c'"
  using assms(2) arg_cong [OF assms(1), of h2_fd] arg_cong [OF assms(1), of h2_persistent]
    arg_cong [OF assms(1), of h2_detached_from_cache] arg_cong [OF assms(1), of h2_stream_owner_count]
    arg_cong [OF assms(1), of h2_current_read_call] arg_cong [OF assms(1), of h2_dead]
    arg_cong [OF assms(1), of h2_draining]
  by (simp add: conn_kept_def conn_owner_def erase_registry_def)

lemma draining_kept: "conn_kept c (mark_connection_draining l e c)"
  by (simp add: conn_kept_def conn_owner_def mark_connection_draining_def)

lemma foreign_calls_kept:
  assumes "foreign_kept self calls calls'" "\<And>k. map_option call_fixed (calls' k) = map_option call_fixed (calls k)"
  shows "calls_kept self calls calls'"
  using assms by (simp add: calls_kept_def foreign_kept_def)

lemma stream_close_driven:
  assumes "session_laws L" "driving_ok L self c calls"
  shows "returns (driven L self (c, calls)) (on_stream_close_callback L self sid code c calls)"
proof -
  obtain c' calls' where u: "on_stream_close_callback L self sid code c calls = Ok (c', calls')"
    "driving_ok L self c' calls'" "erase_registry c' = erase_registry c" "(h2_session c' = None) = (h2_session c = None)"
    "foreign_kept self calls calls'"
    using stream_close_driving [of L self c calls sid code] assms by (auto simp: session_laws_def)
  have "map_option call_fixed (calls' k) = map_option call_fixed (calls k)" for k
    using u(1)
  proof (cases rule: stream_close_cases)
    case (2 j call)
    show ?thesis using same_calls_fixed [OF unregister_Ok(2) [OF 2(4)], of k] 2(2) by simp
  qed simp
  then show ?thesis using u erase_registry_kept [OF u(3,4)] foreign_calls_kept [OF u(5)] by (simp add: driven_def)
qed

lemma goaway_driven:
  assumes "session_laws L" "driving_ok L self c calls"
  shows "returns (driven L self (c, calls)) (on_goaway_received L self last_id code c calls)"
proof -
  have ul: "user_data_laws L" using assms(1) by (simp add: session_laws_def)
  have "\<exists>s'. on_goaway_received L self last_id code c calls = Ok s' \<and>
      driving_ok L self (fst s') (snd s') \<and> foreign_kept self calls (snd s') \<and> (h2_session (fst s') = None) = (h2_session c = None)
    \<and> (same_calls (snd s') calls \<or> (\<exists>ks. same_calls (snd s') (refuse_streams last_id ks calls)))
    \<and> erase_registry (fst s') = erase_registry (mark_connection_draining last_id code c)"
    using goaway_driving [OF ul assms(2), of last_id code] by fastforce
  then obtain s' where u: "on_goaway_received L self last_id code c calls = Ok s'"
    "driving_ok L self (fst s') (snd s')" "foreign_kept self calls (snd s')" "(h2_session (fst s') = None) = (h2_session c = None)"
    "same_calls (snd s') calls \<or> (\<exists>ks. same_calls (snd s') (refuse_streams last_id ks calls))"
    "erase_registry (fst s') = erase_registry (mark_connection_draining last_id code c)"
    by (elim exE conjE) (rule that)
  have "map_option call_fixed (snd s' k) = map_option call_fixed (calls k)" for k
    using u(5) same_calls_fixed refuse_streams_fixed by metis
  moreover have "h2_session (mark_connection_draining last_id code c) = h2_session c" by (simp add: mark_connection_draining_def)
  then have "conn_kept c (fst s')" using u(4) erase_registry_kept [OF u(6)] conn_kept_trans [OF draining_kept] by simp
  ultimately show ?thesis using u foreign_calls_kept [OF u(3)] by (simp add: driven_def)
qed

lemma run_recv_event_driven:
  assumes "session_laws L" "driving_ok L self c calls" "calls_wf calls"
  shows "safe (\<lambda>(rv, s'). driven L self (c, calls) s') (run_recv_event L G self ev c calls)"
proof -
  have rst: "rst_laws L" using assms(1) by (simp add: session_laws_def)
  note wsc = with_stream_call_driven [OF assms(2) rst assms(3)]
  have frame: "safe (\<lambda>(rv, s'). driven L self (c, calls) s')
      (with_stream_call L sid (\<lambda>k call. Some (on_stream_frame_recv L frame c call)) c calls)" for sid frame
    by (rule wsc) (auto dest: frame_callback_core)
  show ?thesis
  proof (cases ev)
    case (RecvHeader sid cat name val)
    have "safe (\<lambda>(rv, s'). driven L self (c, calls) s')
        (with_stream_call L sid (\<lambda>k call. Some (on_header_callback L cat sid name val c call)) c calls)"
      by (rule wsc) (auto dest: header_callback_core)
    then show ?thesis using RecvHeader by (simp add: run_recv_event_def)
  next
    case (RecvData sid data)
    have "safe (\<lambda>(rv, s'). driven L self (c, calls) s')
        (with_stream_call L sid (\<lambda>k call. on_data_chunk_recv_callback L G k sid data c call) c calls)"
      by (rule wsc) (auto dest: data_callback_core)
    then show ?thesis using RecvData by (simp add: run_recv_event_def)
  next
    case (RecvFrame fr)
    show ?thesis
    proof (cases "\<exists>l e. fr = GoawayFrame l e")
      case True
      then obtain l e where fr: "fr = GoawayFrame l e" by blast
      show ?thesis using RecvFrame fr
        by (auto simp: run_recv_event_def on_frame_recv_callback_def
            intro!: safe_and_then [OF returns_safe [OF goaway_driven [OF assms(1,2)]]])
    next
      case False
      then show ?thesis using RecvFrame frame
        by (cases fr) (simp_all add: run_recv_event_def on_frame_recv_callback_def)
    qed
  next
    case (RecvClosed sid code)
    then show ?thesis
      by (auto simp: run_recv_event_def intro!: safe_and_then [OF returns_safe [OF stream_close_driven [OF assms(1,2)]]])
  qed
qed

lemma run_recv_events_driven:
  assumes "session_laws L"
  shows "driving_ok L self c calls \<Longrightarrow> calls_wf calls \<Longrightarrow>
    safe (\<lambda>(rv, s'). driven L self (c, calls) s') (run_recv_events L G self evs c calls)"
proof (induction evs arbitrary: c calls)
  case Nil
  then show ?case by (simp add: driven_def)
next
  case (Cons ev evs)
  show ?case unfolding run_recv_events.simps
  proof (rule safe_and_then [OF run_recv_event_driven [OF assms Cons.prems]])
    fix r :: "int \<times> 'a h2_connection \<times> call_store"
    assume "case r of (rv, s') \<Rightarrow> driven L self (c, calls) s'"
    moreover obtain rv c1 calls1 where r: "r = (rv, c1, calls1)" by (metis surj_pair)
    ultimately have d: "driven L self (c, calls) (c1, calls1)" by simp
    then have "driving_ok L self c1 calls1" "calls_wf calls1"
      using calls_kept_wf Cons.prems(2) by (auto simp: driven_def)
    note IH = Cons.IH [OF this]
    have "driven L self (c1, calls1) s' \<Longrightarrow> driven L self (c, calls) s'" for s' using d driven_trans by blast
    then have "safe (\<lambda>(rv, s'). driven L self (c, calls) s') (run_recv_events L G self evs c1 calls1)"
      by (intro safe_mono [OF IH]) (auto split: prod.splits)
    then show "safe (\<lambda>(rv, s'). driven L self (c, calls) s')
       (case r of (rv, c, calls) \<Rightarrow> if rv \<noteq> 0 then Ok (rv, c, calls) else run_recv_events L G self evs c calls)"
      using r d by simp
  qed
qed

lemma advance_driven:
  assumes "driving_ok L self c calls" "adv_ok L adv"
  shows "driven L self (c, calls) (c\<lparr>h2_session := map_option adv (h2_session c)\<rparr>, calls)"
proof -
  define c' where "c' = c\<lparr>h2_session := map_option adv (h2_session c)\<rparr>"
  have few: "fewer_pointers L c c'"
    using assms(2) by (auto simp: fewer_pointers_def grpc_call_from_stream_id_def c'_def adv_ok_def
        split: option.splits if_splits) (metis insertE option.distinct(1) singletonD)
  have "streams_ok L self c' calls"
    using assms(1) few registry_ok_connection [of self c calls _ c']
    by (auto simp: driving_ok_def streams_ok_def user_data_ok_def fewer_pointers_def c'_def)
  moreover have "pointers_ok L self c' calls"
    by (rule pointers_ok_mono [of L self c calls, OF _ few]) (use assms(1) in \<open>simp_all add: driving_ok_def\<close>)
  moreover have "conn_kept c c'" by (simp add: conn_kept_def conn_owner_def c'_def)
  ultimately show ?thesis unfolding c'_def [symmetric] by (simp add: driven_def driving_ok_def)
qed

text \<open>What a session of callbacks needs and what it leaves.\<close>

definition conn_inv :: "'ss lib \<Rightarrow> conn_id \<Rightarrow> 'ss h2_connection \<Rightarrow> call_store \<Rightarrow> bool" where
  "conn_inv L self c calls \<longleftrightarrow> streams_ok L self c calls \<and> calls_wf calls"

definition driven_inv :: "'ss lib \<Rightarrow> conn_id \<Rightarrow> 'ss h2_connection \<times> call_store \<Rightarrow> 'ss h2_connection \<times> call_store \<Rightarrow> bool" where
  "driven_inv L self s s' \<longleftrightarrow>
     conn_inv L self (fst s') (snd s') \<and> conn_kept (fst s) (fst s') \<and> calls_kept self (snd s) (snd s')"

lemma driven_driven_inv: "driven L self s s' \<Longrightarrow> calls_wf (snd s) \<Longrightarrow> driven_inv L self s s'"
  using calls_kept_wf by (auto simp: driven_def driven_inv_def conn_inv_def driving_ok_def)

lemma driven_inv_trans: "driven_inv L self a b \<Longrightarrow> driven_inv L self b c \<Longrightarrow> driven_inv L self a c"
  by (auto simp: driven_inv_def intro: conn_kept_trans calls_kept_trans)

lemma driven_inv_refl: "conn_inv L self c calls \<Longrightarrow> driven_inv L self (c, calls) (c, calls)"
  by (simp add: driven_inv_def)

lemma mem_recv_driven:
  assumes laws: "session_laws L" "adv_ok L adv" and d: "driving_ok L self c calls" "calls_wf calls" and c: "h2_session c \<noteq> None"
  shows "safe (\<lambda>(rv, s'). driven L self (c, calls) s') (nghttp2_session_mem_recv L G self (evs, adv, rv0) c calls)"
  unfolding nghttp2_session_mem_recv_def using c
proof (simp, intro safe_and_then [OF run_recv_events_driven [OF laws(1) d]], clarsimp)
  fix r c1 calls1 assume dr: "driven L self (c, calls) (c1, calls1)"
  then have "driving_ok L self c1 calls1" by (simp add: driven_def)
  from advance_driven [OF this laws(2)] show "driven L self (c, calls) (c1\<lparr>h2_session := map_option adv (h2_session c1)\<rparr>, calls1)"
    using dr driven_trans by blast
qed

lemma mem_recv_safe:
  assumes laws: "session_laws L" "adv_ok L adv" and inv: "conn_inv L self c calls" and c: "\<not> h2_dead c" "h2_session c \<noteq> None"
  shows "safe (\<lambda>(rv, s'). driven_inv L self (c, calls) s') (nghttp2_session_mem_recv L G self (evs, adv, rv0) c calls)"
proof -
  have d: "driving_ok L self c calls" "calls_wf calls" using inv c streams_driving by (auto simp: conn_inv_def)
  show ?thesis by (rule safe_mono [OF mem_recv_driven [OF laws d c(2)]]) (use d driven_driven_inv in \<open>auto split: prod.splits\<close>)
qed

section \<open>Sending is safe\<close>

lemma erase_io_step:
  assumes "erase_io c' = erase_io c"
  shows "conn_step L c c'"
proof -
  have "conn_owner c' = conn_owner c \<and> h2_dead c' = h2_dead c \<and> h2_draining c' = h2_draining c
    \<and> h2_active_streams c' = h2_active_streams c \<and> h2_active_stream_count c' = h2_active_stream_count c \<and> h2_session c' = h2_session c"
    using arg_cong [OF assms, of conn_owner] arg_cong [OF assms, of h2_dead] arg_cong [OF assms, of h2_draining]
      arg_cong [OF assms, of h2_active_streams] arg_cong [OF assms, of h2_active_stream_count] arg_cong [OF assms, of h2_session]
    by (simp add: erase_io_def erase_errors_def conn_owner_def)
  then show ?thesis by (simp add: conn_step_def conn_kept_def grpc_call_from_stream_id_def fun_eq_iff)
qed

text \<open>
  nghttp2 asks for the body of a stream only while the stream is open, that is while its call is alive.
\<close>

definition sources_ok :: "conn_id \<Rightarrow> send_event list \<Rightarrow> call_store \<Rightarrow> bool" where
  "sources_ok self evs calls \<longleftrightarrow>
     (\<forall>k framehd len padlen. SendData k framehd len padlen \<in> set evs \<longrightarrow> (\<exists>call. calls k = Some call \<and> connection call = Some self))"

lemma sources_ok_kept:
  assumes "sources_ok self (ev # evs) calls" "calls_kept self calls calls'"
  shows "sources_ok self evs calls'"
  unfolding sources_ok_def
proof (intro allI impI)
  fix k framehd len padlen assume "SendData k framehd len padlen \<in> set evs"
  then obtain call where c: "calls k = Some call" "connection call = Some self"
    using assms(1) unfolding sources_ok_def by (meson list.set_intros(2))
  obtain call' where "calls' k = Some call'" "call_fixed call' = call_fixed call" using calls_keptD [OF assms(2) c(1)] by blast
  then show "\<exists>call. calls' k = Some call \<and> connection call = Some self" using c(2) by (simp add: call_fixed_def)
qed

lemma run_send_events_driven:
  assumes laws: "session_laws L"
  shows "driving_ok L self c calls \<Longrightarrow> sources_ok self evs calls \<Longrightarrow>
    safe (\<lambda>(rv, c', calls', w'). driven L self (c, calls) (c', calls')) (run_send_events L self evs c calls w)"
proof (induction evs arbitrary: c calls w)
  case Nil
  then show ?case by (simp add: driven_def)
next
  case (Cons ev evs)
  have rst: "rst_laws L" using laws by (simp add: session_laws_def)
  have cont: "safe (\<lambda>(rv, c', calls', w'). driven L self (c, calls) (c', calls')) (run_send_events L self evs c1 calls1 w1)"
    if d: "driven L self (c, calls) (c1, calls1)" for c1 calls1 w1
  proof -
    have "driving_ok L self c1 calls1" "sources_ok self evs calls1"
      using d sources_ok_kept [OF Cons.prems(2)] by (auto simp: driven_def)
    note IH = Cons.IH [OF this, of w1]
    have "driven L self (c1, calls1) s' \<Longrightarrow> driven L self (c, calls) s'" for s' using d driven_trans by blast
    then show ?thesis by (intro safe_mono [OF IH]) (auto split: prod.splits)
  qed
  show ?case
  proof (cases ev)
    case (SendBytes data)
    show ?thesis
    proof (cases "send_callback L data c w")
      case None
      then show ?thesis using SendBytes by simp
    next
      case (Some r)
      obtain rv c1 w1 where r: "r = (rv, c1, w1)" by (metis surj_pair)
      have "erase_io c1 = erase_io c"
        using Some r by (auto simp: send_callback_def dest!: callback_put_erase_io split: option.splits)
      then have "driven L self (c, calls) (c1, calls)" using driven_connection [OF Cons.prems(1) erase_io_step rst] by blast
      then show ?thesis using SendBytes Some r cont by simp
    qed
  next
    case (SendData k framehd len padlen)
    obtain call where call: "calls k = Some call" "connection call = Some self"
      using Cons.prems(2) SendData unfolding sources_ok_def by (meson list.set_intros(1))
    show ?thesis
    proof (cases "h2_send_data_callback L framehd len padlen call c w")
      case None
      then show ?thesis using SendData call by simp
    next
      case (Some r)
      obtain rv call1 c1 w1 where r: "r = (rv, call1, c1, w1)" by (metis surj_pair)
      have e: "erase_io c1 = erase_io c" "call_core call1 = call_core call"
        using send_data_callback_erase_io [of L framehd len padlen call c w rv call1 c1 w1] Some r by auto
      have d1: "driven L self (c, calls) (c1, calls)" by (rule driven_connection [OF Cons.prems(1) erase_io_step [OF e(1)] rst])
      then have "driven L self (c1, calls) (c1, calls(k \<mapsto> call1))"
        by (intro driven_call [of L self c1 calls k call call1, OF _ call e(2)]) (simp add: driven_def)
      then have "driven L self (c, calls) (c1, calls(k \<mapsto> call1))" using d1 driven_trans by blast
      then show ?thesis using SendData Some r call cont by (simp add: Let_def)
    qed
  next
    case (SendClosed sid code)
    have "safe (\<lambda>(rv, c', calls', w'). driven L self (c, calls) (c', calls')) (case x of (c1, calls1) \<Rightarrow> run_send_events L self evs c1 calls1 w)"
      if "driven L self (c, calls) x" for x using that cont by (cases x) simp
    then show ?thesis unfolding SendClosed run_send_events.simps
      by (rule safe_and_then [OF returns_safe [OF stream_close_driven [OF laws Cons.prems(1)]]])
  qed
qed

lemma session_send_driven:
  assumes "session_laws L" "adv_ok L adv" "driving_ok L self c calls" "sources_ok self evs calls"
  shows "safe (\<lambda>(rv, c', calls', w'). driven L self (c, calls) (c', calls')) (nghttp2_session_send L self (evs, adv, rv0) c calls w)"
proof (cases "run_send_events L self evs c calls w")
  case (Ok r)
  obtain rv c1 calls1 w1 where r: "r = (rv, c1, calls1, w1)" by (metis surj_pair)
  have d: "driven L self (c, calls) (c1, calls1)"
    using run_send_events_driven [OF assms(1,3,4), of w] Ok r by simp
  then have "driven L self (c1, calls1) (c1\<lparr>h2_session := map_option adv (h2_session c1)\<rparr>, calls1)"
    by (intro advance_driven [OF _ assms(2)]) (simp add: driven_def)
  then show ?thesis using Ok r driven_trans [OF d] by (simp add: nghttp2_session_send_def)
qed (use run_send_events_driven [OF assms(1,3,4), of w] in \<open>simp_all add: nghttp2_session_send_def\<close>)

text \<open>A call pointer handed down by the caller.\<close>

definition caller_ok :: "conn_id \<Rightarrow> call_id option \<Rightarrow> call_store \<Rightarrow> bool" where
  "caller_ok self this calls \<longleftrightarrow> (\<forall>k. this = Some k \<longrightarrow> (\<exists>call. calls k = Some call \<and> connection call = Some self))"

lemma caller_ok_kept:
  assumes "caller_ok self this calls" "calls_kept self calls calls'"
  shows "caller_ok self this calls'"
  unfolding caller_ok_def
proof (intro allI impI)
  fix k assume "this = Some k"
  then obtain call where c: "calls k = Some call" "connection call = Some self" using assms(1) by (auto simp: caller_ok_def)
  obtain call' where "calls' k = Some call'" "call_fixed call' = call_fixed call" using calls_keptD [OF assms(2) c(1)] by blast
  then show "\<exists>call. calls' k = Some call \<and> connection call = Some self" using c(2) by (simp add: call_fixed_def)
qed

lemma start_end_step: "conn_step L c (start_of_send this d c)" "conn_step L c (end_of_send c)"
  by (simp_all add: conn_step_def conn_kept_def conn_owner_def grpc_call_from_stream_id_def fun_eq_iff start_of_send_def end_of_send_def)

lemma note_send_failure_core [simp]: "call_core (note_send_failure c call) = call_core call"
  by (simp add: note_send_failure_def Let_def)

lemma finish_send_driven:
  assumes "rst_laws L" "driving_ok L self c calls" "caller_ok self this calls"
  shows "safe (\<lambda>(rv', c', calls', w'). driven L self (c, calls) (c', calls') \<and> rv' = rv \<and> (rv \<noteq> 0 \<longrightarrow> h2_dead c')
    \<and> (rv = 0 \<longrightarrow> h2_dead c' = h2_dead c)) (finish_send L this rv c calls w)"
proof -
  define c1 where "c1 = (if rv \<noteq> 0 then mark_connection_dead L rv c else c)"
  have "conn_step L c c1" by (simp add: c1_def mark_dead_conn_step)
  then have "conn_step L c (end_of_send c1)" using start_end_step(2) by (rule conn_step_trans)
  then have d: "driven L self (c, calls) (end_of_send c1, calls)" by (rule driven_connection [OF assms(2) _ assms(1)])
  have dead: "rv \<noteq> 0 \<longrightarrow> h2_dead (end_of_send c1)" "rv = 0 \<longrightarrow> h2_dead (end_of_send c1) = h2_dead c"
    by (simp_all add: c1_def end_of_send_def)
  show ?thesis
  proof (cases this)
    case None
    then show ?thesis using d dead by (simp add: finish_send_def c1_def)
  next
    case (Some k)
    then obtain call where call: "calls k = Some call" "connection call = Some self" using assms(3) by (auto simp: caller_ok_def)
    have "driven L self (end_of_send c1, calls) (end_of_send c1, calls(k \<mapsto> note_send_failure c1 call))"
      using d by (intro driven_call [of L self _ calls k call, OF _ call]) (simp_all add: driven_def)
    then have "driven L self (c, calls) (end_of_send c1, calls(k \<mapsto> note_send_failure c1 call))" using d driven_trans by blast
    moreover have "finish_send L this rv c calls w
        = (if rv = 0 then Ok (rv, end_of_send c1, calls, w) else Ok (rv, end_of_send c1, calls(k \<mapsto> note_send_failure c1 call), w))"
      using Some call by (simp add: finish_send_def c1_def Let_def)
    ultimately show ?thesis using d dead by simp
  qed
qed

lemma flush_after_send_erase_io:
  "flush_after_send L rv c w = Some (rv', c', w') \<Longrightarrow> erase_io c' = erase_io c"
  by (auto simp: flush_after_send_def dest!: flush_erase_io split: if_splits option.splits)

lemma send_pending_draining:
  assumes "send_pending_h2_frames_with_deadline L self (evs, adv, rv0) this fb c calls w = Ok (rv, c', calls', w')"
  shows "h2_draining c' = h2_draining c"
proof (cases "h2_session c = None \<or> h2_dead c \<or> h2_fd c < 0")
  case True
  then show ?thesis using assms unfolding send_pending_refused [OF True] by simp
next
  case False
  obtain d r c1 calls1 w1 rv1 c2 w2 where
    sess: "nghttp2_session_send L self (evs, adv, rv0) (start_of_send this d c) calls w = Ok (r, c1, calls1, w1)"
    and fl: "flush_after_send L r c1 w1 = Some (rv1, c2, w2)"
    and fin: "finish_send L this rv1 c2 calls1 w2 = Ok (rv, c', calls', w')"
    using send_pending_parts [OF assms] False by blast
  obtain r0 c0 where run: "run_send_events L self evs (start_of_send this d c) calls w = Ok (r0, c0, calls1, w1)"
    "c1 = c0\<lparr>h2_session := map_option adv (h2_session c0)\<rparr>"
    using sess by (auto simp: nghttp2_session_send_def split: res.splits)
  have "h2_draining c1 = h2_draining c"
    using erase_send_fields(4) [OF run_send_events_erase_io [OF run(1)]] run(2) by (simp add: start_of_send_def)
  moreover have "h2_draining c2 = h2_draining c1"
    by (rule erase_send_fields(4) [OF erase_io_send [OF flush_after_send_erase_io [OF fl]]])
  moreover have "h2_draining c' = h2_draining c2"
    using fin by (auto simp: finish_send_def Let_def end_of_send_def split: option.splits if_splits)
  ultimately show ?thesis by simp
qed

text \<open>The result of \<open>send_pending_h2_frames\<close>: the invariant, and a failure leaves a connection that cannot do I/O.\<close>

definition sent_ok ::
    "'ss lib \<Rightarrow> conn_id \<Rightarrow> 'ss h2_connection \<times> call_store \<Rightarrow> int \<times> 'ss h2_connection \<times> call_store \<times> io_world \<Rightarrow> bool" where
  "sent_ok L self s r \<longleftrightarrow>
     (case r of (rv, c', calls', w') \<Rightarrow>
        driven_inv L self s (c', calls') \<and> (rv \<noteq> 0 \<longrightarrow> \<not> connection_io_allowed (Some c')) \<and> (rv = 0 \<longrightarrow> connection_io_allowed (Some c')))"

lemma send_pending_driven:
  assumes laws: "session_laws L" "adv_ok L adv" and drv: "driving_ok L self c calls"
    and src: "sources_ok self evs calls" and caller: "caller_ok self this calls"
  shows "safe (\<lambda>(rv, c', calls', w'). driven L self (c, calls) (c', calls') \<and> (rv = 0) = connection_io_allowed (Some c'))
    (send_pending_h2_frames_with_deadline L self (evs, adv, rv0) this fb c calls w)"
proof (cases "h2_session c = None \<or> h2_dead c \<or> h2_fd c < 0")
  case True
  have "\<not> connection_io_allowed (Some c)" using True by (auto simp: connection_io_allowed_def)
  then show ?thesis unfolding send_pending_refused [OF True] using drv by (simp add: driven_def)
next
  case False
  have rst: "rst_laws L" using laws by (simp add: session_laws_def)
  define d where "d = (case this of None \<Rightarrow> fb | Some k \<Rightarrow> deadline_abs_us (the (calls k)))"
  have d0: "driven L self (c, calls) (start_of_send this d c, calls)"
    by (rule driven_connection [OF drv start_end_step(1) rst])
  have ok0: "driving_ok L self (start_of_send this d c) calls" using d0 by (simp add: driven_def)
  have this': "\<not> (case this of None \<Rightarrow> True | Some k \<Rightarrow> calls k \<noteq> None) \<longleftrightarrow> False"
    using caller by (auto simp: caller_ok_def split: option.splits)
  have eq: "send_pending_h2_frames_with_deadline L self (evs, adv, rv0) this fb c calls w =
      (case nghttp2_session_send L self (evs, adv, rv0) (start_of_send this d c) calls w of
         Blocked \<Rightarrow> Blocked | Fault \<Rightarrow> Fault
       | Ok (rv, c, calls, w) \<Rightarrow> (case flush_after_send L rv c w of None \<Rightarrow> Blocked
            | Some (rv, c, w) \<Rightarrow> finish_send L this rv c calls w))"
    using False this' unfolding send_pending_h2_frames_with_deadline_def d_def by auto
  note s = session_send_driven [OF laws ok0 src, of rv0 w]
  show ?thesis
  proof (cases "nghttp2_session_send L self (evs, adv, rv0) (start_of_send this d c) calls w")
    case (Ok r)
    obtain rv1 c1 calls1 w1 where r: "r = (rv1, c1, calls1, w1)" by (metis surj_pair)
    have d1: "driven L self (c, calls) (c1, calls1)" using s Ok r driven_trans [OF d0] by simp
    show ?thesis
    proof (cases "flush_after_send L rv1 c1 w1")
      case None
      then show ?thesis using eq Ok r by simp
    next
      case (Some f)
      obtain rv2 c2 w2 where f: "f = (rv2, c2, w2)" by (metis surj_pair)
      have "driven L self (c1, calls1) (c2, calls1)"
        using d1 flush_after_send_erase_io [of L rv1 c1 w1] Some f
        by (intro driven_connection [OF _ erase_io_step rst]) (simp_all add: driven_def)
      then have d2: "driven L self (c, calls) (c2, calls1)" using d1 driven_trans by blast
      have "h2_dead c2 = h2_dead c"
        using session_send_dead [of L self evs adv rv0 "start_of_send this d c" calls w rv1 c1 calls1 w1] Ok r
          erase_send_fields(1) [OF erase_io_send [OF flush_after_send_erase_io [of L rv1 c1 w1 rv2 c2 w2]]] Some f
        by (simp add: start_of_send_def)
      then have alive: "\<not> h2_dead c2" using False by simp
      have "driving_ok L self c2 calls1" "caller_ok self this calls1"
        using d2 caller_ok_kept [OF caller] by (auto simp: driven_def)
      from finish_send_driven [OF rst this, of rv2 w2] have
        "safe (\<lambda>(rv, c', calls', w'). driven L self (c, calls) (c', calls') \<and> (rv = 0) = connection_io_allowed (Some c'))
           (finish_send L this rv2 c2 calls1 w2)"
      proof (rule safe_mono, clarify)
        fix c3 calls3 w3
        assume a: "driven L self (c2, calls1) (c3, calls3)" "rv2 \<noteq> 0 \<longrightarrow> h2_dead c3" "rv2 = 0 \<longrightarrow> h2_dead c3 = h2_dead c2"
        have d3: "driven L self (c, calls) (c3, calls3)" using d2 a(1) driven_trans by blast
        have "h2_session c3 \<noteq> None" "0 \<le> h2_fd c3" using d3 False by (auto simp: driven_def conn_kept_def conn_owner_def)
        then show "driven L self (c, calls) (c3, calls3) \<and> (rv2 = 0) = connection_io_allowed (Some c3)"
          using d3 a(2,3) alive by (auto simp: connection_io_allowed_def)
      qed
      then show ?thesis using eq Ok r Some f by simp
    qed
  qed (use eq s in simp_all)
qed

lemma send_pending_safe:
  assumes laws: "session_laws L" "adv_ok L adv" and inv: "conn_inv L self c calls"
    and src: "sources_ok self evs calls" and caller: "caller_ok self this calls"
  shows "safe (sent_ok L self (c, calls)) (send_pending_h2_frames_with_deadline L self (evs, adv, rv0) this fb c calls w)"
proof (cases "h2_session c = None \<or> h2_dead c \<or> h2_fd c < 0")
  case True
  have "\<not> connection_io_allowed (Some c)" using True by (auto simp: connection_io_allowed_def)
  then show ?thesis unfolding send_pending_refused [OF True] using driven_inv_refl [OF inv] by (simp add: sent_ok_def)
next
  case False
  have drv: "driving_ok L self c calls" "calls_wf calls" using inv False streams_driving by (auto simp: conn_inv_def)
  show ?thesis
    by (rule safe_mono [OF send_pending_driven [OF laws drv(1) src caller]]) (use drv(2) driven_driven_inv in \<open>auto simp: sent_ok_def\<close>)
qed

section \<open>Properties\<close>

text \<open>
  C25.  No callback reaches a freed call.  Given nghttp2's documented handling of stream user data, feeding
  any received bytes to the session of a live, well-formed connection, whatever callbacks they cause and in
  whatever order, never dereferences a call that is not in the store; afterwards the active list is again
  exactly the registered calls of the connection, every pointer the session holds is one of them unless the
  connection died, the ownership fields of the connection and every call of another connection are unchanged.
\<close>

theorem receive_never_dangles:
  assumes "session_laws L" "adv_ok L adv" "conn_inv L self c calls" "connection_io_allowed (Some c)"
  shows "nghttp2_session_mem_recv L G self (evs, adv, rv0) c calls \<noteq> Fault
    \<and> (\<forall>rv c' calls'. nghttp2_session_mem_recv L G self (evs, adv, rv0) c calls = Ok (rv, c', calls') \<longrightarrow>
         conn_inv L self c' calls' \<and> conn_kept c c' \<and> calls_kept self calls calls')"
proof -
  have "\<not> h2_dead c" "h2_session c \<noteq> None" using assms(4) by (auto simp: connection_io_allowed_def)
  from mem_recv_safe [OF assms(1-3) this, of G evs rv0] show ?thesis
    by (cases "nghttp2_session_mem_recv L G self (evs, adv, rv0) c calls") (auto simp: driven_inv_def)
qed

text \<open>A session that is nothing but its table of user data, and one registered call on it.\<close>

definition table_lib :: "(int \<Rightarrow> call_id option) lib" where
  "table_lib = \<lparr>
     nghttp2_session_get_stream_user_data = (\<lambda>ss sid. ss sid),
     nghttp2_session_set_stream_user_data = (\<lambda>ss sid v. (ss(sid := v), 0)),
     nghttp2_submit_rst_stream = (\<lambda>ss sid code. (ss, 0)),
     nghttp2_submit_request = (\<lambda>ss hs k. (ss, 1)),
     nghttp2_is_fatal = (\<lambda>rv. rv < -900),
     nghttp2_strerror = (\<lambda>_. ''error''),
     libc_strerror = (\<lambda>_. ''error''),
     zstr_max_len = 9223372036854775807\<rparr>"

definition table_connection :: "(int \<Rightarrow> call_id option) h2_connection" where
  "table_connection = \<lparr>
     h2_fd = 3, h2_tls = False, h2_persistent = True, h2_ssl = False, h2_session = Some (\<lambda>sid. if sid = 1 then Some 4 else None),
     h2_authority = ''localhost'', h2_dead = False, h2_draining = False, h2_detached_from_cache = False,
     h2_active_stream_count = 1, h2_stream_owner_count = 1, h2_active_streams = Some 4,
     h2_current_io_call = None, h2_current_read_call = None, h2_current_write_deadline_abs_us = 0,
     h2_current_write_timed_out = False, h2_write_buffer = [], h2_write_buffer_cap = 0,
     h2_write_coalescing = False, h2_recv_scratch_len = 0, h2_setup_deadline_abs_us = 0,
     h2_setup_timed_out = False, h2_last_error = 0, h2_last_io_errno = 0, h2_last_ssl_error = 0,
     h2_tls_verify_result = 0, h2_last_error_detail = [], h2_negotiated_protocol = [],
     h2_last_goaway_error_code = 0, h2_last_goaway_stream_id = 0\<rparr>"

definition table_call :: grpc_call where
  "table_call = grpc_call_zero\<lparr>connection := Some 7, stream_id := 1, stream_registered := True, connection_owned := True,
     decode_response_incrementally := True, direct_response_payload := True, queue_response_payloads := True,
     max_response_messages := 1, max_receive_message_bytes := 100, max_response_metadata_bytes := 100,
     grpc_status := -1, http_status := -1\<rparr>"

lemma table_laws: "session_laws table_lib" "adv_ok table_lib id"
  by (auto simp: session_laws_def user_data_laws_def rst_laws_def table_lib_def adv_ok_def)

lemma table_user_data: "grpc_call_from_stream_id table_lib table_connection sid = (if sid = 1 then Some 4 else None)"
  by (simp add: grpc_call_from_stream_id_def table_lib_def table_connection_def)

lemma table_inv: "conn_inv table_lib 7 table_connection [4 \<mapsto> table_call]"
proof -
  have "listed 7 table_call" "stream_id table_call = 1" "next_active_stream table_call = None" "direct_call table_call" "request_ok table_call"
    by (simp_all add: table_call_def grpc_call_zero_def listed_def direct_call_def request_ok_def)
  moreover have "h2_active_streams table_connection = Some 4" "h2_active_stream_count table_connection = 1"
    by (simp_all add: table_connection_def)
  ultimately have "registry_ok 7 table_connection [4 \<mapsto> table_call] [4]" "calls_wf [4 \<mapsto> table_call]"
    "user_data_ok table_lib 7 table_connection [4 \<mapsto> table_call]"
    by (auto simp: registry_ok_def calls_wf_def user_data_ok_def table_user_data split: if_splits)
  then show ?thesis by (auto simp: conn_inv_def streams_ok_def)
qed

theorem receive_never_dangles_witness:
  "\<exists>c' calls'. nghttp2_session_mem_recv table_lib example_globals 7 ([RecvClosed 1 0, RecvClosed 1 0], id, 9)
      table_connection [4 \<mapsto> table_call] = Ok (9, c', calls')
    \<and> conn_inv table_lib 7 c' calls'"
proof -
  have "connection_io_allowed (Some table_connection)" by (simp add: connection_io_allowed_def table_connection_def)
  note t = receive_never_dangles [OF table_laws table_inv this, of example_globals "[RecvClosed 1 0, RecvClosed 1 0]" 9]
  define c1 where "c1 = table_connection\<lparr>h2_session := Some Map.empty, h2_active_streams := None, h2_active_stream_count := 0\<rparr>"
  define calls1 :: call_store where "calls1 = [4 \<mapsto> (note_stream_closed 0 table_call)\<lparr>next_active_stream := None, stream_registered := False\<rparr>]"
  have s1: "on_stream_close_callback table_lib 7 1 0 table_connection [4 \<mapsto> table_call] = Ok (c1, calls1)"
    by (simp add: on_stream_close_callback_def grpc_call_from_stream_id_def unregister_grpc_call_stream_def
        unlink_active_stream_def drop_stream_user_data_def note_stream_closed_def table_call_def grpc_call_zero_def
        table_connection_def table_lib_def c1_def calls1_def fun_eq_iff)
  have s2: "on_stream_close_callback table_lib 7 1 0 c1 calls1 = Ok (c1, calls1)"
    by (simp add: on_stream_close_callback_def grpc_call_from_stream_id_def c1_def table_lib_def)
  have "h2_session table_connection \<noteq> None" by (simp add: table_connection_def)
  then have "nghttp2_session_mem_recv table_lib example_globals 7 ([RecvClosed 1 0, RecvClosed 1 0], id, 9)
      table_connection [4 \<mapsto> table_call] = Ok (9, c1\<lparr>h2_session := map_option id (h2_session c1)\<rparr>, calls1)"
    using s1 s2 by (simp add: nghttp2_session_mem_recv_def run_recv_event_def)
  then show ?thesis using t by blast
qed

end
