(* ===== verification/Connection_Setup.thy ===== *)
theory Connection_Setup
  imports Session_Driver Transport_Core
begin

text \<open>
  Opening a connection: \<open>connect_tcp\<close>, \<open>configure_tls_connection\<close> and \<open>create_h2_connection\<close> of
  \<open>src/src/transport.c\<close> and the certificate helpers of \<open>src/src/tls_config.c\<close>.  What the resolver, the
  kernel, OpenSSL and nghttp2 answer are arguments; what the code asks OpenSSL to enforce is recorded in
  \<open>tls_policy\<close>.
\<close>

section \<open>TCP\<close>

datatype connect_outcome =
    ConnectOk
  | ConnectInProgress "int option"
  | ConnectErrno int

text \<open>
  One resolved address: the descriptor \<open>socket\<close> returns (-1 on failure), whether \<open>fcntl\<close> succeeds, and
  what \<open>connect\<close> does.  \<open>ConnectInProgress so\<close> carries what \<open>getsockopt(SO_ERROR)\<close> will report
  (\<open>None\<close> when that call fails).
\<close>

record address =
  a_fd :: int
  a_nonblock :: bool
  a_connect :: connect_outcome

abbreviation (input) EINPROGRESS :: int where "EINPROGRESS \<equiv> 115"

fun connect_loop :: "nat \<Rightarrow> address list \<Rightarrow> io_world \<Rightarrow> (int \<times> io_world) option" where
  "connect_loop deadline [] w = Some (-1, w)"
| "connect_loop deadline (a # as) w =
     (let give_up = (\<lambda>w.
            if 0 < deadline
            then (case monotonic_us w of
                    None \<Rightarrow> None
                  | Some (now, w) \<Rightarrow> if deadline \<le> now then Some (-1, w) else connect_loop deadline as w)
            else connect_loop deadline as w)
      in if a_fd a = -1 \<or> \<not> a_nonblock a then connect_loop deadline as w
         else case a_connect a of
                ConnectOk \<Rightarrow> Some (a_fd a, w)
              | ConnectErrno e \<Rightarrow> give_up (set_errno e w)
              | ConnectInProgress so \<Rightarrow>
                  (case poll_fd_until_deadline deadline (set_errno EINPROGRESS w) of
                     None \<Rightarrow> None
                   | Some (r, w) \<Rightarrow>
                       if r = 0 \<and> so = Some 0 then Some (a_fd a, w)
                       else give_up (case so of
                              Some e \<Rightarrow> if r = 0 \<and> e \<noteq> 0 then set_errno e w else w
                            | None \<Rightarrow> w)))"

text \<open>\<open>None\<close> for the addresses: \<open>getaddrinfo\<close> failed.\<close>

definition connect_tcp :: "address list option \<Rightarrow> nat \<Rightarrow> io_world \<Rightarrow> (int \<times> io_world) option" where
  "connect_tcp addrs deadline w =
     (case addrs of
        None \<Rightarrow> Some (-1, w)
      | Some as \<Rightarrow>
          if 0 < deadline
          then (case monotonic_us w of
                  None \<Rightarrow> None
                | Some (now, w) \<Rightarrow>
                    if deadline \<le> now then Some (-1, set_errno ETIMEDOUT w) else connect_loop deadline as w)
          else connect_loop deadline as w)"

section \<open>TLS\<close>

record 'x tls_env =
  te_ctx_new :: bool
  te_set_min_proto :: bool
  te_default_paths :: bool
  te_bio_new :: "string \<Rightarrow> bool"
  te_pem_certs :: "string \<Rightarrow> 'x list"
  te_pem_key :: "string \<Rightarrow> bool"
  te_store_add :: "'x \<Rightarrow> bool"
  te_use_certificate :: "'x \<Rightarrow> bool"
  te_use_key :: bool
  te_check_key :: "'x \<Rightarrow> bool"
  te_add_chain :: "'x \<Rightarrow> bool"
  te_ssl_new :: bool
  te_alpn_protos :: bool
  te_sni :: "string \<Rightarrow> bool"
  te_set1_host :: "string \<Rightarrow> bool"
  te_set_fd :: bool
  te_nonblock :: bool
  te_connect :: "int list"
  te_verify_result :: int
  te_verify_string :: "int \<Rightarrow> string"
  te_err_string :: "string option"
  te_alpn :: "string option"

text \<open>What OpenSSL has been told to enforce when the handshake starts.\<close>

record 'x tls_policy =
  tp_min_tls12 :: bool
  tp_verify_peer :: bool
  tp_default_roots :: bool
  tp_roots :: "'x list"
  tp_certificate :: "'x list"
  tp_sni :: "string option"
  tp_host :: "string option"

definition no_policy :: "'x tls_policy" where
  "no_policy = \<lparr>tp_min_tls12 = False, tp_verify_peer = False, tp_default_roots = False, tp_roots = [],
     tp_certificate = [], tp_sni = None, tp_host = None\<rparr>"

abbreviation (input) X509_V_OK :: int where "X509_V_OK \<equiv> 0"

definition add_pem_certs_to_store :: "'x tls_env \<Rightarrow> string \<Rightarrow> 'x list option" where
  "add_pem_certs_to_store E pem =
     (if INT_MAX < int (length pem) then None
      else if \<not> te_bio_new E pem then None
      else (let loaded = filter (te_store_add E) (te_pem_certs E pem)
            in if 0 < length loaded then Some loaded else None))"

definition grpc_lite_tls_configure_roots :: "'x tls_env \<Rightarrow> string \<Rightarrow> 'x list option" where
  "grpc_lite_tls_configure_roots E pem = (if pem = [] then None else add_pem_certs_to_store E pem)"

text \<open>The leaf certificate followed by the chain, or \<open>None\<close> on failure.\<close>

definition grpc_lite_tls_configure_client_certificate :: "'x tls_env \<Rightarrow> string \<Rightarrow> string \<Rightarrow> 'x list option" where
  "grpc_lite_tls_configure_client_certificate E cert key =
     (if INT_MAX < int (length cert) \<or> INT_MAX < int (length key) then None
      else if \<not> te_bio_new E cert \<or> \<not> te_bio_new E key then None
      else case te_pem_certs E cert of
             [] \<Rightarrow> None
           | x509 # chain \<Rightarrow>
               if \<not> te_pem_key E key then None
               else if te_use_certificate E x509 \<and> te_use_key E \<and> te_check_key E x509
                 then (if list_all (te_add_chain E) chain then Some (x509 # chain) else None)
               else None)"

definition grpc_lite_tls_configure_peer_name ::
    "'x tls_env \<Rightarrow> string \<Rightarrow> 'x tls_policy \<Rightarrow> string + 'x tls_policy" where
  "grpc_lite_tls_configure_peer_name E verify_name P =
     (if verify_name = [] then Inl ''invalid TLS verification host''
      else if \<not> te_sni E verify_name then Inl ''failed to configure TLS SNI host''
      else if \<not> te_set1_host E verify_name then Inl ''failed to configure TLS verification host''
      else Inr (P\<lparr>tp_sni := Some verify_name, tp_host := Some verify_name\<rparr>))"

text \<open>
  The handshake loop.  Zero in \<open>te_connect\<close> is success, any other number the \<open>SSL_get_error\<close> code.
\<close>

fun handshake :: "'ss lib \<Rightarrow> 'x tls_env \<Rightarrow> nat \<Rightarrow> int list \<Rightarrow> 'ss h2_connection \<Rightarrow> io_world
    \<Rightarrow> (bool \<times> 'ss h2_connection \<times> io_world) option" where
  "handshake L E deadline [] c w = None"
| "handshake L E deadline (r # rs) c w =
     (if r = 0 then Some (True, c, w)
      else
        (let c = c\<lparr>h2_last_ssl_error := r\<rparr>
         in if r = SSL_ERROR_WANT_READ \<or> r = SSL_ERROR_WANT_WRITE then
              (case poll_fd_until_deadline deadline w of
                 None \<Rightarrow> None
               | Some (p, w) \<Rightarrow>
                   if p = 0 then handshake L E deadline rs c w
                   else (let c = c\<lparr>h2_last_io_errno := w_errno w\<rparr>
                         in Some (False,
                              if w_errno w = ETIMEDOUT then set_connection_error_detail ''HTTP/2 transport deadline exceeded'' c
                              else set_connection_error_detail (''TLS handshake poll failed: '' @ c_str (libc_strerror L (w_errno w))) c, w)))
            else
              (let c = c\<lparr>h2_tls_verify_result := te_verify_result E\<rparr>
               in Some (False,
                    if h2_tls_verify_result c \<noteq> X509_V_OK
                    then set_connection_error_detail (''TLS certificate verification failed: '' @ c_str (te_verify_string E (te_verify_result E))) c
                    else (case te_err_string E of
                            Some err \<Rightarrow> set_connection_error_detail err c
                          | None \<Rightarrow> set_connection_error_detail (''TLS handshake failed: SSL_get_error='' @ dec_int r) c), w))))"

text \<open>After a completed handshake: the certificate must have verified and the protocol be h2.\<close>

definition check_handshake :: "'x tls_env \<Rightarrow> 'ss h2_connection \<Rightarrow> bool \<times> 'ss h2_connection" where
  "check_handshake E c =
     (let c = c\<lparr>h2_tls_verify_result := te_verify_result E\<rparr>
      in if h2_tls_verify_result c \<noteq> X509_V_OK
         then (False, set_connection_error_detail (''TLS certificate verification failed: '' @ c_str (te_verify_string E (te_verify_result E))) c)
         else if te_alpn E \<noteq> Some ''h2''
         then (False,
               case te_alpn E of
                 Some (x # xs) \<Rightarrow>
                   (let c = c\<lparr>h2_negotiated_protocol := c_str (take 15 (x # xs))\<rparr>
                    in set_connection_error_detail (''TLS ALPN did not negotiate h2: '' @ h2_negotiated_protocol c) c)
               | _ \<Rightarrow> set_connection_error_detail ''TLS ALPN did not negotiate h2'' c)
         else (True, c\<lparr>h2_negotiated_protocol := ''h2'', h2_tls := True\<rparr>))"

text \<open>A PEM argument counts when it is neither NULL nor empty.\<close>

definition given :: "string option \<Rightarrow> bool" where
  "given s \<longleftrightarrow> (case s of None \<Rightarrow> False | Some x \<Rightarrow> x \<noteq> [])"

definition tls_roots :: "'x tls_env \<Rightarrow> string option \<Rightarrow> 'x tls_policy \<Rightarrow> string + 'x tls_policy" where
  "tls_roots E root_certs P =
     (if given root_certs
      then (case grpc_lite_tls_configure_roots E (the root_certs) of
              None \<Rightarrow> Inl ''failed to load root certificates''
            | Some rs \<Rightarrow> Inr (P\<lparr>tp_roots := rs\<rparr>))
      else if \<not> te_default_paths E then Inl ''failed to load default root certificates''
      else Inr (P\<lparr>tp_default_roots := True\<rparr>))"

definition tls_client :: "'x tls_env \<Rightarrow> string option \<Rightarrow> string option \<Rightarrow> 'x tls_policy \<Rightarrow> string + 'x tls_policy" where
  "tls_client E cert_chain private_key P =
     (if given cert_chain \<noteq> given private_key
      then Inl ''client certificate and private key must be configured together''
      else if given cert_chain \<and> given private_key
      then (case grpc_lite_tls_configure_client_certificate E (the cert_chain) (the private_key) of
              None \<Rightarrow> Inl ''failed to configure client certificate''
            | Some cs \<Rightarrow> Inr (P\<lparr>tp_certificate := cs\<rparr>))
      else Inr P)"

text \<open>The steps before the handshake: \<open>Inl\<close> is the error detail.\<close>

definition tls_policy_of ::
    "'x tls_env \<Rightarrow> string \<Rightarrow> string option \<Rightarrow> string option \<Rightarrow> string option \<Rightarrow> string + 'x tls_policy" where
  "tls_policy_of E verify_name root_certs cert_chain private_key =
     (if \<not> te_ctx_new E then Inl ''failed to create SSL_CTX''
      else if \<not> te_set_min_proto E then Inl ''failed to set TLS minimum protocol version''
      else case tls_roots E root_certs (no_policy\<lparr>tp_min_tls12 := True, tp_verify_peer := True\<rparr>) of
             Inl e \<Rightarrow> Inl e
           | Inr P \<Rightarrow>
               (case tls_client E cert_chain private_key P of
                  Inl e \<Rightarrow> Inl e
                | Inr P \<Rightarrow>
                    if \<not> te_ssl_new E then Inl ''failed to create SSL object''
                    else if \<not> te_alpn_protos E then Inl ''failed to configure TLS ALPN h2''
                    else grpc_lite_tls_configure_peer_name E verify_name P))"

definition configure_tls_connection ::
    "'ss lib \<Rightarrow> 'x tls_env \<Rightarrow> string \<Rightarrow> string option \<Rightarrow> string option \<Rightarrow> string option \<Rightarrow> string option \<Rightarrow> nat
      \<Rightarrow> 'ss h2_connection \<Rightarrow> io_world \<Rightarrow> (('x tls_policy) option \<times> 'ss h2_connection \<times> io_world) option" where
  "configure_tls_connection L E host tls_verify_name root_certs cert_chain private_key deadline c w =
     (let verify_name = (case tls_verify_name of Some (x # xs) \<Rightarrow> x # xs | _ \<Rightarrow> host);
          fail = (\<lambda>e. Some (None, set_connection_error_detail e c, w))
      in case tls_policy_of E verify_name root_certs cert_chain private_key of
           Inl e \<Rightarrow> fail e
         | Inr P \<Rightarrow>
             if \<not> te_set_fd E then fail ''failed to attach TLS socket''
             else if \<not> te_nonblock E then fail ''failed to set TLS socket nonblocking''
             else
               (case handshake L E deadline (te_connect E) (c\<lparr>h2_ssl := True\<rparr>) w of
                  None \<Rightarrow> None
                | Some (done, c, w) \<Rightarrow>
                    if \<not> done then Some (None, c, w)
                    else (case check_handshake E c of (ok, c) \<Rightarrow> Some (if ok then Some P else None, c, w))))"

section \<open>The HTTP/2 session\<close>

record 'ss h2_env =
  he_callbacks :: bool
  he_client_new :: "'ss option"
  he_submit_settings :: "'ss \<Rightarrow> (nat \<times> u32) list \<Rightarrow> 'ss \<times> int"
  he_submit_window_update :: "'ss \<Rightarrow> u32 \<Rightarrow> 'ss \<times> int"

record channel_target =
  ct_host :: string
  ct_port :: int
  ct_authority :: "string option"
  ct_tls_verify_name :: "string option"
  ct_use_tls :: bool
  ct_root_certs :: "string option"
  ct_cert_chain :: "string option"
  ct_private_key :: "string option"

text \<open>The answers the environment gives while a connection is set up.\<close>

record ('ss, 'x) setup_env =
  su_addresses :: "address list option"
  su_tls :: "'x tls_env"
  su_nonblock :: bool
  su_h2 :: "'ss h2_env"
  su_preface :: "send_event list \<times> ('ss \<Rightarrow> 'ss) \<times> int"

definition zero_connection :: "bool \<Rightarrow> nat \<Rightarrow> int \<Rightarrow> 'ss h2_connection" where
  "zero_connection persistent cap fd = \<lparr>
     h2_fd = fd, h2_tls = False, h2_persistent = persistent, h2_ssl = False, h2_session = None,
     h2_authority = [], h2_dead = False, h2_draining = False, h2_detached_from_cache = False,
     h2_active_stream_count = 0, h2_stream_owner_count = 0, h2_active_streams = None,
     h2_current_io_call = None, h2_current_read_call = None, h2_current_write_deadline_abs_us = 0,
     h2_current_write_timed_out = False, h2_write_buffer = [], h2_write_buffer_cap = cap,
     h2_write_coalescing = False, h2_recv_scratch_len = 0, h2_setup_deadline_abs_us = 0,
     h2_setup_timed_out = False, h2_last_error = 0, h2_last_io_errno = 0, h2_last_ssl_error = 0,
     h2_tls_verify_result = X509_V_OK, h2_last_error_detail = [], h2_negotiated_protocol = [],
     h2_last_goaway_error_code = 0, h2_last_goaway_stream_id = 0\<rparr>"

text \<open>The SETTINGS entries under their identifiers of RFC 9113 (ENABLE\_PUSH is 2, and so on).\<close>

definition settings_entries :: "module_globals \<Rightarrow> (nat \<times> u32) list" where
  "settings_entries G =
     [(2, 0), (4, effective_http2_window_size (http2_stream_window_size G)),
      (5, effective_http2_max_frame_size (http2_max_frame_size G)),
      (6, effective_http2_max_header_list_size (http2_max_header_list_size G))]"

definition submit_preface :: "'ss h2_env \<Rightarrow> module_globals \<Rightarrow> 'ss \<Rightarrow> string + 'ss" where
  "submit_preface H G ss =
     (let window = effective_http2_window_size (http2_connection_window_size G);
          (ss, rv) = he_submit_settings H ss (settings_entries G)
      in if rv \<noteq> 0 then Inl ''failed to submit HTTP/2 settings''
         else if GRPC_LITE_HTTP2_DEFAULT_WINDOW_SIZE < uint window then
           (let (ss, rv) = he_submit_window_update H ss (window - word_of_int GRPC_LITE_HTTP2_DEFAULT_WINDOW_SIZE)
            in if rv \<noteq> 0 then Inl ''failed to expand HTTP/2 connection receive window'' else Inr ss)
         else Inr ss)"

text \<open>Everything up to the first send; \<open>Inl\<close> is the error message, after which the object is gone.\<close>

definition open_session ::
    "'ss h2_env \<Rightarrow> module_globals \<Rightarrow> nat \<Rightarrow> 'ss h2_connection \<Rightarrow> string + 'ss h2_connection" where
  "open_session H G deadline c =
     (let c = c\<lparr>h2_setup_deadline_abs_us := deadline\<rparr>
      in if \<not> he_callbacks H then Inl ''failed to configure callbacks''
         else case he_client_new H of
                None \<Rightarrow> Inl ''failed to create nghttp2 session''
              | Some ss \<Rightarrow>
                  (case submit_preface H G ss of
                     Inl e \<Rightarrow> Inl e
                   | Inr ss \<Rightarrow> Inr (c\<lparr>h2_session := Some ss\<rparr>)))"

definition connect_transport ::
    "'ss lib \<Rightarrow> module_globals \<Rightarrow> ('ss, 'x) setup_env \<Rightarrow> channel_target \<Rightarrow> bool \<Rightarrow> nat \<Rightarrow> io_world
      \<Rightarrow> ((string + 'ss h2_connection) \<times> io_world) option" where
  "connect_transport L G S T persistent deadline w =
     (let cap = h2_write_coalesce_capacity_for_max_frame_size (effective_http2_max_frame_size (http2_max_frame_size G))
      in case connect_tcp (su_addresses S) deadline w of
           None \<Rightarrow> None
         | Some (fd, w) \<Rightarrow>
             if fd < 0 then
               Some (Inl (if w_errno w = ETIMEDOUT then ''HTTP/2 transport deadline exceeded'' else ''failed to connect''), w)
             else
               (let c = zero_connection persistent cap fd
                in if ct_use_tls T then
                     (case configure_tls_connection L (su_tls S) (ct_host T) (ct_tls_verify_name T) (ct_root_certs T)
                             (ct_cert_chain T) (ct_private_key T) deadline c w of
                        None \<Rightarrow> None
                      | Some (Some P, c, w) \<Rightarrow> Some (Inr c, w)
                      | Some (None, c, w) \<Rightarrow>
                          Some (Inl (if h2_last_error_detail c \<noteq> [] then snprintf_s 256 (h2_last_error_detail c)
                                     else ''failed to establish TLS''), w))
                   else if \<not> su_nonblock S then Some (Inl ''failed to set HTTP/2 socket nonblocking'', w)
                   else Some (Inr c, w)))"

definition create_h2_connection ::
    "'ss lib \<Rightarrow> module_globals \<Rightarrow> conn_id \<Rightarrow> ('ss, 'x) setup_env \<Rightarrow> channel_target \<Rightarrow> bool \<Rightarrow> nat \<Rightarrow> call_store \<Rightarrow> io_world
      \<Rightarrow> ((string + 'ss h2_connection) \<times> call_store \<times> io_world) res" where
  "create_h2_connection L G self S T persistent deadline calls w =
     (case connect_transport L G S T persistent deadline w of
        None \<Rightarrow> Blocked
      | Some (Inl e, w) \<Rightarrow> Ok (Inl e, calls, w)
      | Some (Inr c, w) \<Rightarrow>
          (case open_session (su_h2 S) G deadline c of
             Inl e \<Rightarrow> Ok (Inl e, calls, w)
           | Inr c \<Rightarrow>
               and_then (send_pending_h2_frames L self (su_preface S) None c calls w) (\<lambda>(rv, c, calls, w).
                 if rv \<noteq> 0 then
                   Ok (Inl (if h2_setup_timed_out c then ''HTTP/2 transport deadline exceeded''
                            else ''nghttp2_session_send failed''), calls, w)
                 else
                   Ok (Inr (c\<lparr>h2_setup_deadline_abs_us := 0,
                             h2_authority := build_authority GRPC_LITE_AUTHORITY_BUFFER_SIZE (ct_host T) (ct_port T) (ct_authority T)\<rparr>),
                       calls, w))))"

section \<open>TLS policy\<close>

definition erase_tls :: "'ss h2_connection \<Rightarrow> 'ss h2_connection" where
  "erase_tls c = (erase_errors c)\<lparr>h2_tls_verify_result := 0, h2_negotiated_protocol := [], h2_tls := False\<rparr>"

lemma erase_tls_upd [simp]:
  "erase_tls (c\<lparr>h2_last_ssl_error := e\<rparr>) = erase_tls c"
  "erase_tls (c\<lparr>h2_last_io_errno := e\<rparr>) = erase_tls c"
  "erase_tls (c\<lparr>h2_tls_verify_result := v\<rparr>) = erase_tls c"
  "erase_tls (c\<lparr>h2_negotiated_protocol := p\<rparr>) = erase_tls c"
  "erase_tls (c\<lparr>h2_tls := t\<rparr>) = erase_tls c"
  "erase_tls (set_connection_error_detail d c) = erase_tls c"
  by (simp_all add: erase_tls_def erase_errors_def set_connection_error_detail_def)

lemma handshake_erase: "handshake L E d rs c w = Some (r, c', w') \<Longrightarrow> erase_tls c' = erase_tls c"
proof (induction rs arbitrary: c w)
  case (Cons x xs)
  define c1 where "c1 = c\<lparr>h2_last_ssl_error := x\<rparr>"
  have e: "erase_tls c1 = erase_tls c" by (simp add: c1_def)
  show ?case
  proof (cases "x = 0")
    case True
    then show ?thesis using Cons.prems by simp
  next
    case nz: False
    show ?thesis
    proof (cases "x = SSL_ERROR_WANT_READ \<or> x = SSL_ERROR_WANT_WRITE")
      case True
      then obtain p w1 where p: "poll_fd_until_deadline d w = Some (p, w1)"
        using Cons.prems nz by (auto simp: Let_def split: option.splits)
      show ?thesis
      proof (cases "p = 0")
        case p0: True
        then have "handshake L E d xs c1 w1 = Some (r, c', w')" using Cons.prems nz True p by (auto simp: c1_def)
        then show ?thesis using Cons.IH e by metis
      next
        case False
        then have "c' = set_connection_error_detail ''HTTP/2 transport deadline exceeded'' (c1\<lparr>h2_last_io_errno := w_errno w1\<rparr>)
          \<or> c' = set_connection_error_detail (''TLS handshake poll failed: '' @ c_str (libc_strerror L (w_errno w1))) (c1\<lparr>h2_last_io_errno := w_errno w1\<rparr>)"
          using Cons.prems nz True p by (auto simp: c1_def Let_def)
        then show ?thesis using e by auto
      qed
    next
      case False
      then have "\<exists>t. c' = set_connection_error_detail t (c1\<lparr>h2_tls_verify_result := te_verify_result E\<rparr>)"
        using Cons.prems nz by (auto simp: c1_def Let_def split: option.splits)
      then show ?thesis using e by auto
    qed
  qed
qed simp

lemma erase_tls_fields:
  assumes "erase_tls c' = erase_tls c"
  shows "h2_fd c' = h2_fd c" "h2_session c' = h2_session c" "h2_ssl c' = h2_ssl c" "h2_active_streams c' = h2_active_streams c"
    "h2_active_stream_count c' = h2_active_stream_count c" "h2_stream_owner_count c' = h2_stream_owner_count c"
    "h2_detached_from_cache c' = h2_detached_from_cache c" "h2_dead c' = h2_dead c" "h2_draining c' = h2_draining c"
    "h2_current_read_call c' = h2_current_read_call c" "h2_persistent c' = h2_persistent c"
  using arg_cong [OF assms, of h2_fd] arg_cong [OF assms, of h2_session] arg_cong [OF assms, of h2_ssl]
    arg_cong [OF assms, of h2_active_streams] arg_cong [OF assms, of h2_active_stream_count]
    arg_cong [OF assms, of h2_stream_owner_count] arg_cong [OF assms, of h2_detached_from_cache]
    arg_cong [OF assms, of h2_dead] arg_cong [OF assms, of h2_draining] arg_cong [OF assms, of h2_current_read_call]
    arg_cong [OF assms, of h2_persistent]
  by (simp_all add: erase_tls_def erase_errors_def)

lemma tls_roots_policy:
  assumes "tls_roots E roots P = Inr P'"
  shows "tp_verify_peer P' = tp_verify_peer P \<and> tp_min_tls12 P' = tp_min_tls12 P
    \<and> (if given roots then tp_roots P' \<noteq> [] \<and> set (tp_roots P') \<subseteq> set (te_pem_certs E (the roots)) \<and> tp_default_roots P' = tp_default_roots P
       else tp_default_roots P' \<and> tp_roots P' = tp_roots P)"
  using assms
  by (auto simp: tls_roots_def grpc_lite_tls_configure_roots_def add_pem_certs_to_store_def Let_def
      split: if_splits option.splits)

lemma tls_client_policy:
  assumes "tls_client E chain key P = Inr P'"
  shows "given chain = given key \<and> (\<exists>cs. P' = P\<lparr>tp_certificate := cs\<rparr>)"
proof -
  have "\<exists>cs. P = P\<lparr>tp_certificate := cs\<rparr>" by (rule exI [of _ "tp_certificate P"]) simp
  then show ?thesis using assms by (auto simp: tls_client_def split: if_splits option.splits)
qed

lemma peer_name_policy:
  assumes "grpc_lite_tls_configure_peer_name E vn P = Inr P'"
  shows "P' = P\<lparr>tp_sni := Some vn, tp_host := Some vn\<rparr>"
  using assms by (auto simp: grpc_lite_tls_configure_peer_name_def split: if_splits)

lemma tls_policy_parts:
  assumes "tls_policy_of E vn roots chain key = Inr P"
  obtains P1 P2 where "tls_roots E roots (no_policy\<lparr>tp_min_tls12 := True, tp_verify_peer := True\<rparr>) = Inr P1"
    "tls_client E chain key P1 = Inr P2" "grpc_lite_tls_configure_peer_name E vn P2 = Inr P"
  using assms by (auto simp: tls_policy_of_def split: if_splits sum.splits)

text \<open>
  C26.  A TLS connection is handed out only when the peer was authenticated.  Whatever OpenSSL answers, if
  \<open>configure_tls_connection\<close> succeeds then peer verification, TLS 1.2 as minimum, SNI and host name checking
  for the verification name (the override when one is given, else the host) were configured before the
  handshake, the trust anchors are the caller's certificates (at least one) or the system defaults, the
  certificate OpenSSL reports verified, the protocol it reports selected is \<open>h2\<close>, and both are recorded; a client certificate without a key, or a key without a
  certificate, is always refused.
\<close>

theorem tls_policy_enforced:
  assumes "configure_tls_connection L E host name roots chain key deadline c w = Some (Some P, c', w')"
  shows "tp_verify_peer P \<and> tp_min_tls12 P
    \<and> tp_host P = Some (case name of Some (x # xs) \<Rightarrow> x # xs | _ \<Rightarrow> host) \<and> tp_sni P = tp_host P
    \<and> (if given roots then tp_roots P \<noteq> [] \<and> set (tp_roots P) \<subseteq> set (te_pem_certs E (the roots)) \<and> \<not> tp_default_roots P
       else tp_default_roots P \<and> tp_roots P = [])
    \<and> given chain = given key
    \<and> te_verify_result E = X509_V_OK \<and> te_alpn E = Some ''h2''
    \<and> h2_tls_verify_result c' = X509_V_OK \<and> h2_negotiated_protocol c' = ''h2'' \<and> h2_tls c' \<and> h2_ssl c'"
proof -
  define vn where "vn = (case name of Some (x # xs) \<Rightarrow> x # xs | _ \<Rightarrow> host)"
  obtain c1 w1 where p: "tls_policy_of E vn roots chain key = Inr P"
    and h: "handshake L E deadline (te_connect E) (c\<lparr>h2_ssl := True\<rparr>) w = Some (True, c1, w1)" "check_handshake E c1 = (True, c')"
    using assms unfolding configure_tls_connection_def vn_def [symmetric] Let_def
    by (auto split: sum.splits if_splits option.splits prod.splits)
  have c': "te_verify_result E = X509_V_OK" "te_alpn E = Some ''h2''"
    "h2_tls_verify_result c' = X509_V_OK" "h2_negotiated_protocol c' = ''h2''" "h2_tls c'" "h2_ssl c'"
    using h(2) erase_tls_fields(3) [OF handshake_erase [OF h(1)]] by (auto simp: check_handshake_def Let_def split: if_splits)
  obtain P1 P2 where pp: "tls_roots E roots (no_policy\<lparr>tp_min_tls12 := True, tp_verify_peer := True\<rparr>) = Inr P1"
    "tls_client E chain key P1 = Inr P2" "grpc_lite_tls_configure_peer_name E vn P2 = Inr P"
    using tls_policy_parts [OF p] by blast
  obtain cs where P2: "P2 = P1\<lparr>tp_certificate := cs\<rparr>" "given chain = given key" using tls_client_policy [OF pp(2)] by blast
  have "P = P1\<lparr>tp_certificate := cs, tp_sni := Some vn, tp_host := Some vn\<rparr>" using peer_name_policy [OF pp(3)] P2 by simp
  then show ?thesis using c' P2(2) tls_roots_policy [OF pp(1)] unfolding vn_def [symmetric] by (simp add: no_policy_def)
qed

definition example_tls :: "nat tls_env" where
  "example_tls = \<lparr>te_ctx_new = True, te_set_min_proto = True, te_default_paths = True, te_bio_new = (\<lambda>_. True),
     te_pem_certs = (\<lambda>pem. if pem = [] then [] else [1, 2]), te_pem_key = (\<lambda>_. True), te_store_add = (\<lambda>_. True),
     te_use_certificate = (\<lambda>_. True), te_use_key = True, te_check_key = (\<lambda>_. True), te_add_chain = (\<lambda>_. True),
     te_ssl_new = True, te_alpn_protos = True, te_sni = (\<lambda>_. True), te_set1_host = (\<lambda>_. True), te_set_fd = True,
     te_nonblock = True, te_connect = [0], te_verify_result = 0, te_verify_string = (\<lambda>_. ''ok''),
     te_err_string = None, te_alpn = Some ''h2''\<rparr>"

theorem tls_policy_enforced_witness:
  "\<exists>P c' w'. configure_tls_connection example_lib example_tls ''example.com'' None (Some ''pem'') None None 0
      example_connection idle_world = Some (Some P, c', w')
    \<and> tp_verify_peer P \<and> tp_host P = Some ''example.com'' \<and> h2_negotiated_protocol c' = ''h2''"
proof -
  obtain P c' w' where r: "configure_tls_connection example_lib example_tls ''example.com'' None (Some ''pem'') None None 0
      example_connection idle_world = Some (Some P, c', w')"
    by (simp add: configure_tls_connection_def tls_policy_of_def tls_roots_def tls_client_def given_def example_tls_def
        grpc_lite_tls_configure_roots_def add_pem_certs_to_store_def grpc_lite_tls_configure_peer_name_def check_handshake_def Let_def)
  have "h2_negotiated_protocol c' = ''h2''" "tp_verify_peer P" "tp_host P = Some ''example.com''"
    using tls_policy_enforced [OF r] by simp_all
  then show ?thesis using r by blast
qed

section \<open>A new connection\<close>

text \<open>A new session has no streams, and announcing settings does not create any.\<close>

definition setup_laws :: "'ss lib \<Rightarrow> 'ss h2_env \<Rightarrow> bool" where
  "setup_laws L H \<longleftrightarrow>
     (\<forall>ss sid. he_client_new H = Some ss \<longrightarrow> nghttp2_session_get_stream_user_data L ss sid = None)
     \<and> (\<forall>ss sid xs. nghttp2_session_get_stream_user_data L (fst (he_submit_settings H ss xs)) sid = nghttp2_session_get_stream_user_data L ss sid)
     \<and> (\<forall>ss sid x. nghttp2_session_get_stream_user_data L (fst (he_submit_window_update H ss x)) sid = nghttp2_session_get_stream_user_data L ss sid)"

lemma submit_preface_user_data:
  assumes "setup_laws L H" "submit_preface H G ss = Inr ss'"
  shows "nghttp2_session_get_stream_user_data L ss' sid = nghttp2_session_get_stream_user_data L ss sid"
proof -
  define xs where "xs = settings_entries G"
  define x where "x = effective_http2_window_size (http2_connection_window_size G) - word_of_int GRPC_LITE_HTTP2_DEFAULT_WINDOW_SIZE"
  have "ss' = fst (he_submit_settings H ss xs) \<or> ss' = fst (he_submit_window_update H (fst (he_submit_settings H ss xs)) x)"
    using assms(2) by (auto simp: submit_preface_def Let_def xs_def x_def split: prod.splits if_splits)
  then show ?thesis using assms(1) by (auto simp: setup_laws_def)
qed

definition blank_connection :: "'ss h2_connection \<Rightarrow> bool" where
  "blank_connection c \<longleftrightarrow> 0 \<le> h2_fd c \<and> \<not> h2_dead c \<and> \<not> h2_draining c \<and> \<not> h2_detached_from_cache c
     \<and> h2_active_streams c = None \<and> h2_active_stream_count c = 0 \<and> h2_stream_owner_count c = 0 \<and> h2_current_read_call c = None"

lemma blank_erase_tls:
  assumes "erase_tls c' = erase_tls c"
  shows "blank_connection c' = blank_connection c"
  unfolding blank_connection_def erase_tls_fields [OF assms] ..

lemma zero_connection_blank: "0 \<le> fd \<Longrightarrow> blank_connection (zero_connection p cap fd)"
  by (simp add: blank_connection_def zero_connection_def)

lemma check_handshake_erase: "check_handshake E c = (ok, c') \<Longrightarrow> erase_tls c' = erase_tls c"
  by (auto simp: check_handshake_def Let_def split: if_splits option.splits list.splits)

lemma configure_tls_blank:
  assumes "configure_tls_connection L E host name roots chain key d c w = Some (Some P, c', w')" "blank_connection c"
  shows "blank_connection c'"
proof -
  obtain c1 w1 where "handshake L E d (te_connect E) (c\<lparr>h2_ssl := True\<rparr>) w = Some (True, c1, w1)" "check_handshake E c1 = (True, c')"
    using assms(1) unfolding configure_tls_connection_def Let_def by (auto split: sum.splits if_splits option.splits prod.splits)
  then have "erase_tls c' = erase_tls (c\<lparr>h2_ssl := True\<rparr>)" using handshake_erase check_handshake_erase by metis
  from blank_erase_tls [OF this] show ?thesis using assms(2) by (simp add: blank_connection_def)
qed

lemma connect_transport_blank:
  assumes "connect_transport L G S T p d w = Some (Inr c, w')"
  shows "blank_connection c"
proof -
  obtain fd w1 where fd: "connect_tcp (su_addresses S) d w = Some (fd, w1)" "0 \<le> fd"
    using assms by (auto simp: connect_transport_def Let_def split: option.splits if_splits)
  define c0 where "c0 = (zero_connection p (h2_write_coalesce_capacity_for_max_frame_size (effective_http2_max_frame_size (http2_max_frame_size G))) fd :: 'a h2_connection)"
  have b: "blank_connection c0" using zero_connection_blank [OF fd(2)] by (simp add: c0_def)
  show ?thesis
  proof (cases "ct_use_tls T")
    case True
    then obtain P where "configure_tls_connection L (su_tls S) (ct_host T) (ct_tls_verify_name T) (ct_root_certs T)
        (ct_cert_chain T) (ct_private_key T) d c0 w1 = Some (Some P, c, w')"
      using assms fd by (auto simp: connect_transport_def c0_def Let_def split: option.splits)
    then show ?thesis using configure_tls_blank b by blast
  next
    case False
    then have "c = c0" using assms fd by (auto simp: connect_transport_def c0_def Let_def split: if_splits)
    then show ?thesis using b by simp
  qed
qed

lemma open_session_blank:
  assumes "open_session H G d c = Inr c'" "setup_laws L H" "blank_connection c"
  shows "blank_connection c' \<and> h2_session c' \<noteq> None \<and> (\<forall>sid. grpc_call_from_stream_id L c' sid = None)"
proof -
  obtain ss ss' where s: "he_client_new H = Some ss" "submit_preface H G ss = Inr ss'"
    "c' = c\<lparr>h2_setup_deadline_abs_us := d, h2_session := Some ss'\<rparr>"
    using assms(1) by (auto simp: open_session_def Let_def split: if_splits option.splits sum.splits)
  have "nghttp2_session_get_stream_user_data L ss' sid = None" for sid
    using submit_preface_user_data [OF assms(2) s(2)] s(1) assms(2) by (simp add: setup_laws_def)
  then show ?thesis using assms(3) s(3) by (simp add: blank_connection_def grpc_call_from_stream_id_def)
qed

text \<open>No call of the store names the address the connection will live at.\<close>

definition unused_address :: "conn_id \<Rightarrow> call_store \<Rightarrow> bool" where
  "unused_address self calls \<longleftrightarrow> (\<forall>k call. calls k = Some call \<longrightarrow> connection call \<noteq> Some self)"

lemma unused_kept: "unused_address self calls \<Longrightarrow> calls_kept self calls calls' \<Longrightarrow> calls' = calls"
proof
  fix k assume a: "unused_address self calls" "calls_kept self calls calls'"
  show "calls' k = calls k"
  proof (cases "calls k")
    case None
    have "map_option call_fixed (calls' k) = map_option call_fixed (calls k)" using a(2) unfolding calls_kept_def by blast
    then show ?thesis using None by simp
  next
    case (Some call)
    then show ?thesis using a by (simp add: unused_address_def calls_kept_def)
  qed
qed

lemma blank_streams:
  assumes "blank_connection c" "unused_address self calls" "\<forall>sid. grpc_call_from_stream_id L c sid = None" "calls_wf calls"
  shows "conn_inv L self c calls"
proof -
  have "registry_ok self c calls []"
    using assms(1,2) by (auto simp: registry_ok_def blank_connection_def unused_address_def listed_def)
  then show ?thesis using assms(3,4) by (auto simp: conn_inv_def streams_ok_def user_data_ok_def)
qed

lemma create_safe:
  assumes laws: "session_laws L" "setup_laws L (su_h2 S)" "su_preface S = (evs, adv, rv0)" "adv_ok L adv"
    and src: "\<And>k f l p. SendData k f l p \<notin> set evs" and calls: "unused_address self calls" "calls_wf calls"
  shows "safe (\<lambda>(r, calls', w'). calls' = calls \<and> (case r of Inl e \<Rightarrow> True | Inr c \<Rightarrow>
      conn_inv L self c calls \<and> connection_usable (Some c) \<and> h2_stream_owner_count c = 0 \<and> \<not> h2_detached_from_cache c
      \<and> h2_current_read_call c = None \<and> h2_setup_deadline_abs_us c = 0))
    (create_h2_connection L G self S T p d calls w)"
proof (cases "\<exists>c0 w0 c1. connect_transport L G S T p d w = Some (Inr c0, w0) \<and> open_session (su_h2 S) G d c0 = Inr c1")
  case False
  then show ?thesis by (auto simp: create_h2_connection_def split: option.splits sum.splits)
next
  case True
  then obtain c0 w0 c1 where c0: "connect_transport L G S T p d w = Some (Inr c0, w0)" "open_session (su_h2 S) G d c0 = Inr c1" by blast
  note b1 = open_session_blank [OF c0(2) laws(2) connect_transport_blank [OF c0(1)]]
  have inv: "conn_inv L self c1 calls" using b1 by (intro blank_streams [OF _ calls(1) _ calls(2)]) simp_all
  have "sources_ok self evs calls" "caller_ok self None calls" using src by (simp_all add: sources_ok_def caller_ok_def)
  note s = send_pending_safe [OF laws(1,4) inv this, of rv0 "h2_setup_deadline_abs_us c1" w0]
  show ?thesis unfolding create_h2_connection_def c0(1) option.case prod.case sum.case c0(2) send_pending_h2_frames_def laws(3)
  proof (rule safe_and_then_Ok [OF s])
    fix x :: "int \<times> 'a h2_connection \<times> call_store \<times> io_world"
    assume run: "send_pending_h2_frames_with_deadline L self (evs, adv, rv0) None (h2_setup_deadline_abs_us c1) c1 calls w0 = Ok x"
      and x: "sent_ok L self (c1, calls) x"
    obtain rv c2 calls2 w2 where x': "x = (rv, c2, calls2, w2)" by (metis surj_pair)
    have k: "conn_inv L self c2 calls2" "conn_kept c1 c2" "calls_kept self calls calls2" "rv = 0 \<longrightarrow> connection_io_allowed (Some c2)"
      using x x' by (simp_all add: sent_ok_def driven_inv_def)
    have eq: "calls2 = calls" by (rule unused_kept [OF calls(1) k(3)])
    define c3 where "c3 = c2\<lparr>h2_setup_deadline_abs_us := 0,
        h2_authority := build_authority GRPC_LITE_AUTHORITY_BUFFER_SIZE (ct_host T) (ct_port T) (ct_authority T)\<rparr>"
    have inv3: "conn_inv L self c3 calls"
      using k(1) eq by (auto simp: conn_inv_def c3_def intro: streams_ok_connection)
    have "h2_stream_owner_count c3 = 0" "\<not> h2_detached_from_cache c3" "h2_current_read_call c3 = None" "h2_setup_deadline_abs_us c3 = 0"
      using k(2) b1 by (simp_all add: c3_def conn_kept_def conn_owner_def blank_connection_def)
    moreover have "\<not> h2_draining c2" using send_pending_draining [OF run [unfolded x']] b1 by (simp add: blank_connection_def)
    moreover have "rv = 0 \<Longrightarrow> connection_usable (Some c3)"
      using k(4) calculation by (simp add: connection_usable_def connection_io_allowed_def c3_def)
    ultimately show "safe (\<lambda>(r, calls', w'). calls' = calls \<and> (case r of Inl e \<Rightarrow> True | Inr c \<Rightarrow>
      conn_inv L self c calls \<and> connection_usable (Some c) \<and> h2_stream_owner_count c = 0 \<and> \<not> h2_detached_from_cache c
      \<and> h2_current_read_call c = None \<and> h2_setup_deadline_abs_us c = 0))
      (case x of (rv, c, calls, w) \<Rightarrow>
         if rv \<noteq> 0 then Ok (Inl (if h2_setup_timed_out c then ''HTTP/2 transport deadline exceeded'' else ''nghttp2_session_send failed''), calls, w)
         else Ok (Inr (c\<lparr>h2_setup_deadline_abs_us := 0,
             h2_authority := build_authority GRPC_LITE_AUTHORITY_BUFFER_SIZE (ct_host T) (ct_port T) (ct_authority T)\<rparr>), calls, w))"
      using inv3 by (simp add: x' eq c3_def [symmetric])
  qed
qed

end
