(* ===== verification/Connection_Cache.thy ===== *)
theory Connection_Cache
  imports Connection_Setup Response_Metadata "HOL-Library.AList"
begin

text \<open>
  Ownership of connections (\<open>src/src/transport.c\<close>, 188 to 411 and 992 to 1229, 1788 to 1870): the cache of
  persistent connections, the reference count of the calls that use one, destruction, and the preflight
  check before an idle connection is reused.  Connections and calls live in a heap; freeing removes the
  address, and any later access to it is a \<open>Fault\<close>.  Functions whose pointer argument may not be NULL at any
  call site take the address itself.
\<close>

section \<open>The heap\<close>

record 'ss heap =
  hp_conns :: "conn_id \<Rightarrow> 'ss h2_connection option"
  hp_calls :: call_store
  hp_cache :: "(string \<times> persistent_connection_entry) list"
  hp_initialized :: bool

definition on_conn :: "'ss heap \<Rightarrow> conn_id \<Rightarrow> ('ss h2_connection \<Rightarrow> 'b res) \<Rightarrow> 'b res" where
  "on_conn h self f = (case hp_conns h self of None \<Rightarrow> Fault | Some c \<Rightarrow> f c)"

definition put_conn :: "conn_id \<Rightarrow> 'ss h2_connection \<Rightarrow> 'ss heap \<Rightarrow> 'ss heap" where
  "put_conn self c h = h\<lparr>hp_conns := (hp_conns h)(self \<mapsto> c)\<rparr>"

definition put_streams :: "conn_id \<Rightarrow> 'ss h2_connection \<Rightarrow> call_store \<Rightarrow> 'ss heap \<Rightarrow> 'ss heap" where
  "put_streams self c calls h = h\<lparr>hp_conns := (hp_conns h)(self \<mapsto> c), hp_calls := calls\<rparr>"

definition put_call :: "call_id \<Rightarrow> grpc_call \<Rightarrow> 'ss heap \<Rightarrow> 'ss heap" where
  "put_call k call h = h\<lparr>hp_calls := (hp_calls h)(k \<mapsto> call)\<rparr>"

section \<open>Destruction and the cache table\<close>

definition destroy_h2_connection :: "conn_id \<Rightarrow> 'ss heap \<Rightarrow> 'ss heap res" where
  "destroy_h2_connection self h = on_conn h self (\<lambda>c. Ok (h\<lparr>hp_conns := (hp_conns h)(self := None)\<rparr>))"

definition destroy_detached_connection_if_unowned :: "conn_id \<Rightarrow> 'ss heap \<Rightarrow> 'ss heap res" where
  "destroy_detached_connection_if_unowned self h =
     on_conn h self (\<lambda>c.
       if h2_detached_from_cache c \<and> h2_stream_owner_count c = 0 then destroy_h2_connection self h else Ok h)"

definition destroy_persistent_connection_entry ::
    "persistent_connection_entry \<Rightarrow> bool \<Rightarrow> 'ss heap \<Rightarrow> 'ss heap res" where
  "destroy_persistent_connection_entry entry destroy_connection h =
     (if destroy_connection then destroy_h2_connection (pe_connection entry) h else Ok h)"

text \<open>The hash table in insertion order.\<close>

definition cache_del :: "string \<Rightarrow> 'ss heap \<Rightarrow> 'ss heap" where
  "cache_del key h = h\<lparr>hp_cache := filter (\<lambda>(k, e). k \<noteq> key) (hp_cache h)\<rparr>"

definition cache_find :: "string \<Rightarrow> 'ss heap \<Rightarrow> persistent_connection_entry option" where
  "cache_find key h = (if hp_initialized h then map_of (hp_cache h) key else None)"

fun entry_of_connection :: "conn_id \<Rightarrow> (string \<times> persistent_connection_entry) list \<Rightarrow> (string \<times> persistent_connection_entry) option" where
  "entry_of_connection self [] = None"
| "entry_of_connection self ((key, entry) # rest) =
     (if pe_connection entry = self then Some (key, entry) else entry_of_connection self rest)"

definition set_detached :: "conn_id \<Rightarrow> 'ss heap \<Rightarrow> 'ss heap res" where
  "set_detached self h = on_conn h self (\<lambda>c. Ok (put_conn self (c\<lparr>h2_detached_from_cache := True\<rparr>) h))"

definition detach_persistent_connection_by_ptr :: "conn_id \<Rightarrow> 'ss heap \<Rightarrow> 'ss heap res" where
  "detach_persistent_connection_by_ptr self h =
     (if \<not> hp_initialized h then Ok h
      else case entry_of_connection self (hp_cache h) of
             None \<Rightarrow> Ok h
           | Some (key, entry) \<Rightarrow>
               and_then (destroy_persistent_connection_entry entry False (cache_del key h)) (set_detached self))"

section \<open>Releasing a connection\<close>

text \<open>\<open>unregister_grpc_call_stream\<close> on the heap.\<close>

definition unregister_call :: "'ss lib \<Rightarrow> conn_id \<Rightarrow> call_id \<Rightarrow> 'ss heap \<Rightarrow> 'ss heap res" where
  "unregister_call L self k h =
     on_conn h self (\<lambda>c.
       and_then (unregister_grpc_call_stream L self k c (hp_calls h)) (\<lambda>(c, calls). Ok (put_streams self c calls h)))"

definition drop_owner :: "conn_id \<Rightarrow> call_id \<Rightarrow> 'ss heap \<Rightarrow> 'ss heap res" where
  "drop_owner self k h =
     on_call (hp_calls h) k (\<lambda>call. on_conn h self (\<lambda>c.
       Ok (put_call k (call\<lparr>connection_owned := False\<rparr>)
            (if connection_owned call \<and> 0 < h2_stream_owner_count c
             then put_conn self (c\<lparr>h2_stream_owner_count := h2_stream_owner_count c - 1\<rparr>) h else h))))"

definition clear_connection_call_owner :: "'ss lib \<Rightarrow> conn_id \<Rightarrow> call_id \<Rightarrow> 'ss heap \<Rightarrow> 'ss heap res" where
  "clear_connection_call_owner L self k h =
     on_call (hp_calls h) k (\<lambda>call.
       if connection call \<noteq> Some self then Ok h
       else and_then (unregister_call L self k h) (drop_owner self k))"

definition forget_connection :: "call_id \<Rightarrow> 'ss heap \<Rightarrow> 'ss heap res" where
  "forget_connection k h = on_call (hp_calls h) k (\<lambda>call. Ok (put_call k (call\<lparr>connection := None\<rparr>) h))"

definition detach_if_unusable :: "conn_id \<Rightarrow> 'ss heap \<Rightarrow> 'ss heap res" where
  "detach_if_unusable self h =
     on_conn h self (\<lambda>c. if connection_usable (Some c) then Ok h else detach_persistent_connection_by_ptr self h)"

text \<open>The call of a streaming state owns the connection it names.\<close>

definition clear_connection_server_streaming_call_state_owner :: "'ss lib \<Rightarrow> call_id \<Rightarrow> 'ss heap \<Rightarrow> 'ss heap res" where
  "clear_connection_server_streaming_call_state_owner L k h =
     on_call (hp_calls h) k (\<lambda>call.
       case connection call of
         None \<Rightarrow> Ok h
       | Some self \<Rightarrow>
           and_then (detach_if_unusable self h) (\<lambda>h.
           and_then (unregister_call L self k h) (\<lambda>h.
           and_then (drop_owner self k h) (\<lambda>h.
           and_then (forget_connection k h) (destroy_detached_connection_if_unowned self)))))"

section \<open>Cancelling a stream\<close>

definition GRPC_LITE_CANCEL_RST_WRITE_GRACE_US :: nat where
  "GRPC_LITE_CANCEL_RST_WRITE_GRACE_US = 50000"

text \<open>Scripts of what nghttp2 will do in one call of the session.\<close>

type_synonym 'ss send_script = "send_event list \<times> ('ss \<Rightarrow> 'ss) \<times> int"
type_synonym 'ss recv_script = "recv_event list \<times> ('ss \<Rightarrow> 'ss) \<times> int"

definition wipe_errors :: "'ss h2_connection \<Rightarrow> 'ss h2_connection" where
  "wipe_errors c = c\<lparr>h2_last_error_detail := [], h2_last_io_errno := 0, h2_last_ssl_error := 0\<rparr>"

definition cancel_grpc_call_stream ::
    "'ss lib \<Rightarrow> 'ss send_script \<Rightarrow> nat \<Rightarrow> call_id \<Rightarrow> 'ss heap \<Rightarrow> io_world \<Rightarrow> ('ss heap \<times> io_world) res" where
  "cancel_grpc_call_stream L script error_code k h w =
     on_call (hp_calls h) k (\<lambda>call.
       case connection call of
         None \<Rightarrow> Ok (h, w)
       | Some self \<Rightarrow> on_conn h self (\<lambda>c.
           if \<not> connection_io_allowed (Some c) \<or> stream_id call \<le> 0 \<or> stream_closed call then Ok (h, w)
           else
             (let h = put_call k (call\<lparr>locally_cancelled := True\<rparr>) h;
                  (ss, rv) = nghttp2_submit_rst_stream L (the (h2_session c)) (stream_id call) error_code;
                  c = c\<lparr>h2_session := Some ss\<rparr>
              in if rv \<noteq> 0 then Ok (put_conn self (mark_connection_dead L rv c) h, w)
                 else case monotonic_us w of
                        None \<Rightarrow> Blocked
                      | Some (now, w) \<Rightarrow>
                          and_then (send_pending_h2_frames_with_deadline L self script None
                                      (now + GRPC_LITE_CANCEL_RST_WRITE_GRACE_US) c (hp_calls h) w) (\<lambda>(rv, c, calls, w).
                            Ok (put_streams self (if rv = 0 then wipe_errors c else c) calls h, w)))))"

section \<open>Preflight of an idle connection\<close>

abbreviation (input) SSL_ERROR_ZERO_RETURN :: int where "SSL_ERROR_ZERO_RETURN \<equiv> 6"

definition GRPC_LITE_PREFLIGHT_DRAIN_MAX_ITERATIONS :: nat where
  "GRPC_LITE_PREFLIGHT_DRAIN_MAX_ITERATIONS = 64"

definition effective_preflight_drain_max_bytes :: "module_globals \<Rightarrow> nat" where
  "effective_preflight_drain_max_bytes G =
     (if preflight_drain_max_bytes G < 4096 then 4096 else nat (preflight_drain_max_bytes G))"

datatype drain_outcome = DrainBytes nat | DrainBoundary | DrainFailed

definition closed_by_peer :: "'ss lib \<Rightarrow> string \<Rightarrow> 'ss h2_connection \<Rightarrow> 'ss h2_connection" where
  "closed_by_peer L detail c = mark_connection_dead L 0 (set_connection_error_detail detail c)"

definition drain_read ::
    "'ss lib \<Rightarrow> nat \<Rightarrow> 'ss h2_connection \<Rightarrow> io_world \<Rightarrow> (drain_outcome \<times> 'ss h2_connection \<times> io_world) option" where
  "drain_read L read_len c w =
     (if h2_ssl c then
        (case w_ssl_read w of
           [] \<Rightarrow> None
         | SslReadBytes b bs # os \<Rightarrow> Some (DrainBytes (length (take read_len (b # bs))), c, w\<lparr>w_ssl_read := os\<rparr>)
         | SslReadError e # os \<Rightarrow>
             (let w = w\<lparr>w_ssl_read := os\<rparr>; c = c\<lparr>h2_last_ssl_error := e\<rparr>
              in if e = SSL_ERROR_WANT_READ \<or> e = SSL_ERROR_WANT_WRITE then Some (DrainBoundary, c, w)
                 else if e = SSL_ERROR_ZERO_RETURN
                 then Some (DrainFailed, closed_by_peer L ''persistent TLS connection closed by peer before reuse'' c, w)
                 else Some (DrainFailed, mark_connection_dead L ECONNRESET
                        (set_connection_error_detail (''persistent TLS connection preflight read failed: SSL_get_error='' @ dec_int e) c), w)))
      else
        (case w_recv w of
           [] \<Rightarrow> None
         | ReadBytes bs # os \<Rightarrow>
             (let w = w\<lparr>w_recv := os\<rparr>; n = length (take read_len bs)
              in if n = 0 then Some (DrainFailed, closed_by_peer L ''persistent connection closed by peer before reuse'' c, w)
                 else Some (DrainBytes n, c, w))
         | ReadErrno e # os \<Rightarrow>
             (let w = set_errno e (w\<lparr>w_recv := os\<rparr>)
              in if e = EAGAIN then Some (DrainBoundary, c, w)
                 else Some (DrainFailed, mark_connection_dead L e c, w))))"

text \<open>
  One round of the session: what \<open>nghttp2_session_mem_recv\<close> does with the bytes, whether it then wants to
  write, and what \<open>nghttp2_session_send\<close> does.
\<close>

type_synonym 'ss round = "'ss recv_script \<times> bool \<times> 'ss send_script"

definition drain_process ::
    "'ss lib \<Rightarrow> module_globals \<Rightarrow> conn_id \<Rightarrow> 'ss round \<Rightarrow> nat \<Rightarrow> 'ss h2_connection \<Rightarrow> call_store \<Rightarrow> io_world
      \<Rightarrow> (bool \<times> 'ss h2_connection \<times> call_store \<times> io_world) res" where
  "drain_process L G self round deadline c calls w =
     (case round of (rs, want_write, ss) \<Rightarrow>
        and_then (nghttp2_session_mem_recv L G self rs c calls) (\<lambda>(rv, c, calls).
          if rv < 0 then
            Ok (False, mark_connection_dead L rv
                  (set_connection_error_detail (''nghttp2_session_mem_recv failed during persistent preflight: '' @ c_str (nghttp2_strerror L rv)) c),
                calls, w)
          else if \<not> connection_usable (Some c) then Ok (False, c, calls, w)
          else if \<not> want_write then Ok (True, c, calls, w)
          else
            and_then (send_pending_h2_frames_with_deadline L self ss None deadline c calls w) (\<lambda>(rv, c, calls, w).
              if rv \<noteq> 0 then
                Ok (False, mark_connection_dead L rv
                      (if h2_last_error_detail c = []
                       then set_connection_error_detail (''nghttp2_session_send failed during persistent preflight: '' @ c_str (nghttp2_strerror L rv)) c
                       else c), calls, w)
              else Ok (True, c, calls, w))))"

definition drain_limit_exceeded :: "'ss h2_connection \<Rightarrow> 'ss h2_connection" where
  "drain_limit_exceeded c =
     mark_connection_draining 0 NGHTTP2_NO_ERROR (set_connection_error_detail ''persistent preflight drain limit exceeded'' c)"

text \<open>\<open>n\<close> iterations are left and \<open>total_read\<close> bytes have been read.\<close>

fun drain_loop ::
    "'ss lib \<Rightarrow> module_globals \<Rightarrow> conn_id \<Rightarrow> nat \<Rightarrow> nat \<Rightarrow> nat \<Rightarrow> nat \<Rightarrow> 'ss round list \<Rightarrow> 'ss h2_connection \<Rightarrow> call_store \<Rightarrow> io_world
      \<Rightarrow> (bool \<times> 'ss h2_connection \<times> call_store \<times> io_world) res" where
  "drain_loop L G self deadline max_bytes 0 total_read rounds c calls w = Ok (False, drain_limit_exceeded c, calls, w)"
| "drain_loop L G self deadline max_bytes (Suc n) total_read rounds c calls w =
     (if max_bytes \<le> total_read then Ok (False, drain_limit_exceeded c, calls, w)
      else case drain_read L (min (h2_recv_scratch_len c) (max_bytes - total_read)) c w of
             None \<Rightarrow> Blocked
           | Some (DrainFailed, c, w) \<Rightarrow> Ok (False, c, calls, w)
           | Some (DrainBoundary, c, w) \<Rightarrow> Ok (connection_usable (Some c), c, calls, w)
           | Some (DrainBytes nread, c, w) \<Rightarrow>
               (case rounds of
                  [] \<Rightarrow> Blocked
                | round # rounds \<Rightarrow>
                    and_then (drain_process L G self round deadline c calls w) (\<lambda>(go_on, c, calls, w).
                      if \<not> go_on then Ok (False, c, calls, w)
                      else drain_loop L G self deadline max_bytes n (total_read + nread) rounds c calls w)))"

definition drain_pending_connection_data_for_reuse ::
    "'ss lib \<Rightarrow> module_globals \<Rightarrow> conn_id \<Rightarrow> nat \<Rightarrow> 'ss round list \<Rightarrow> 'ss h2_connection \<Rightarrow> call_store \<Rightarrow> io_world
      \<Rightarrow> (bool \<times> 'ss h2_connection \<times> call_store \<times> io_world) res" where
  "drain_pending_connection_data_for_reuse L G self deadline rounds c calls w =
     (if \<not> connection_usable (Some c) then Ok (False, c, calls, w)
      else and_then (h2_connection_recv_scratch c) (\<lambda>c.
        drain_loop L G self deadline (effective_preflight_drain_max_bytes G) GRPC_LITE_PREFLIGHT_DRAIN_MAX_ITERATIONS 0 rounds c calls w))"

text \<open>\<open>SSL_peek\<close> and \<open>MSG_PEEK\<close> leave data in place; an error or end of file is answered at once.\<close>

definition preflight_tls_connection_for_reuse ::
    "'ss lib \<Rightarrow> module_globals \<Rightarrow> conn_id \<Rightarrow> nat \<Rightarrow> 'ss round list \<Rightarrow> 'ss h2_connection \<Rightarrow> call_store \<Rightarrow> io_world
      \<Rightarrow> (bool \<times> 'ss h2_connection \<times> call_store \<times> io_world) res" where
  "preflight_tls_connection_for_reuse L G self deadline rounds c calls w =
     (case w_ssl_read w of
        [] \<Rightarrow> Blocked
      | SslReadBytes b bs # os \<Rightarrow> drain_pending_connection_data_for_reuse L G self deadline rounds c calls w
      | SslReadError e # os \<Rightarrow>
          (let w = w\<lparr>w_ssl_read := os\<rparr>
           in if e = SSL_ERROR_WANT_READ \<or> e = SSL_ERROR_WANT_WRITE then Ok (True, c, calls, w)
              else
                (let c = c\<lparr>h2_last_ssl_error := e\<rparr>
                 in if e = SSL_ERROR_ZERO_RETURN
                    then Ok (False, closed_by_peer L ''persistent TLS connection closed by peer before reuse'' c, calls, w)
                    else Ok (False, mark_connection_dead L ECONNRESET
                           (set_connection_error_detail (''persistent TLS connection preflight failed: SSL_get_error='' @ dec_int e) c), calls, w))))"

definition preflight_socket_connection_for_reuse ::
    "'ss lib \<Rightarrow> module_globals \<Rightarrow> conn_id \<Rightarrow> nat \<Rightarrow> 'ss round list \<Rightarrow> 'ss h2_connection \<Rightarrow> call_store \<Rightarrow> io_world
      \<Rightarrow> (bool \<times> 'ss h2_connection \<times> call_store \<times> io_world) res" where
  "preflight_socket_connection_for_reuse L G self deadline rounds c calls w =
     (case w_recv w of
        [] \<Rightarrow> Blocked
      | ReadBytes bs # os \<Rightarrow>
          if bs = [] then Ok (False, closed_by_peer L ''persistent connection closed by peer before reuse'' c, calls, w\<lparr>w_recv := os\<rparr>)
          else drain_pending_connection_data_for_reuse L G self deadline rounds c calls w
      | ReadErrno e # os \<Rightarrow>
          (let w = set_errno e (w\<lparr>w_recv := os\<rparr>)
           in if e \<noteq> EAGAIN then Ok (False, mark_connection_dead L e c, calls, w) else Ok (True, c, calls, w)))"

definition preflight_persistent_connection ::
    "'ss lib \<Rightarrow> module_globals \<Rightarrow> conn_id \<Rightarrow> nat \<Rightarrow> 'ss round list \<Rightarrow> 'ss h2_connection \<Rightarrow> call_store \<Rightarrow> io_world
      \<Rightarrow> (bool \<times> 'ss h2_connection \<times> call_store \<times> io_world) res" where
  "preflight_persistent_connection L G self deadline rounds c calls w =
     (if \<not> connection_usable (Some c) then Ok (False, c, calls, w)
      else if 0 < h2_active_stream_count c then Ok (True, c, calls, w)
      else if h2_ssl c then preflight_tls_connection_for_reuse L G self deadline rounds c calls w
      else preflight_socket_connection_for_reuse L G self deadline rounds c calls w)"

section \<open>The cache\<close>

definition identity_matches :: "string \<Rightarrow> string \<Rightarrow> bool" where
  "identity_matches stored expected \<longleftrightarrow> length stored = length expected \<and> stored = expected"

definition connection_entry_matches_key :: "persistent_connection_entry \<Rightarrow> string \<Rightarrow> bool" where
  "connection_entry_matches_key entry key \<longleftrightarrow> identity_matches (pe_connection_key_identity entry) key"

definition create_persistent_connection_entry :: "conn_id \<Rightarrow> string \<Rightarrow> persistent_connection_entry" where
  "create_persistent_connection_entry self key = \<lparr>pe_connection = self, pe_connection_key_identity = key\<rparr>"

definition discard_persistent_connection :: "string \<Rightarrow> conn_id \<Rightarrow> 'ss heap \<Rightarrow> 'ss heap res" where
  "discard_persistent_connection key self h =
     (case cache_find key h of
        Some entry \<Rightarrow>
          if pe_connection entry = self then
            (let h = cache_del key h
             in on_conn h self (\<lambda>c.
                  if 0 < h2_stream_owner_count c
                  then and_then (set_detached self h) (destroy_persistent_connection_entry entry False)
                  else destroy_persistent_connection_entry entry True h))
          else and_then (set_detached self h) (destroy_detached_connection_if_unowned self)
      | None \<Rightarrow> and_then (set_detached self h) (destroy_detached_connection_if_unowned self))"

definition remove_unusable_persistent_connection :: "string \<Rightarrow> conn_id \<Rightarrow> 'ss heap \<Rightarrow> 'ss heap res" where
  "remove_unusable_persistent_connection key self h =
     on_conn h self (\<lambda>c. if connection_usable (Some c) then Ok h else discard_persistent_connection key self h)"

text \<open>
  \<open>remove_unusable_persistent_connection\<close> and \<open>discard_persistent_connection\<close> have the same body after
  their guards.  The result of the lookup is the connection to reuse, if any.
\<close>

definition lookup_reusable ::
    "'ss lib \<Rightarrow> module_globals \<Rightarrow> string \<Rightarrow> nat \<Rightarrow> 'ss round list \<Rightarrow> 'ss heap \<Rightarrow> io_world
      \<Rightarrow> (conn_id option \<times> 'ss heap \<times> io_world) res" where
  "lookup_reusable L G key deadline rounds h w =
     (case cache_find key h of
        None \<Rightarrow> Ok (None, h, w)
      | Some entry \<Rightarrow>
          (let self = pe_connection entry
           in on_conn h self (\<lambda>c.
                if \<not> connection_usable (Some c) then
                  and_then (remove_unusable_persistent_connection key self h) (\<lambda>h. Ok (None, h, w))
                else
                  and_then (preflight_persistent_connection L G self deadline rounds c (hp_calls h) w) (\<lambda>(ok, c, calls, w).
                    (let h = put_streams self c calls h
                     in if \<not> ok then and_then (remove_unusable_persistent_connection key self h) (\<lambda>h. Ok (None, h, w))
                        else if \<not> connection_entry_matches_key entry key then
                          and_then (discard_persistent_connection key self h) (\<lambda>h. Ok (None, h, w))
                        else Ok (Some self, h, w))))))"

definition insert_new_connection :: "string \<Rightarrow> conn_id \<Rightarrow> 'ss h2_connection \<Rightarrow> 'ss heap \<Rightarrow> 'ss heap" where
  "insert_new_connection key self c h =
     (put_conn self c h)\<lparr>hp_cache := AList.update key (create_persistent_connection_entry self key) (hp_cache h)\<rparr>"

text \<open>\<open>self\<close> is the address \<open>pecalloc\<close> returns for a new connection; the flag says that an old one is reused.\<close>

definition get_persistent_connection ::
    "'ss lib \<Rightarrow> module_globals \<Rightarrow> ('ss, 'x) setup_env \<Rightarrow> channel_target \<Rightarrow> string \<Rightarrow> nat \<Rightarrow> 'ss round list \<Rightarrow> conn_id
      \<Rightarrow> 'ss heap \<Rightarrow> io_world \<Rightarrow> ((string + conn_id \<times> bool) \<times> 'ss heap \<times> io_world) res" where
  "get_persistent_connection L G S T key deadline rounds self h w =
     (if \<not> hp_initialized h then Ok (Inl ''persistent connection cache is not initialized'', h, w)
      else and_then (lookup_reusable L G key deadline rounds h w) (\<lambda>(found, h, w).
        case found of
          Some old \<Rightarrow> Ok (Inr (old, True), h, w)
        | None \<Rightarrow>
            if GRPC_LITE_MAX_PERSISTENT_CONNECTIONS \<le> length (hp_cache h)
            then Ok (Inl ''persistent connection cache limit exceeded'', h, w)
            else
              and_then (create_h2_connection L G self S T True deadline (hp_calls h) w) (\<lambda>(r, calls, w).
                (let h = h\<lparr>hp_calls := calls\<rparr>
                 in case r of
                      Inl e \<Rightarrow> Ok (Inl e, h, w)
                    | Inr c \<Rightarrow> Ok (Inr (self, False), insert_new_connection key self c h, w)))))"

end
