(* ===== verification/Connection_Ownership.thy ===== *)
theory Connection_Ownership
  imports Connection_Cache
begin

text \<open>
  The invariant of the heap of connections and calls, and that every operation of the connection cache keeps
  it: no freed connection or call is touched, a connection is destroyed only when no call owns it, and none
  is lost.
\<close>

section \<open>The heap invariant\<close>

definition owners :: "call_store \<Rightarrow> conn_id \<Rightarrow> call_id set" where
  "owners calls self = {k. \<exists>call. calls k = Some call \<and> connection_owned call \<and> connection call = Some self}"

definition cached :: "'ss heap \<Rightarrow> conn_id \<Rightarrow> bool" where
  "cached h self \<longleftrightarrow> (\<exists>key e. (key, e) \<in> set (hp_cache h) \<and> pe_connection e = self)"

definition cache_ok :: "'ss heap \<Rightarrow> bool" where
  "cache_ok h \<longleftrightarrow>
     (\<not> hp_initialized h \<longrightarrow> hp_cache h = [])
     \<and> distinct (map fst (hp_cache h)) \<and> distinct (map (\<lambda>(key, e). pe_connection e) (hp_cache h))
     \<and> length (hp_cache h) \<le> GRPC_LITE_MAX_PERSISTENT_CONNECTIONS
     \<and> (\<forall>key e. (key, e) \<in> set (hp_cache h) \<longrightarrow> pe_connection_key_identity e = key
          \<and> (\<exists>c. hp_conns h (pe_connection e) = Some c \<and> \<not> h2_detached_from_cache c))"

definition conns_ok :: "'ss lib \<Rightarrow> 'ss heap \<Rightarrow> bool" where
  "conns_ok L h \<longleftrightarrow> (\<forall>self c. hp_conns h self = Some c \<longrightarrow>
     streams_ok L self c (hp_calls h) \<and> h2_stream_owner_count c = card (owners (hp_calls h) self) \<and> h2_current_read_call c = None)"

text \<open>
  A call that owns a connection names a live one; a call that names a connection without owning it is one of
  \<open>X\<close>, the calls being torn down.
\<close>

definition links_ok :: "call_id set \<Rightarrow> 'ss heap \<Rightarrow> bool" where
  "links_ok X h \<longleftrightarrow> (\<forall>k call. hp_calls h k = Some call \<longrightarrow>
     (connection_owned call \<longrightarrow> (\<exists>self. connection call = Some self \<and> hp_conns h self \<noteq> None))
     \<and> (connection call \<noteq> None \<longrightarrow> connection_owned call \<or> k \<in> X))"

definition heap_ok :: "'ss lib \<Rightarrow> call_id set \<Rightarrow> 'ss heap \<Rightarrow> bool" where
  "heap_ok L X h \<longleftrightarrow> finite (dom (hp_calls h)) \<and> calls_wf (hp_calls h) \<and> conns_ok L h \<and> links_ok X h \<and> cache_ok h"

text \<open>Every connection outside \<open>S\<close> is in the cache, or detached and still owned by some call.\<close>

definition kept_alive :: "conn_id set \<Rightarrow> 'ss heap \<Rightarrow> bool" where
  "kept_alive S h \<longleftrightarrow> (\<forall>self c. hp_conns h self = Some c \<longrightarrow>
     self \<in> S \<or> cached h self \<or> h2_detached_from_cache c \<and> 0 < h2_stream_owner_count c)"

definition heap_inv :: "'ss lib \<Rightarrow> call_id set \<Rightarrow> conn_id set \<Rightarrow> 'ss heap \<Rightarrow> bool" where
  "heap_inv L X S h \<longleftrightarrow> heap_ok L X h \<and> kept_alive S h"

lemmas heap_defs = heap_inv_def heap_ok_def conns_ok_def

lemma kept_aliveI:
  "(\<And>j c. hp_conns h j = Some c \<Longrightarrow> j \<notin> S \<Longrightarrow> cached h j \<or> h2_detached_from_cache c \<and> 0 < h2_stream_owner_count c) \<Longrightarrow> kept_alive S h"
  unfolding kept_alive_def by blast

lemma kept_aliveD:
  "kept_alive S h \<Longrightarrow> hp_conns h j = Some c \<Longrightarrow> j \<notin> S \<Longrightarrow> cached h j \<or> h2_detached_from_cache c \<and> 0 < h2_stream_owner_count c"
  unfolding kept_alive_def by blast

lemma kept_alive_mono:
  assumes "kept_alive S h" "hp_cache h' = hp_cache h"
    and "\<And>j c'. hp_conns h' j = Some c' \<Longrightarrow> j \<notin> S' \<Longrightarrow> j \<notin> S \<and> (\<exists>c. hp_conns h j = Some c
      \<and> h2_detached_from_cache c' = h2_detached_from_cache c \<and> h2_stream_owner_count c' = h2_stream_owner_count c)"
  shows "kept_alive S' h'"
proof (rule kept_aliveI)
  fix j c' assume "hp_conns h' j = Some c'" "j \<notin> S'"
  from assms(3) [OF this] obtain c where "j \<notin> S" "hp_conns h j = Some c"
    "h2_detached_from_cache c' = h2_detached_from_cache c" "h2_stream_owner_count c' = h2_stream_owner_count c" by blast
  then show "cached h' j \<or> h2_detached_from_cache c' \<and> 0 < h2_stream_owner_count c'"
    using kept_aliveD [OF assms(1), of j c] assms(2) by (simp add: cached_def)
qed

lemma put_simps [simp]:
  "hp_conns (put_conn self c h) = (hp_conns h)(self \<mapsto> c)" "hp_calls (put_conn self c h) = hp_calls h"
  "hp_cache (put_conn self c h) = hp_cache h" "hp_initialized (put_conn self c h) = hp_initialized h"
  "hp_conns (put_streams self c calls h) = (hp_conns h)(self \<mapsto> c)" "hp_calls (put_streams self c calls h) = calls"
  "hp_cache (put_streams self c calls h) = hp_cache h" "hp_initialized (put_streams self c calls h) = hp_initialized h"
  "hp_conns (put_call k call h) = hp_conns h" "hp_calls (put_call k call h) = (hp_calls h)(k \<mapsto> call)"
  "hp_cache (put_call k call h) = hp_cache h" "hp_initialized (put_call k call h) = hp_initialized h"
  "hp_conns (cache_del key h) = hp_conns h" "hp_calls (cache_del key h) = hp_calls h"
  "hp_initialized (cache_del key h) = hp_initialized h"
  by (simp_all add: put_conn_def put_streams_def put_call_def cache_del_def)

lemma on_conn_Some [simp]: "hp_conns h self = Some c \<Longrightarrow> on_conn h self f = f c"
  by (simp add: on_conn_def)

section \<open>Owners\<close>

lemma owners_finite: "finite (dom calls) \<Longrightarrow> finite (owners calls self)"
  by (rule finite_subset [of _ "dom calls"]) (auto simp: owners_def)

lemma owners_fixed:
  assumes "\<And>k. map_option call_fixed (calls' k) = map_option call_fixed (calls k)"
  shows "owners calls' self = owners calls self"
proof -
  have "(\<exists>call. calls' k = Some call \<and> connection_owned call \<and> connection call = Some self)
      = (\<exists>call. calls k = Some call \<and> connection_owned call \<and> connection call = Some self)" for k
    using assms [of k] by (cases "calls k"; cases "calls' k") (simp_all add: call_fixed_def)
  then show ?thesis by (simp add: owners_def)
qed

lemma owners_upd:
  "calls k = Some call \<Longrightarrow> connection call = Some self \<Longrightarrow> owners (calls(k \<mapsto> call\<lparr>connection_owned := False\<rparr>)) j
     = (if j = self then owners calls self - {k} else owners calls j)"
  by (auto simp: owners_def split: if_splits)

text \<open>A connection's streams depend on its listed calls only.\<close>

lemma streams_ok_listed:
  assumes "streams_ok L self c calls"
    and "\<And>k call. calls k = Some call \<Longrightarrow> listed self call \<Longrightarrow>
      \<exists>call'. calls' k = Some call' \<and> next_active_stream call' = next_active_stream call \<and> stream_id call' = stream_id call \<and> listed self call'"
    and "\<And>k call'. calls' k = Some call' \<Longrightarrow> listed self call' \<Longrightarrow> \<exists>call. calls k = Some call \<and> listed self call"
  shows "streams_ok L self c calls'"
proof -
  obtain ks where ks: "registry_ok self c calls ks" using assms(1) by (auto simp: streams_ok_def)
  have mem: "\<exists>call. calls k = Some call \<and> listed self call" if "k \<in> set ks" for k
    by (rule registry_members [OF ks that])
  have "active_path calls' p ks = active_path calls p ks" for p
  proof (rule active_path_frame)
    fix k assume "k \<in> set ks"
    then obtain call where "calls k = Some call" "listed self call" using mem by blast
    moreover from this obtain call' where "calls' k = Some call'" "next_active_stream call' = next_active_stream call"
      using assms(2) by blast
    ultimately show "map_option next_active_stream (calls' k) = map_option next_active_stream (calls k)" by simp
  qed
  moreover have "(k \<in> set ks) = listed self call'" if c': "calls' k = Some call'" for k call'
  proof
    assume "k \<in> set ks"
    then obtain call where "calls k = Some call" "listed self call" using mem by blast
    then show "listed self call'" using assms(2) c' by force
  next
    assume "listed self call'"
    then obtain call where "calls k = Some call" "listed self call" using assms(3) c' by blast
    then show "k \<in> set ks" using ks by (auto simp: registry_ok_def)
  qed
  ultimately have "registry_ok self c calls' ks" using ks by (simp add: registry_ok_def)
  moreover have "user_data_ok L self c calls'"
  proof (rule user_data_ok_same [of L self c calls])
    show "user_data_ok L self c calls" using assms(1) by (simp add: streams_ok_def)
    show "\<exists>call'. calls' k = Some call' \<and> listed self call' \<and> stream_id call' = stream_id call"
      if "calls k = Some call" "listed self call" for k call using assms(2) [OF that] by blast
  qed simp_all
  ultimately show ?thesis by (auto simp: streams_ok_def)
qed

section \<open>Driving one connection\<close>

lemma dom_kept: "calls_kept self calls calls' \<Longrightarrow> dom calls' = dom calls"
  by (auto simp: calls_kept_def dom_def) (metis map_option_eq_Some option.distinct(1) option.map_disc_iff not_None_eq)+

lemma streams_ok_foreign:
  assumes "streams_ok L j c calls" "calls_kept self calls calls'" "j \<noteq> self"
  shows "streams_ok L j c calls'"
proof (rule streams_ok_listed [OF assms(1)])
  fix k call assume "calls k = Some call" "listed j call"
  then show "\<exists>call'. calls' k = Some call' \<and> next_active_stream call' = next_active_stream call \<and> stream_id call' = stream_id call \<and> listed j call'"
    using assms(2,3) by (auto simp: calls_kept_def listed_def)
next
  fix k call' assume a: "calls' k = Some call'" "listed j call'"
  then obtain call where c: "calls k = Some call" using dom_kept [OF assms(2)] by blast
  have "connection call = connection call'" using calls_keptD [OF assms(2) c] a(1) by (auto simp: call_fixed_def)
  then have "calls' k = Some call" using assms(2,3) a(2) c by (auto simp: calls_kept_def listed_def)
  then show "\<exists>call. calls k = Some call \<and> listed j call" using a c by simp
qed

lemma links_ok_kept:
  assumes "links_ok X h" "calls_kept self (hp_calls h) calls'" "\<And>j. hp_conns h j \<noteq> None \<Longrightarrow> conns j \<noteq> None"
  shows "links_ok X (h\<lparr>hp_conns := conns, hp_calls := calls'\<rparr>)"
  unfolding links_ok_def
proof (intro allI impI)
  fix k call' assume k: "hp_calls (h\<lparr>hp_conns := conns, hp_calls := calls'\<rparr>) k = Some call'"
  then obtain call where c: "hp_calls h k = Some call" using dom_kept [OF assms(2)] by auto
  then have "connection call' = connection call \<and> connection_owned call' = connection_owned call"
    using calls_keptD [OF assms(2) c] k by (auto simp: call_fixed_def)
  then show "(connection_owned call' \<longrightarrow> (\<exists>self. connection call' = Some self \<and> hp_conns (h\<lparr>hp_conns := conns, hp_calls := calls'\<rparr>) self \<noteq> None))
    \<and> (connection call' \<noteq> None \<longrightarrow> connection_owned call' \<or> k \<in> X)"
    using assms(1,3) c unfolding links_ok_def by simp metis
qed

lemma cache_ok_conn:
  assumes "cache_ok h" "hp_conns h self = Some c" "h2_detached_from_cache c' = h2_detached_from_cache c"
  shows "cache_ok (put_streams self c' calls h)"
  using assms unfolding cache_ok_def by (auto simp: fun_upd_def) (metis option.inject)+

text \<open>Driving one connection keeps the invariant of the whole heap.\<close>

lemma heap_inv_driven:
  assumes ok: "heap_inv L X S h" and c: "hp_conns h self = Some c" and d: "driven_inv L self (c, hp_calls h) (c', calls')"
  shows "heap_inv L X S (put_streams self c' calls' h)"
proof -
  have kept: "calls_kept self (hp_calls h) calls'" "conn_kept c c'" "conn_inv L self c' calls'" using d by (simp_all add: driven_inv_def)
  have own: "h2_detached_from_cache c' = h2_detached_from_cache c" "h2_stream_owner_count c' = h2_stream_owner_count c"
    "h2_current_read_call c' = h2_current_read_call c" using kept(2) by (simp_all add: conn_kept_def conn_owner_def)
  have os: "owners calls' j = owners (hp_calls h) j" for j
    by (rule owners_fixed) (use kept(1) in \<open>simp add: calls_kept_def\<close>)
  have cok: "conns_ok L h" "links_ok X h" "cache_ok h" "kept_alive S h" using ok by (simp_all add: heap_inv_def heap_ok_def)
  have "conns_ok L (put_streams self c' calls' h)"
    unfolding conns_ok_def
  proof (intro allI impI)
    fix j cj assume "hp_conns (put_streams self c' calls' h) j = Some cj"
    then consider "j = self" "cj = c'" | "j \<noteq> self" "hp_conns h j = Some cj" by (auto split: if_splits)
    then show "streams_ok L j cj (hp_calls (put_streams self c' calls' h))
      \<and> h2_stream_owner_count cj = card (owners (hp_calls (put_streams self c' calls' h)) j) \<and> h2_current_read_call cj = None"
    proof cases
      case 1
      then show ?thesis using cok(1) c own os kept(3) by (simp add: conns_ok_def conn_inv_def)
    next
      case 2
      then show ?thesis using cok(1) os streams_ok_foreign [OF _ kept(1), of L j cj] by (simp add: conns_ok_def)
    qed
  qed
  moreover have "links_ok X (put_streams self c' calls' h)"
    unfolding put_streams_def using cok(2) kept(1) by (rule links_ok_kept) simp
  moreover have "kept_alive S (put_streams self c' calls' h)"
    using cok(4) c own by (auto simp: kept_alive_def cached_def)
  ultimately show ?thesis
    using ok kept(3) dom_kept [OF kept(1)] cache_ok_conn [OF cok(3) c own(1)] by (simp add: heap_inv_def heap_ok_def conn_inv_def)
qed

lemma heap_inv_conn:
  assumes "heap_inv L X S h" "hp_conns h self = Some c"
  shows "conn_inv L self c (hp_calls h)" "h2_stream_owner_count c = card (owners (hp_calls h) self)" "finite (owners (hp_calls h) self)"
  using assms owners_finite by (auto simp: heap_defs conn_inv_def)

section \<open>The table\<close>

lemma entry_of_connection_Some:
  "entry_of_connection self es = Some (key, e) \<Longrightarrow> (key, e) \<in> set es \<and> pe_connection e = self"
  by (induction self es rule: entry_of_connection.induct) (auto split: if_splits)

lemma entry_of_connection_None:
  "entry_of_connection self es = None \<Longrightarrow> (key, e) \<in> set es \<Longrightarrow> pe_connection e \<noteq> self"
  by (induction self es rule: entry_of_connection.induct) (auto split: if_splits)

lemma cache_find_entry:
  assumes "cache_ok h" "cache_find key h = Some e"
  shows "(key, e) \<in> set (hp_cache h)" "cached h (pe_connection e)" "hp_initialized h"
proof -
  show m: "(key, e) \<in> set (hp_cache h)" using assms(2) by (auto simp: cache_find_def dest: map_of_SomeD split: if_splits)
  then show "cached h (pe_connection e)" by (auto simp: cached_def)
  show "hp_initialized h" using assms(2) by (simp add: cache_find_def split: if_splits)
qed

lemma cache_entry_unique:
  assumes "cache_ok h" "(key, e) \<in> set (hp_cache h)" "(key', e') \<in> set (hp_cache h)" "pe_connection e = pe_connection e'"
  shows "(key, e) = (key', e')"
proof -
  have "inj_on (\<lambda>(key, e). pe_connection e) (set (hp_cache h))" using assms(1) by (simp add: cache_ok_def distinct_map)
  from inj_onD [OF this, of "(key, e)" "(key', e')"] show ?thesis using assms(2-4) by simp
qed

lemma cached_del:
  assumes "cache_ok h" "(key, e) \<in> set (hp_cache h)"
  shows "cached (cache_del key h) j \<longleftrightarrow> cached h j \<and> j \<noteq> pe_connection e"
proof
  assume "cached (cache_del key h) j"
  then obtain k' e' where "(k', e') \<in> set (hp_cache h)" "k' \<noteq> key" "pe_connection e' = j"
    by (auto simp: cached_def cache_del_def)
  then show "cached h j \<and> j \<noteq> pe_connection e" using cache_entry_unique [OF assms] by (force simp: cached_def)
next
  assume a: "cached h j \<and> j \<noteq> pe_connection e"
  then obtain k' e' where k: "(k', e') \<in> set (hp_cache h)" "pe_connection e' = j" by (auto simp: cached_def)
  have "k' \<noteq> key"
  proof
    assume "k' = key"
    then have "e' = e" using assms k by (auto simp: cache_ok_def dest: eq_key_imp_eq_value)
    then show False using a k(2) by simp
  qed
  then show "cached (cache_del key h) j" using k by (auto simp: cached_def cache_del_def)
qed

lemma distinct_map_filtered: "distinct (map f xs) \<Longrightarrow> distinct (map f (filter P xs))"
  by (induction xs) auto

lemma cache_ok_del: "cache_ok h \<Longrightarrow> cache_ok (cache_del key h)"
  unfolding cache_ok_def
  using order_trans [OF length_filter_le [of "\<lambda>(k, e). k \<noteq> key" "hp_cache h"], of GRPC_LITE_MAX_PERSISTENT_CONNECTIONS]
  by (auto simp: cache_del_def distinct_map_filtered)

lemma cache_ok_uncached:
  assumes "cache_ok h" "\<not> cached h self"
  shows "cache_ok (h\<lparr>hp_conns := (hp_conns h)(self := v)\<rparr>)"
  using assms unfolding cache_ok_def cached_def by auto

lemma cached_live:
  assumes "cache_ok h" "cached h self"
  shows "\<exists>c. hp_conns h self = Some c \<and> \<not> h2_detached_from_cache c"
  using assms unfolding cache_ok_def cached_def by blast

section \<open>Single steps on the heap\<close>

lemma links_ok_owned:
  assumes "links_ok X h" "hp_calls h' = hp_calls h"
    and "\<And>j. hp_conns h j \<noteq> None \<Longrightarrow> owners (hp_calls h) j \<noteq> {} \<Longrightarrow> hp_conns h' j \<noteq> None"
  shows "links_ok X h'"
  unfolding links_ok_def
proof (intro allI impI)
  fix k call assume k: "hp_calls h' k = Some call"
  then have k': "hp_calls h k = Some call" using assms(2) by simp
  have "\<exists>self. connection call = Some self \<and> hp_conns h' self \<noteq> None" if own: "connection_owned call"
  proof -
    obtain self where s: "connection call = Some self" "hp_conns h self \<noteq> None"
      using assms(1) k' own unfolding links_ok_def by blast
    moreover have "k \<in> owners (hp_calls h) self" using k' own s(1) by (simp add: owners_def)
    ultimately show ?thesis using assms(3) by blast
  qed
  then show "(connection_owned call \<longrightarrow> (\<exists>self. connection call = Some self \<and> hp_conns h' self \<noteq> None))
    \<and> (connection call \<noteq> None \<longrightarrow> connection_owned call \<or> k \<in> X)"
    using assms(1) k' unfolding links_ok_def by blast
qed

text \<open>An entry of \<open>self\<close> leaves the table.\<close>

lemma del_inv:
  assumes "heap_inv L X S h" "(key, e) \<in> set (hp_cache h)"
  shows "heap_inv L X (insert (pe_connection e) S) (cache_del key h)"
proof -
  have ok: "cache_ok h" using assms(1) by (simp add: heap_inv_def heap_ok_def)
  have "kept_alive S h" using assms(1) by (simp add: heap_inv_def)
  then have "kept_alive (insert (pe_connection e) S) (cache_del key h)"
    by (intro kept_aliveI) (use cached_del [OF ok assms(2)] kept_aliveD in fastforce)
  then show ?thesis using assms cache_ok_del [OF ok] by (simp add: heap_inv_def heap_ok_def conns_ok_def links_ok_def)
qed

text \<open>The flag of a connection outside the table.\<close>

lemma set_detached_inv:
  assumes inv: "heap_inv L X S h" and c: "hp_conns h self = Some c" "\<not> cached h self"
  shows "set_detached self h = Ok (put_conn self (c\<lparr>h2_detached_from_cache := True\<rparr>) h)"
    "heap_inv L X S (put_conn self (c\<lparr>h2_detached_from_cache := True\<rparr>) h)"
proof -
  let ?c = "c\<lparr>h2_detached_from_cache := True\<rparr>"
  have "streams_ok L self ?c (hp_calls h)"
    using heap_inv_conn(1) [OF inv c(1)] streams_ok_connection [of L self c "hp_calls h" ?c] by (simp add: conn_inv_def)
  then have "conns_ok L (put_conn self ?c h)" using inv c(1) by (simp add: heap_defs)
  moreover have "cache_ok (put_conn self ?c h)"
    using cache_ok_uncached [of h self "Some ?c"] inv c(2) by (simp add: heap_defs put_conn_def)
  moreover have "kept_alive S (put_conn self ?c h)"
  proof (rule kept_aliveI)
    fix j cj assume j: "hp_conns (put_conn self ?c h) j = Some cj" "j \<notin> S"
    have "cached (put_conn self ?c h) j = cached h j" by (simp add: cached_def)
    then show "cached (put_conn self ?c h) j \<or> h2_detached_from_cache cj \<and> 0 < h2_stream_owner_count cj"
      using kept_aliveD [of S h j] inv j c by (auto simp: heap_inv_def split: if_splits)
  qed
  moreover have "links_ok X (put_conn self ?c h)" by (rule links_ok_owned [of X h]) (use inv in \<open>simp_all add: heap_defs\<close>)
  ultimately show "heap_inv L X S (put_conn self ?c h)"
    using inv by (simp add: heap_inv_def heap_ok_def)
qed (use c in \<open>simp add: set_detached_def\<close>)

text \<open>Freeing a connection that no call owns and that is not in the table.\<close>

lemma destroy_inv:
  assumes inv: "heap_inv L X S h" and c: "hp_conns h self = Some c" "\<not> cached h self" "h2_stream_owner_count c = 0"
  shows "destroy_h2_connection self h = Ok (h\<lparr>hp_conns := (hp_conns h)(self := None)\<rparr>)"
    "heap_inv L X (S - {self}) (h\<lparr>hp_conns := (hp_conns h)(self := None)\<rparr>)"
proof -
  have none: "owners (hp_calls h) self = {}" using heap_inv_conn [OF inv c(1)] c(3) by simp
  have "links_ok X (h\<lparr>hp_conns := (hp_conns h)(self := None)\<rparr>)"
    by (rule links_ok_owned [of X h]) (use inv none in \<open>auto simp: heap_defs split: if_splits\<close>)
  moreover have "cache_ok (h\<lparr>hp_conns := (hp_conns h)(self := None)\<rparr>)"
    by (rule cache_ok_uncached) (use inv c in \<open>simp_all add: heap_defs\<close>)
  moreover have "kept_alive (S - {self}) (h\<lparr>hp_conns := (hp_conns h)(self := None)\<rparr>)"
  proof (rule kept_aliveI)
    fix j cj assume j: "hp_conns (h\<lparr>hp_conns := (hp_conns h)(self := None)\<rparr>) j = Some cj" "j \<notin> S - {self}"
    then have "hp_conns h j = Some cj" "j \<notin> S" by (auto split: if_splits)
    then show "cached (h\<lparr>hp_conns := (hp_conns h)(self := None)\<rparr>) j \<or> h2_detached_from_cache cj \<and> 0 < h2_stream_owner_count cj"
      using kept_aliveD [of S h j cj] inv by (auto simp: heap_inv_def cached_def)
  qed
  ultimately show "heap_inv L X (S - {self}) (h\<lparr>hp_conns := (hp_conns h)(self := None)\<rparr>)"
    using inv by (simp add: heap_defs)
qed (use c in \<open>simp add: destroy_h2_connection_def\<close>)

lemma destroy_if_unowned_inv:
  assumes inv: "heap_inv L X (insert self S) h" and c: "hp_conns h self = Some c" "cached h self \<or> h2_detached_from_cache c"
  shows "\<exists>h'. destroy_detached_connection_if_unowned self h = Ok h' \<and> heap_inv L X (S - {self}) h'
    \<and> hp_calls h' = hp_calls h \<and> hp_cache h' = hp_cache h \<and> hp_initialized h' = hp_initialized h
    \<and> (\<forall>j. j \<noteq> self \<longrightarrow> hp_conns h' j = hp_conns h j)
    \<and> hp_conns h' self = (if h2_detached_from_cache c \<and> h2_stream_owner_count c = 0 then None else Some c)"
proof (cases "h2_detached_from_cache c \<and> h2_stream_owner_count c = 0")
  case True
  have "\<not> cached h self" using cached_live [of h self] inv c(1) True by (auto simp: heap_inv_def heap_ok_def)
  from destroy_inv [OF inv c(1) this] show ?thesis using True c(1) by (simp add: destroy_detached_connection_if_unowned_def)
next
  case False
  have "kept_alive (insert self S) h" using inv by (simp add: heap_inv_def)
  then have "kept_alive (S - {self}) h"
  proof (intro kept_aliveI)
    fix j cj assume "kept_alive (insert self S) h" "hp_conns h j = Some cj" "j \<notin> S - {self}"
    then show "cached h j \<or> h2_detached_from_cache cj \<and> 0 < h2_stream_owner_count cj"
      using kept_aliveD [of "insert self S" h j cj] False c by (cases "j = self") auto
  qed
  then show ?thesis using False c(1) inv by (auto simp: destroy_detached_connection_if_unowned_def heap_inv_def)
qed

section \<open>Detaching and discarding\<close>

lemma detach_inv:
  assumes inv: "heap_inv L X S h" and c: "hp_conns h self = Some c" "self \<notin> S"
  defines "c' \<equiv> c\<lparr>h2_detached_from_cache := True\<rparr>"
  shows "\<exists>h'. detach_persistent_connection_by_ptr self h = Ok h' \<and> heap_inv L X (insert self S) h' \<and> hp_calls h' = hp_calls h
    \<and> hp_conns h' = (hp_conns h)(self \<mapsto> c') \<and> hp_initialized h' = hp_initialized h \<and> set (hp_cache h') \<subseteq> set (hp_cache h)"
proof (cases "entry_of_connection self (hp_cache h)")
  case None
  have u: "\<not> cached h self" using entry_of_connection_None [OF None] by (auto simp: cached_def)
  have "h2_detached_from_cache c" using kept_aliveD [of S h self c] inv c u by (auto simp: heap_inv_def)
  then have "c' = c" by (simp add: c'_def)
  moreover have "heap_inv L X (insert self S) h" using inv by (auto simp: heap_inv_def kept_alive_def)
  ultimately show ?thesis using None c by (auto simp: detach_persistent_connection_by_ptr_def)
next
  case (Some r)
  obtain key e where r: "r = (key, e)" by fastforce
  have e: "(key, e) \<in> set (hp_cache h)" "pe_connection e = self" using entry_of_connection_Some Some r by auto
  have ok: "cache_ok h" using inv by (simp add: heap_defs)
  have init: "hp_initialized h" using ok e(1) by (auto simp: cache_ok_def)
  note d = del_inv [OF inv e(1), unfolded e(2)]
  have u: "\<not> cached (cache_del key h) self" using cached_del [OF ok e(1)] e(2) by simp
  from set_detached_inv [OF d _ u] c(1) have
    "set_detached self (cache_del key h) = Ok (put_conn self c' (cache_del key h))"
    "heap_inv L X (insert self S) (put_conn self c' (cache_del key h))" by (simp_all add: c'_def)
  moreover have "set (hp_cache (cache_del key h)) \<subseteq> set (hp_cache h)" by (auto simp: cache_del_def)
  ultimately show ?thesis using Some r init
    by (simp add: detach_persistent_connection_by_ptr_def destroy_persistent_connection_entry_def)
qed

text \<open>
  Discarding under the right key.  Afterwards the connection is gone, or it is detached and its last owner
  will free it.
\<close>

definition keyed :: "string \<Rightarrow> conn_id \<Rightarrow> 'ss heap \<Rightarrow> bool" where
  "keyed key self h \<longleftrightarrow> (\<forall>key' e. (key', e) \<in> set (hp_cache h) \<longrightarrow> pe_connection e = self \<longrightarrow> key' = key)"

definition discarded :: "string \<Rightarrow> conn_id \<Rightarrow> 'ss heap \<Rightarrow> 'ss heap \<Rightarrow> bool" where
  "discarded key self h h' \<longleftrightarrow> hp_calls h' = hp_calls h \<and> hp_initialized h' = hp_initialized h \<and> \<not> cached h' self
     \<and> (\<forall>key' e. (key', e) \<in> set (hp_cache h') \<longleftrightarrow> (key', e) \<in> set (hp_cache h) \<and> pe_connection e \<noteq> self)
     \<and> (\<forall>j. j \<noteq> self \<longrightarrow> hp_conns h' j = hp_conns h j)
     \<and> (\<forall>c. hp_conns h self = Some c \<longrightarrow> hp_conns h' self =
          (if h2_stream_owner_count c = 0 then None else Some (c\<lparr>h2_detached_from_cache := True\<rparr>)))"

lemma discard_uncached:
  assumes inv: "heap_inv L X (insert self S) h" and c: "hp_conns h self = Some c" "\<not> cached h self"
  shows "\<exists>h'. and_then (set_detached self h) (destroy_detached_connection_if_unowned self) = Ok h'
    \<and> heap_inv L X (S - {self}) h' \<and> discarded key self h h'"
proof -
  let ?c = "c\<lparr>h2_detached_from_cache := True\<rparr>"
  note s = set_detached_inv [OF inv c]
  have "hp_conns (put_conn self ?c h) self = Some ?c" by simp
  from destroy_if_unowned_inv [OF s(2) this] obtain h' where
    h': "destroy_detached_connection_if_unowned self (put_conn self ?c h) = Ok h'" "heap_inv L X (S - {self}) h'"
    "hp_calls h' = hp_calls h" "hp_cache h' = hp_cache h" "hp_initialized h' = hp_initialized h"
    "\<forall>j. j \<noteq> self \<longrightarrow> hp_conns h' j = hp_conns h j"
    "hp_conns h' self = (if h2_stream_owner_count c = 0 then None else Some ?c)" by auto
  have "discarded key self h h'" unfolding discarded_def using h' c by (auto simp: cached_def)
  then show ?thesis using s(1) h'(1,2) by simp
qed

lemma discard_inv:
  assumes inv: "heap_inv L X (insert self S) h" and c: "hp_conns h self = Some c" and key: "keyed key self h"
  shows "\<exists>h'. discard_persistent_connection key self h = Ok h' \<and> heap_inv L X (S - {self}) h' \<and> discarded key self h h'"
proof (cases "\<exists>e. cache_find key h = Some e \<and> pe_connection e = self")
  case False
  have "\<not> cached h self"
  proof
    assume "cached h self"
    then obtain e where e: "(key, e) \<in> set (hp_cache h)" "pe_connection e = self" using key by (auto simp: keyed_def cached_def)
    have "cache_ok h" using inv by (simp add: heap_defs)
    then have "cache_find key h = Some e" using e(1) by (auto simp: cache_find_def cache_ok_def)
    then show False using False e(2) by blast
  qed
  from discard_uncached [OF inv c this, of key] show ?thesis
    using False by (auto simp: discard_persistent_connection_def split: option.splits)
next
  case True
  then obtain e where e: "cache_find key h = Some e" "pe_connection e = self" by blast
  have ok: "cache_ok h" using inv by (simp add: heap_defs)
  note m = cache_find_entry [OF ok e(1)]
  have d: "heap_inv L X (insert self S) (cache_del key h)" using del_inv [OF inv m(1)] e(2) by simp
  have u: "\<not> cached (cache_del key h) self" using cached_del [OF ok m(1)] e(2) by simp
  have dk: "distinct (map fst (hp_cache h))" using ok by (simp add: cache_ok_def)
  have del: "(key', e') \<in> set (hp_cache (cache_del key h)) \<longleftrightarrow> (key', e') \<in> set (hp_cache h) \<and> pe_connection e' \<noteq> self" for key' e'
  proof -
    have "(key' = key) = (pe_connection e' = self)" if k: "(key', e') \<in> set (hp_cache h)"
    proof
      assume "key' = key"
      then have "e' = e" using eq_key_imp_eq_value [OF dk m(1)] k by blast
      then show "pe_connection e' = self" using e(2) by simp
    qed (use key k in \<open>simp add: keyed_def\<close>)
    then show ?thesis by (auto simp: cache_del_def)
  qed
  have "hp_conns (cache_del key h) self = Some c" using c by simp
  note u1 = discard_uncached [OF d this u, of key]
  show ?thesis
  proof (cases "0 < h2_stream_owner_count c")
    case True
    then show ?thesis using u1 e c del
      by (auto simp: discard_persistent_connection_def set_detached_def destroy_detached_connection_if_unowned_def
          destroy_persistent_connection_entry_def discarded_def)
  next
    case False
    then have z: "h2_stream_owner_count c = 0" by simp
    have "hp_conns (cache_del key h) self = Some c" using c by simp
    note ds = destroy_inv [OF d this u z]
    have "discarded key self h ((cache_del key h)\<lparr>hp_conns := (hp_conns h)(self := None)\<rparr>)"
      using u del c z by (simp add: discarded_def cached_def)
    then show ?thesis using ds False e c
      by (simp add: discard_persistent_connection_def destroy_persistent_connection_entry_def Let_def)
  qed
qed

section \<open>Releasing a connection\<close>

lemma unregister_inv:
  assumes inv: "heap_inv L X S h" and laws: "user_data_laws L"
    and k: "hp_calls h k = Some call" "connection call = Some self" and c: "hp_conns h self = Some c"
  shows "\<exists>c' calls' call'. unregister_call L self k h = Ok (put_streams self c' calls' h) \<and> heap_inv L X S (put_streams self c' calls' h)
    \<and> conn_kept c c' \<and> calls_kept self (hp_calls h) calls' \<and> calls' k = Some call' \<and> call_fixed call' = call_fixed call
    \<and> (\<forall>j. \<not> listed j call')"
proof -
  have st: "streams_ok L self c (hp_calls h)" "calls_wf (hp_calls h)"
    using heap_inv_conn(1) [OF inv c] by (simp_all add: conn_inv_def)
  from unregister_streams [OF laws st(1) k(1)] k(2) obtain c' calls' call' where
    u: "unregister_grpc_call_stream L self k c (hp_calls h) = Ok (c', calls')" "streams_ok L self c' calls'"
    "erase_registry c' = erase_registry c" "(h2_session c' = None) = (h2_session c = None)"
    "same_calls calls' (hp_calls h)" "foreign_kept self (hp_calls h) calls'"
    "calls' k = Some call'" "0 < stream_id call \<longrightarrow> \<not> stream_registered call'" by auto
  have kept: "calls_kept self (hp_calls h) calls'" using foreign_calls_kept [OF u(6)] same_calls_fixed [OF u(5)] by blast
  have ck: "conn_kept c c'" by (rule erase_registry_kept [OF u(3,4)])
  have fx: "call_fixed call' = call_fixed call" using calls_keptD [OF kept k(1)] u(7) by auto
  have "driven_inv L self (c, hp_calls h) (c', calls')"
    using u(2) kept ck calls_kept_wf [OF kept st(2)] by (simp add: driven_inv_def conn_inv_def)
  from heap_inv_driven [OF inv c this] have "heap_inv L X S (put_streams self c' calls' h)" .
  moreover have "\<not> listed j call'" for j using u(8) fx by (auto simp: listed_def call_fixed_def)
  moreover have "unregister_call L self k h = Ok (put_streams self c' calls' h)" using u(1) c by (simp add: unregister_call_def)
  ultimately show ?thesis using u(7) kept ck fx by blast
qed

lemma calls_wf_upd:
  "calls_wf calls \<Longrightarrow> calls k = Some call \<Longrightarrow> direct_call call' = direct_call call \<Longrightarrow> request_ok call' = request_ok call
     \<Longrightarrow> calls_wf (calls(k \<mapsto> call'))"
  by (auto simp: calls_wf_def)

lemma wf_fields [simp]:
  "direct_call (call\<lparr>connection_owned := b\<rparr>) = direct_call call" "request_ok (call\<lparr>connection_owned := b\<rparr>) = request_ok call"
  "direct_call (call\<lparr>connection := p\<rparr>) = direct_call call" "request_ok (call\<lparr>connection := p\<rparr>) = request_ok call"
  by (simp_all add: direct_call_def request_ok_def)

lemma drop_owner_inv:
  assumes inv: "heap_inv L X S h" and k: "hp_calls h k = Some call" "connection call = Some self" "connection_owned call"
    and c: "hp_conns h self = Some c"
  defines "call' \<equiv> call\<lparr>connection_owned := False\<rparr>" and "c' \<equiv> c\<lparr>h2_stream_owner_count := h2_stream_owner_count c - 1\<rparr>"
  shows "drop_owner self k h = Ok (put_call k call' (put_conn self c' h))"
    "heap_inv L (insert k X) (insert self S) (put_call k call' (put_conn self c' h))"
proof -
  let ?h = "put_call k call' (put_conn self c' h)"
  note own = heap_inv_conn [OF inv c]
  have mem: "k \<in> owners (hp_calls h) self" using k by (simp add: owners_def)
  then have pos: "0 < h2_stream_owner_count c" using own(2,3) card_gt_0_iff by fastforce
  then show "drop_owner self k h = Ok ?h" using k c by (simp add: drop_owner_def call'_def c'_def)
  have os: "owners (hp_calls ?h) j = (if j = self then owners (hp_calls h) self - {k} else owners (hp_calls h) j)" for j
    using owners_upd [of "hp_calls h" k call self j] k by (simp add: call'_def)
  have "streams_ok L j cj (hp_calls ?h)" if j: "hp_conns ?h j = Some cj" for j cj
  proof -
    obtain c0 where c0: "hp_conns h j = Some c0" "streams_ok L j c0 (hp_calls h) \<Longrightarrow> streams_ok L j cj (hp_calls h)"
      using j c streams_ok_connection [of L self c "hp_calls h" c'] by (auto simp: c'_def split: if_splits)
    then have "streams_ok L j cj (hp_calls h)" using heap_inv_conn(1) [OF inv c0(1)] by (simp add: conn_inv_def)
    then show ?thesis using streams_ok_note [of L j cj "hp_calls h" k call call'] k by (simp add: call'_def listed_def)
  qed
  moreover have "h2_stream_owner_count cj = card (owners (hp_calls ?h) j)" "h2_current_read_call cj = None"
    if "hp_conns ?h j = Some cj" for j cj
    using that os [of j] own mem inv c unfolding heap_defs by (auto simp: c'_def split: if_splits)
  ultimately have "conns_ok L ?h" unfolding conns_ok_def by blast
  moreover have "links_ok (insert k X) ?h"
    using inv c unfolding heap_inv_def heap_ok_def links_ok_def by (auto simp: call'_def) metis+
  moreover have "cache_ok ?h"
    using cache_ok_conn [of h self c c' "hp_calls h"] inv c by (simp add: heap_inv_def heap_ok_def cache_ok_def c'_def)
  moreover have "kept_alive (insert self S) ?h"
    by (rule kept_alive_mono [of S h]) (use inv in \<open>auto simp: heap_inv_def split: if_splits\<close>)
  moreover have "calls_wf (hp_calls ?h)" using inv k(1) by (simp add: heap_defs calls_wf_upd call'_def)
  moreover have "finite (dom (hp_calls ?h))" using inv by (simp add: heap_defs)
  ultimately show "heap_inv L (insert k X) (insert self S) ?h" by (simp only: heap_inv_def heap_ok_def)
qed

text \<open>A call that owns nothing and is on no list can drop its pointer, or be freed.\<close>

lemma unlinked_call_inv:
  assumes inv: "heap_inv L (insert k X) S h" and k: "hp_calls h k = Some call" "\<not> connection_owned call" "\<And>j. \<not> listed j call"
    and v: "v = None \<or> v = Some (call\<lparr>connection := None\<rparr>)"
  shows "heap_inv L X S (h\<lparr>hp_calls := (hp_calls h)(k := v)\<rparr>)"
proof -
  let ?h = "h\<lparr>hp_calls := (hp_calls h)(k := v)\<rparr>"
  have nl: "\<not> listed j call'" if "v = Some call'" for j call' using v that k(3) by (auto simp: listed_def)
  have "streams_ok L j cj (hp_calls ?h)" if "hp_conns h j = Some cj" for j cj
  proof (rule streams_ok_listed [of L j cj "hp_calls h"])
    show "streams_ok L j cj (hp_calls h)" using heap_inv_conn(1) [OF inv that] by (simp add: conn_inv_def)
  qed (use k(1,3) nl in \<open>auto split: if_splits\<close>)
  moreover have "owners (hp_calls ?h) j = owners (hp_calls h) j" for j
    using k v by (auto simp: owners_def split: if_splits)
  ultimately have "conns_ok L ?h" using inv by (simp add: heap_defs)
  moreover have "links_ok X ?h" using inv v k unfolding heap_inv_def heap_ok_def links_ok_def by auto
  moreover have "calls_wf (hp_calls ?h)" using inv v k(1) by (auto simp: heap_defs calls_wf_def)
  moreover have "finite (dom (hp_calls ?h))" using inv v by (auto simp: heap_defs)
  moreover have "cache_ok ?h" using inv by (simp add: heap_inv_def heap_ok_def cache_ok_def)
  moreover have "kept_alive S ?h" by (rule kept_alive_mono [of S h]) (use inv in \<open>simp_all add: heap_inv_def\<close>)
  ultimately show ?thesis by (simp only: heap_inv_def heap_ok_def)
qed

lemma forget_inv:
  assumes "heap_inv L (insert k X) S h" "hp_calls h k = Some call" "\<not> connection_owned call" "\<And>j. \<not> listed j call"
  shows "forget_connection k h = Ok (put_call k (call\<lparr>connection := None\<rparr>) h)"
    "heap_inv L X S (put_call k (call\<lparr>connection := None\<rparr>) h)"
  using unlinked_call_inv [OF assms, of "Some (call\<lparr>connection := None\<rparr>)"] assms(2)
  by (simp_all add: forget_connection_def put_call_def)

lemma clear_call_owner_inv:
  assumes inv: "heap_inv L X S h" and laws: "user_data_laws L"
    and k: "hp_calls h k = Some call" "connection call = Some self" "connection_owned call" and c: "hp_conns h self = Some c"
  shows "\<exists>h' c' call'. clear_connection_call_owner L self k h = Ok h' \<and> heap_inv L (insert k X) (insert self S) h'
    \<and> hp_conns h' = (hp_conns h)(self \<mapsto> c'\<lparr>h2_stream_owner_count := h2_stream_owner_count c - 1\<rparr>) \<and> conn_kept c c'
    \<and> hp_calls h' k = Some (call'\<lparr>connection_owned := False\<rparr>) \<and> call_fixed call' = call_fixed call \<and> (\<forall>j. \<not> listed j call')
    \<and> hp_cache h' = hp_cache h \<and> hp_initialized h' = hp_initialized h
    \<and> (\<forall>j. j \<noteq> k \<longrightarrow> map_option call_fixed (hp_calls h' j) = map_option call_fixed (hp_calls h j))"
proof -
  from unregister_inv [OF inv laws k(1,2) c] obtain c' calls' call' where
    u: "unregister_call L self k h = Ok (put_streams self c' calls' h)" "heap_inv L X S (put_streams self c' calls' h)"
    "conn_kept c c'" "calls_kept self (hp_calls h) calls'" "calls' k = Some call'" "call_fixed call' = call_fixed call"
    "\<forall>j. \<not> listed j call'" by blast
  have call': "connection call' = Some self" "connection_owned call'" using u(6) k by (simp_all add: call_fixed_def)
  have cnt: "h2_stream_owner_count c' = h2_stream_owner_count c" using u(3) by (simp add: conn_kept_def conn_owner_def)
  note d = drop_owner_inv [OF u(2), of k call' self c'] 
  have "drop_owner self k (put_streams self c' calls' h) = Ok (put_call k (call'\<lparr>connection_owned := False\<rparr>)
      (put_conn self (c'\<lparr>h2_stream_owner_count := h2_stream_owner_count c - 1\<rparr>) (put_streams self c' calls' h)))"
    "heap_inv L (insert k X) (insert self S) (put_call k (call'\<lparr>connection_owned := False\<rparr>)
      (put_conn self (c'\<lparr>h2_stream_owner_count := h2_stream_owner_count c - 1\<rparr>) (put_streams self c' calls' h)))"
    using d u(5) call' cnt by simp_all
  then show ?thesis using u k c unfolding clear_connection_call_owner_def calls_kept_def by auto
qed

text \<open>Releasing a streaming call: detach when unusable, leave the list, give up ownership, and free an unowned detached connection.\<close>

lemma and_then_assoc: "and_then (and_then r f) g = and_then r (\<lambda>x. and_then (f x) g)"
  by (cases r) simp_all

lemma clear_streaming_split:
  assumes "hp_calls h k = Some call" "connection call = Some self" "hp_conns h self = Some c"
    and "detach_if_unusable self h = Ok h1" "hp_calls h1 k = Some call"
  shows "clear_connection_server_streaming_call_state_owner L k h =
    and_then (clear_connection_call_owner L self k h1)
      (\<lambda>h. and_then (forget_connection k h) (destroy_detached_connection_if_unowned self))"
  using assms by (simp add: clear_connection_server_streaming_call_state_owner_def clear_connection_call_owner_def and_then_assoc)

lemma detach_if_unusable_inv:
  assumes inv: "heap_inv L X {} h" and c: "hp_conns h self = Some c"
  defines "c' \<equiv> if connection_usable (Some c) then c else c\<lparr>h2_detached_from_cache := True\<rparr>"
  shows "\<exists>h'. detach_if_unusable self h = Ok h' \<and> heap_inv L X {self} h' \<and> hp_calls h' = hp_calls h
    \<and> hp_conns h' = (hp_conns h)(self \<mapsto> c') \<and> (cached h' self \<or> h2_detached_from_cache c')"
proof (cases "connection_usable (Some c)")
  case True
  have "cached h self \<or> h2_detached_from_cache c" using kept_aliveD [of "{}" h self c] inv c by (auto simp: heap_inv_def)
  moreover have "heap_inv L X {self} h" using inv by (auto simp: heap_inv_def kept_alive_def)
  ultimately show ?thesis using True c by (auto simp: detach_if_unusable_def c'_def)
next
  case False
  from detach_inv [OF inv c] show ?thesis using False c by (auto simp: detach_if_unusable_def c'_def)
qed

text \<open>What the release leaves of the heap.\<close>

definition released :: "call_id \<Rightarrow> conn_id \<Rightarrow> 'ss heap \<Rightarrow> 'ss heap \<Rightarrow> bool" where
  "released k self h h' \<longleftrightarrow>
     (\<exists>call. hp_calls h' k = Some call \<and> connection call = None \<and> \<not> connection_owned call)
     \<and> (\<forall>j. j \<noteq> k \<longrightarrow> map_option call_fixed (hp_calls h' j) = map_option call_fixed (hp_calls h j))
     \<and> (\<forall>j. j \<noteq> self \<longrightarrow> hp_conns h' j = hp_conns h j)
     \<and> (\<forall>c. hp_conns h self = Some c \<longrightarrow>
          (hp_conns h' self = None \<longleftrightarrow>
             (h2_detached_from_cache c \<or> \<not> connection_usable (Some c)) \<and> h2_stream_owner_count c = 1))"

lemma clear_streaming_inv:
  assumes inv: "heap_inv L X {} h" and laws: "user_data_laws L"
    and k: "hp_calls h k = Some call" "connection call = Some self" "connection_owned call"
  shows "\<exists>h'. clear_connection_server_streaming_call_state_owner L k h = Ok h' \<and> heap_inv L X {} h' \<and> released k self h h'"
proof -
  obtain c where c: "hp_conns h self = Some c" using inv k by (fastforce simp: heap_inv_def heap_ok_def links_ok_def)
  define c1 where "c1 = (if connection_usable (Some c) then c else c\<lparr>h2_detached_from_cache := True\<rparr>)"
  obtain h1 where h1: "detach_if_unusable self h = Ok h1" "heap_inv L X {self} h1" "hp_calls h1 = hp_calls h"
    "hp_conns h1 = (hp_conns h)(self \<mapsto> c1)" "cached h1 self \<or> h2_detached_from_cache c1"
    using detach_if_unusable_inv [OF inv c] unfolding c1_def by blast
  have c1: "hp_conns h1 self = Some c1" and k1: "hp_calls h1 k = Some call" using h1(3,4) k(1) by simp_all
  obtain h2 c2 call2 where h2: "clear_connection_call_owner L self k h1 = Ok h2" "heap_inv L (insert k X) {self} h2"
    "hp_conns h2 = (hp_conns h1)(self \<mapsto> c2\<lparr>h2_stream_owner_count := h2_stream_owner_count c1 - 1\<rparr>)" "conn_kept c1 c2"
    "hp_calls h2 k = Some (call2\<lparr>connection_owned := False\<rparr>)" "\<forall>j. \<not> listed j call2" "hp_cache h2 = hp_cache h1"
    "\<forall>j. j \<noteq> k \<longrightarrow> map_option call_fixed (hp_calls h2 j) = map_option call_fixed (hp_calls h1 j)"
    using clear_call_owner_inv [OF h1(2) laws k1 k(2,3) c1] by auto
  define c3 where "c3 = c2\<lparr>h2_stream_owner_count := h2_stream_owner_count c1 - 1\<rparr>"
  define h3 where "h3 = put_call k (call2\<lparr>connection_owned := False, connection := None\<rparr>) h2"
  have nl: "\<not> listed j (call2\<lparr>connection_owned := False\<rparr>)" for j using h2(6) by (simp add: listed_def)
  have f: "forget_connection k h2 = Ok h3" "heap_inv L X {self} h3"
    using forget_inv [OF h2(2,5) _ nl] by (simp_all add: h3_def)
  have det: "h2_detached_from_cache c3 = h2_detached_from_cache c1" using h2(4) by (simp add: c3_def conn_kept_def conn_owner_def)
  have c3: "hp_conns h3 self = Some c3" "cached h3 self \<or> h2_detached_from_cache c3"
    using h1(5) h2(3,7) det by (simp_all add: h3_def c3_def cached_def)
  obtain h4 where h4: "destroy_detached_connection_if_unowned self h3 = Ok h4" "heap_inv L X {} h4" "hp_calls h4 = hp_calls h3"
    "\<forall>j. j \<noteq> self \<longrightarrow> hp_conns h4 j = hp_conns h3 j"
    "hp_conns h4 self = (if h2_detached_from_cache c3 \<and> h2_stream_owner_count c3 = 0 then None else Some c3)"
    using destroy_if_unowned_inv [OF f(2) c3] by auto
  have cnt: "0 < h2_stream_owner_count c"
    using heap_inv_conn(2,3) [OF inv c] k card_gt_0_iff by (fastforce simp: owners_def)
  have "(hp_conns h4 self = None) = ((h2_detached_from_cache c \<or> \<not> connection_usable (Some c)) \<and> h2_stream_owner_count c = 1)"
    using h4(5) det cnt by (auto simp: c1_def c3_def)
  then have "released k self h h4" using c h4(3,4) h2(3,8) h1(3,4) by (simp add: released_def h3_def)
  moreover have "clear_connection_server_streaming_call_state_owner L k h = Ok h4"
    using clear_streaming_split [OF k(1,2) c h1(1) k1] h2(1) f(1) h4(1) by simp
  ultimately show ?thesis using h4(2) by blast
qed

section \<open>Cancelling\<close>

definition send_script_ok :: "'ss lib \<Rightarrow> conn_id \<Rightarrow> 'ss send_script \<Rightarrow> call_store \<Rightarrow> bool" where
  "send_script_ok L self script calls \<longleftrightarrow> (case script of (evs, adv, rv) \<Rightarrow> adv_ok L adv \<and> sources_ok self evs calls)"

lemma sources_ok_all_kept:
  assumes "sources_ok self evs calls" "calls_kept self calls calls'"
  shows "sources_ok self evs calls'"
proof (cases evs)
  case (Cons ev evs')
  have "sources_ok self (SendBytes [] # evs) calls" using assms(1) by (auto simp: sources_ok_def)
  then show ?thesis by (rule sources_ok_kept [OF _ assms(2)])
qed (simp add: sources_ok_def)

lemma send_script_ok_kept: "send_script_ok L self script calls \<Longrightarrow> calls_kept self calls calls' \<Longrightarrow> send_script_ok L self script calls'"
  by (auto simp: send_script_ok_def intro: sources_ok_all_kept)

lemma send_script_safe:
  assumes "session_laws L" "send_script_ok L self script calls" "conn_inv L self c calls"
  shows "safe (sent_ok L self (c, calls)) (send_pending_h2_frames_with_deadline L self script None fb c calls w)"
  using assms send_pending_safe [of L _ self c calls _ None] by (cases script) (auto simp: send_script_ok_def caller_ok_def)

lemma driven_session:
  assumes "driving_ok L self c calls" "rst_laws L" "nghttp2_submit_rst_stream L (the (h2_session c)) sid e = (ss, rv)" "h2_session c \<noteq> None"
  shows "driven L self (c, calls) (c\<lparr>h2_session := Some ss\<rparr>, calls)"
proof (rule driven_connection [OF assms(1) _ assms(2)])
  obtain s0 where s0: "h2_session c = Some s0" using assms(4) by auto
  have "\<forall>sid. nghttp2_session_get_stream_user_data L ss sid = nghttp2_session_get_stream_user_data L s0 sid"
    using assms(2,3) s0 unfolding rst_laws_def by (metis fst_conv option.sel)
  then show "conn_step L c (c\<lparr>h2_session := Some ss\<rparr>)"
    using s0 by (simp add: conn_step_def conn_kept_def conn_owner_def grpc_call_from_stream_id_def fun_eq_iff)
qed

lemma wipe_errors_step: "conn_step L c (wipe_errors c)"
  by (simp add: conn_step_def conn_kept_def conn_owner_def grpc_call_from_stream_id_def fun_eq_iff wipe_errors_def)

lemma conn_step_inv:
  assumes "conn_inv L self c calls" "conn_step L c c'" "rst_laws L"
  shows "driven_inv L self (c, calls) (c', calls)"
proof -
  have f: "grpc_call_from_stream_id L c' = grpc_call_from_stream_id L c" "h2_active_streams c' = h2_active_streams c"
    "h2_active_stream_count c' = h2_active_stream_count c" "h2_dead c \<longrightarrow> h2_dead c'" "conn_kept c c'"
    using assms(2,3) by (simp_all add: conn_step_def conn_kept_def)
  have "streams_ok L self c' calls"
    using assms(1) f registry_ok_connection [OF _ f(2,3)] by (auto simp: conn_inv_def streams_ok_def user_data_ok_def)
  then show ?thesis using assms(1) f(5) by (simp add: driven_inv_def conn_inv_def)
qed

lemma send_script_driven:
  assumes "session_laws L" "send_script_ok L self script calls" "driving_ok L self c calls" "caller_ok self this calls"
  shows "safe (\<lambda>(rv, c', calls', w'). driven L self (c, calls) (c', calls') \<and> (rv = 0) = connection_io_allowed (Some c'))
    (send_pending_h2_frames_with_deadline L self script this fb c calls w)"
  using assms send_pending_driven [of L _ self c calls _ this] by (cases script) (auto simp: send_script_ok_def)

lemma cancel_driven:
  assumes laws: "session_laws L" and drv: "driving_ok L self c (hp_calls h)" and k: "hp_calls h k = Some call" "connection call = Some self"
    and c: "hp_conns h self = Some c" and script: "send_script_ok L self script (hp_calls h)"
  shows "safe (\<lambda>(h', w'). \<exists>c' calls'. h' = put_streams self c' calls' h \<and> driven L self (c, hp_calls h) (c', calls'))
    (cancel_grpc_call_stream L script e k h w)"
proof (cases "\<not> connection_io_allowed (Some c) \<or> stream_id call \<le> 0 \<or> stream_closed call")
  case True
  have "h = put_streams self c (hp_calls h) h" using c by (simp add: put_streams_def fun_upd_idem)
  moreover have "driven L self (c, hp_calls h) (c, hp_calls h)" using drv by (simp add: driven_def)
  moreover have "cancel_grpc_call_stream L script e k h w = Ok (h, w)" using True k c by (auto simp: cancel_grpc_call_stream_def)
  ultimately show ?thesis by auto
next
  case False
  have io: "h2_session c \<noteq> None" using False by (auto simp: connection_io_allowed_def)
  have rst: "rst_laws L" using laws by (simp add: session_laws_def)
  define calls1 where "calls1 = (hp_calls h)(k \<mapsto> call\<lparr>locally_cancelled := True\<rparr>)"
  have d1: "driven L self (c, hp_calls h) (c, calls1)" unfolding calls1_def by (rule driven_call [OF drv k]) simp
  obtain ss rv where sub: "nghttp2_submit_rst_stream L (the (h2_session c)) (stream_id call) e = (ss, rv)" by fastforce
  define c1 where "c1 = c\<lparr>h2_session := Some ss\<rparr>"
  have "driven L self (c, calls1) (c1, calls1)"
    unfolding c1_def by (rule driven_session [OF _ rst sub io]) (use d1 in \<open>simp add: driven_def\<close>)
  then have d2: "driven L self (c, hp_calls h) (c1, calls1)" by (rule driven_trans [OF d1])
  then have drv1: "driving_ok L self c1 calls1" by (simp add: driven_def)
  have put: "put_streams self x y (put_call k z h) = put_streams self x y h"
    "put_conn self x (put_call k (call\<lparr>locally_cancelled := True\<rparr>) h) = put_streams self x calls1 h" for x y z
    by (simp_all add: put_streams_def put_call_def put_conn_def calls1_def)
  show ?thesis
  proof (cases "rv = 0")
    case False
    have "driven L self (c1, calls1) (mark_connection_dead L rv c1, calls1)"
      by (rule driven_connection [OF drv1 mark_dead_conn_step rst])
    then show ?thesis using \<open>\<not> (\<not> connection_io_allowed (Some c) \<or> stream_id call \<le> 0 \<or> stream_closed call)\<close> False k c sub
        driven_trans [OF d2] put(2)
      by (fastforce simp: cancel_grpc_call_stream_def c1_def [symmetric])
  next
    case True
    have sc: "send_script_ok L self script calls1" using send_script_ok_kept [OF script] d2 by (simp add: driven_def)
    have "safe (\<lambda>(h', w'). \<exists>c' calls'. h' = put_streams self c' calls' h \<and> driven L self (c, hp_calls h) (c', calls'))
        (and_then (send_pending_h2_frames_with_deadline L self script None d c1 calls1 w1) (\<lambda>(rv, c, calls, w).
           Ok (put_streams self (if rv = 0 then wipe_errors c else c) calls h, w)))" for d w1
    proof (rule safe_and_then [OF send_script_driven [OF laws sc drv1]], simp add: caller_ok_def, clarify)
      fix rv c2 calls2 w2 assume d3: "driven L self (c1, calls1) (c2, calls2)"
      then have "driving_ok L self c2 calls2" by (simp add: driven_def)
      then have "driven L self (c2, calls2) (wipe_errors c2, calls2)" by (rule driven_connection [OF _ wipe_errors_step rst])
      then have "driven L self (c, hp_calls h) (if rv = 0 then wipe_errors c2 else c2, calls2)"
        using d2 d3 driven_trans by (cases "rv = 0") (simp_all, blast+)
      then show "safe (\<lambda>(h', w'). \<exists>c' calls'. h' = put_streams self c' calls' h \<and> driven L self (c, hp_calls h) (c', calls'))
        (Ok (put_streams self (if rv = 0 then wipe_errors c2 else c2) calls2 h, w2))" unfolding safe_Ok prod.case by blast
    qed
    then show ?thesis using \<open>\<not> (\<not> connection_io_allowed (Some c) \<or> stream_id call \<le> 0 \<or> stream_closed call)\<close> True k c sub
      by (auto simp: cancel_grpc_call_stream_def Let_def c1_def [symmetric] put(1) calls1_def [symmetric] split: option.splits)
  qed
qed

lemma cancel_safe:
  assumes laws: "session_laws L" and inv: "heap_inv L X S h" and k: "hp_calls h k = Some call" "connection call = Some self"
    and c: "hp_conns h self = Some c" and script: "send_script_ok L self script (hp_calls h)"
  shows "safe (\<lambda>(h', w'). \<exists>c' calls'. h' = put_streams self c' calls' h \<and> driven_inv L self (c, hp_calls h) (c', calls'))
    (cancel_grpc_call_stream L script e k h w)"
proof (cases "connection_io_allowed (Some c)")
  case False
  have "h = put_streams self c (hp_calls h) h" using c by (simp add: put_streams_def fun_upd_idem)
  moreover have "driven_inv L self (c, hp_calls h) (c, hp_calls h)" by (rule driven_inv_refl [OF heap_inv_conn(1) [OF inv c]])
  moreover have "cancel_grpc_call_stream L script e k h w = Ok (h, w)" using False k c by (auto simp: cancel_grpc_call_stream_def)
  ultimately show ?thesis by auto
next
  case True
  have "driving_ok L self c (hp_calls h)"
    using heap_inv_conn(1) [OF inv c] True streams_driving by (auto simp: conn_inv_def connection_io_allowed_def)
  note d = cancel_driven [OF laws this k c script, of e w]
  have "calls_wf (hp_calls h)" using inv by (simp add: heap_defs)
  then show ?thesis by (intro safe_mono [OF d]) (auto, metis driven_driven_inv snd_conv)
qed

end
