(* ===== verification/Connection_Preflight.thy ===== *)
theory Connection_Preflight
  imports Connection_Ownership
begin

text \<open>
  Obtaining a connection: the preflight of an idle cached connection, its removal when it turns out to be
  unusable, and the insertion of a new one keep the heap invariant.
\<close>

section \<open>Preflight\<close>

definition round_ok :: "'ss lib \<Rightarrow> conn_id \<Rightarrow> call_store \<Rightarrow> 'ss round \<Rightarrow> bool" where
  "round_ok L self calls round \<longleftrightarrow>
     (case round of ((revs, radv, rrv), want_write, ss) \<Rightarrow> adv_ok L radv \<and> send_script_ok L self ss calls)"

lemma round_ok_kept: "round_ok L self calls round \<Longrightarrow> calls_kept self calls calls' \<Longrightarrow> round_ok L self calls' round"
  by (auto simp: round_ok_def intro: send_script_ok_kept split: prod.splits)

lemma rounds_ok_kept:
  "\<forall>r \<in> set rounds. round_ok L self calls r \<Longrightarrow> calls_kept self calls calls' \<Longrightarrow> \<forall>r \<in> set rounds. round_ok L self calls' r"
  by (blast intro: round_ok_kept)

text \<open>The outcome of a preflight step: the invariant, and the answer says whether the connection is still usable.\<close>

definition checked ::
    "'ss lib \<Rightarrow> conn_id \<Rightarrow> 'ss h2_connection \<times> call_store \<Rightarrow> bool \<times> 'ss h2_connection \<times> call_store \<times> io_world \<Rightarrow> bool" where
  "checked L self s r \<longleftrightarrow>
     (case r of (ok, c', calls', w') \<Rightarrow> driven_inv L self s (c', calls') \<and> ok = connection_usable (Some c'))"

lemma checked_step:
  assumes "driven_inv L self s s'" "safe (checked L self s') r"
  shows "safe (checked L self s) r"
proof (rule safe_mono [OF assms(2)])
  fix x assume "checked L self s' x"
  then show "checked L self s x" using driven_inv_trans [OF assms(1)] by (auto simp: checked_def split: prod.splits)
qed

lemma step_checked:
  "conn_inv L self c calls \<Longrightarrow> conn_step L c c' \<Longrightarrow> rst_laws L \<Longrightarrow> ok = connection_usable (Some c') \<Longrightarrow>
     checked L self (c, calls) (ok, c', calls, w)"
  by (simp add: checked_def conn_step_inv)

lemma detail_step: "conn_step L c (set_connection_error_detail d c)" "conn_step L c (c\<lparr>h2_last_ssl_error := e\<rparr>)"
  "conn_step L c (c\<lparr>h2_recv_scratch_len := n\<rparr>)"
  by (simp_all add: conn_step_def conn_kept_def conn_owner_def grpc_call_from_stream_id_def fun_eq_iff set_connection_error_detail_def)

lemma dead_detail_step:
  "conn_step L c (mark_connection_dead L e (set_connection_error_detail d c))"
  "conn_step L c (mark_connection_dead L e' (set_connection_error_detail d (c\<lparr>h2_last_ssl_error := e\<rparr>)))"
  by (blast intro: conn_step_trans detail_step mark_dead_conn_step)+

lemma limit_step: "conn_step L c (drain_limit_exceeded c)" "\<not> connection_usable (Some (drain_limit_exceeded c))"
  by (simp_all add: conn_step_def conn_kept_def conn_owner_def grpc_call_from_stream_id_def fun_eq_iff
      drain_limit_exceeded_def set_connection_error_detail_def mark_connection_draining_def connection_usable_def)

lemma drain_read_step:
  assumes "drain_read L n c w = Some (r, c', w')"
  shows "conn_step L c c'" "r = DrainFailed \<Longrightarrow> \<not> connection_usable (Some c')"
    "r = DrainBytes m \<Longrightarrow> c' = c \<and> m \<le> n"
  using assms dead_detail_step detail_step mark_dead_conn_step
  by (auto simp: drain_read_def closed_by_peer_def Let_def split: if_splits list.splits read_outcome.splits ssl_read_outcome.splits)

lemma drain_process_safe:
  assumes laws: "session_laws L" and inv: "conn_inv L self c calls" "connection_usable (Some c)" and r: "round_ok L self calls round"
  shows "safe (checked L self (c, calls)) (drain_process L G self round d c calls w)"
proof -
  obtain revs radv rrv want_write sevs sadv srv where round: "round = ((revs, radv, rrv), want_write, (sevs, sadv, srv))"
    by (metis surj_pair)
  have adv: "adv_ok L radv" using r round by (simp add: round_ok_def)
  have rst: "rst_laws L" using laws by (simp add: session_laws_def)
  have live: "\<not> h2_dead c" "h2_session c \<noteq> None" using inv(2) by (simp_all add: connection_usable_def)
  show ?thesis unfolding drain_process_def round prod.case
  proof (rule safe_and_then [OF mem_recv_safe [OF laws adv inv(1) live]])
    fix x :: "int \<times> 'a h2_connection \<times> call_store" assume x: "case x of (rv, s') \<Rightarrow> driven_inv L self (c, calls) s'"
    obtain rv c1 calls1 where x': "x = (rv, c1, calls1)" by (metis surj_pair)
    have d1: "driven_inv L self (c, calls) (c1, calls1)" using x x' by simp
    have inv1: "conn_inv L self c1 calls1" "calls_kept self calls calls1" using d1 by (simp_all add: driven_inv_def)
    have same: "checked L self (c1, calls1) (ok, c1, calls1, w)" if "ok = connection_usable (Some c1)" for ok
      using step_checked [OF inv1(1) conn_step_refl rst that] .
    have dead: "checked L self (c2, calls2) (False, mark_connection_dead L e (set_connection_error_detail t c2), calls2, w2)"
      "checked L self (c2, calls2) (False, mark_connection_dead L e c2, calls2, w2)"
      if "conn_inv L self c2 calls2" for c2 calls2 t e and w2 :: io_world
      using that rst dead_detail_step mark_dead_conn_step by (auto intro!: step_checked)
    have sc: "send_script_ok L self (sevs, sadv, srv) calls1"
      using r round send_script_ok_kept [OF _ inv1(2), of L "(sevs, sadv, srv)"] by (simp add: round_ok_def)
    have send: "safe (checked L self (c1, calls1))
        (and_then (send_pending_h2_frames_with_deadline L self (sevs, sadv, srv) None d c1 calls1 w) (\<lambda>(rv, c, calls, w).
           if rv \<noteq> 0 then Ok (False, mark_connection_dead L rv
             (if h2_last_error_detail c = []
              then set_connection_error_detail (''nghttp2_session_send failed during persistent preflight: '' @ c_str (nghttp2_strerror L rv)) c
              else c), calls, w)
           else Ok (True, c, calls, w)))" if us: "connection_usable (Some c1)"
    proof (rule safe_and_then_Ok [OF send_script_safe [OF laws sc inv1(1)]])
      fix y :: "int \<times> 'a h2_connection \<times> call_store \<times> io_world"
      assume run: "send_pending_h2_frames_with_deadline L self (sevs, sadv, srv) None d c1 calls1 w = Ok y"
        and y: "sent_ok L self (c1, calls1) y"
      obtain rv2 c2 calls2 w2 where y': "y = (rv2, c2, calls2, w2)" by (metis surj_pair)
      have d2: "driven_inv L self (c1, calls1) (c2, calls2)" "conn_inv L self c2 calls2" "rv2 = 0 \<longrightarrow> connection_io_allowed (Some c2)"
        using y y' by (simp_all add: sent_ok_def driven_inv_def)
      have "\<not> h2_draining c2" using send_pending_draining [OF run [unfolded y']] us by (simp add: connection_usable_def)
      then have "rv2 = 0 \<Longrightarrow> checked L self (c1, calls1) (True, c2, calls2, w2)"
        using d2 by (auto simp: checked_def connection_usable_def connection_io_allowed_def)
      moreover have "safe (checked L self (c1, calls1)) (Ok (False, mark_connection_dead L rv2 (if h2_last_error_detail c2 = []
              then set_connection_error_detail (''nghttp2_session_send failed during persistent preflight: '' @ c_str (nghttp2_strerror L rv2)) c2
              else c2), calls2, w2))"
        by (rule checked_step [OF d2(1)]) (use dead [OF d2(2)] in simp)
      ultimately show "safe (checked L self (c1, calls1)) (case y of (rv, c, calls, w) \<Rightarrow>
          if rv \<noteq> 0 then Ok (False, mark_connection_dead L rv
             (if h2_last_error_detail c = []
              then set_connection_error_detail (''nghttp2_session_send failed during persistent preflight: '' @ c_str (nghttp2_strerror L rv)) c
              else c), calls, w)
           else Ok (True, c, calls, w))" unfolding y' prod.case by (cases "rv2 = 0") simp_all
    qed
    show "safe (checked L self (c, calls)) (case x of (rv, c, calls) \<Rightarrow>
          if rv < 0 then
            Ok (False, mark_connection_dead L rv
                  (set_connection_error_detail (''nghttp2_session_mem_recv failed during persistent preflight: '' @ c_str (nghttp2_strerror L rv)) c),
                calls, w)
          else if \<not> connection_usable (Some c) then Ok (False, c, calls, w)
          else if \<not> want_write then Ok (True, c, calls, w)
          else
            and_then (send_pending_h2_frames_with_deadline L self (sevs, sadv, srv) None d c calls w) (\<lambda>(rv, c, calls, w).
              if rv \<noteq> 0 then
                Ok (False, mark_connection_dead L rv
                      (if h2_last_error_detail c = []
                       then set_connection_error_detail (''nghttp2_session_send failed during persistent preflight: '' @ c_str (nghttp2_strerror L rv)) c
                       else c), calls, w)
              else Ok (True, c, calls, w)))"
      by (rule checked_step [OF d1], cases "connection_usable (Some c1)") (use send same dead [OF inv1(1)] in \<open>simp_all add: x'\<close>)
  qed
qed

lemma drain_loop_safe:
  assumes laws: "session_laws L"
  shows "conn_inv L self c calls \<Longrightarrow> connection_usable (Some c) \<Longrightarrow> \<forall>r \<in> set rounds. round_ok L self calls r \<Longrightarrow>
    safe (checked L self (c, calls)) (drain_loop L G self d m n t rounds c calls w)"
proof (induction n arbitrary: t rounds c calls w)
  case 0
  then show ?case using limit_step laws by (auto intro!: step_checked simp: session_laws_def)
next
  case (Suc n)
  have rst: "rst_laws L" using laws by (simp add: session_laws_def)
  show ?case
  proof (cases "m \<le> t \<or> drain_read L (min (h2_recv_scratch_len c) (m - t)) c w = None")
    case True
    then show ?thesis using limit_step Suc.prems rst by (auto intro!: step_checked)
  next
    case False
    then obtain r c1 w1 where rd: "drain_read L (min (h2_recv_scratch_len c) (m - t)) c w = Some (r, c1, w1)" by (metis not_None_eq surj_pair)
    note st = drain_read_step [OF rd]
    show ?thesis
    proof (cases r)
      case (DrainBytes nread)
      then have c1: "c1 = c" using st(3) by blast
      show ?thesis
      proof (cases rounds)
        case (Cons round rest)
        have ok: "round_ok L self calls round" "\<forall>r \<in> set rest. round_ok L self calls r" using Suc.prems(3) Cons by simp_all
        have "safe (checked L self (c, calls)) (and_then (drain_process L G self round d c calls w1) (\<lambda>(go_on, c, calls, w).
            if \<not> go_on then Ok (False, c, calls, w) else drain_loop L G self d m n (t + nread) rest c calls w))"
        proof (rule safe_and_then [OF drain_process_safe [OF laws Suc.prems(1,2) ok(1)]], clarify)
          fix go c2 calls2 w2 assume ch: "checked L self (c, calls) (go, c2, calls2, w2)"
          then have d2: "driven_inv L self (c, calls) (c2, calls2)" "go = connection_usable (Some c2)" by (simp_all add: checked_def)
          then have k2: "conn_inv L self c2 calls2" "\<forall>r \<in> set rest. round_ok L self calls2 r"
            using rounds_ok_kept [OF ok(2)] by (simp_all add: driven_inv_def)
          show "safe (checked L self (c, calls)) (if \<not> go then Ok (False, c2, calls2, w2) else drain_loop L G self d m n (t + nread) rest c2 calls2 w2)"
            using ch checked_step [OF d2(1) Suc.IH [OF k2(1) _ k2(2)]] d2(2) by auto
        qed
        then show ?thesis using False rd DrainBytes Cons c1 by simp
      qed (use False rd DrainBytes in simp)
    qed (use False rd st Suc.prems rst in \<open>auto intro!: step_checked\<close>)
  qed
qed

lemma preflight_safe:
  assumes laws: "session_laws L" and inv: "conn_inv L self c calls" "h2_current_read_call c = None"
    and r: "\<forall>r \<in> set rounds. round_ok L self calls r"
  shows "safe (checked L self (c, calls)) (preflight_persistent_connection L G self d rounds c calls w)"
proof (cases "connection_usable (Some c)")
  case False
  then show ?thesis using inv driven_inv_refl by (simp add: preflight_persistent_connection_def checked_def)
next
  case us: True
  have rst: "rst_laws L" using laws by (simp add: session_laws_def)
  have stay: "checked L self (c, calls) (True, c, calls, w')" for w' using step_checked [OF inv(1) conn_step_refl rst] us by simp
  have drain: "safe (checked L self (c, calls)) (drain_pending_connection_data_for_reuse L G self d rounds c calls w)"
  proof -
    obtain c1 where c1: "h2_connection_recv_scratch c = Ok c1" "conn_step L c c1" "connection_usable (Some c1)"
      using inv(2) us detail_step(3) by (cases "h2_recv_scratch_len c = 0") (auto simp: h2_connection_recv_scratch_def connection_usable_def)
    have d: "driven_inv L self (c, calls) (c1, calls)" by (rule conn_step_inv [OF inv(1) c1(2) rst])
    then have "conn_inv L self c1 calls" by (simp add: driven_inv_def)
    from checked_step [OF d drain_loop_safe [OF laws this c1(3) r]] show ?thesis
      using us c1(1) by (simp add: drain_pending_connection_data_for_reuse_def)
  qed
  have dead: "checked L self (c, calls) (False, mark_connection_dead L e (set_connection_error_detail t c), calls, w')"
    "checked L self (c, calls) (False, mark_connection_dead L e (set_connection_error_detail t (c\<lparr>h2_last_ssl_error := e'\<rparr>)), calls, w')"
    "checked L self (c, calls) (False, mark_connection_dead L e c, calls, w')" for e e' t w'
    using inv(1) rst dead_detail_step mark_dead_conn_step by (auto intro!: step_checked)
  show ?thesis
  proof (cases "h2_ssl c")
    case True
    then show ?thesis using us stay drain dead
      by (auto simp: preflight_persistent_connection_def preflight_tls_connection_for_reuse_def closed_by_peer_def Let_def
          split: list.splits ssl_read_outcome.splits)
  next
    case False
    then show ?thesis using us stay drain dead
      by (auto simp: preflight_persistent_connection_def preflight_socket_connection_for_reuse_def closed_by_peer_def Let_def
          split: list.splits read_outcome.splits)
  qed
qed

section \<open>Lookup\<close>

text \<open>A lookup finds a usable connection of the right key, or leaves no entry for the key.\<close>

definition looked_up :: "'ss lib \<Rightarrow> call_id set \<Rightarrow> string \<Rightarrow> 'ss heap \<Rightarrow> conn_id option \<times> 'ss heap \<times> io_world \<Rightarrow> bool" where
  "looked_up L X key h r \<longleftrightarrow>
     (case r of (found, h', w') \<Rightarrow> heap_inv L X {} h' \<and> hp_initialized h' = hp_initialized h
        \<and> (\<forall>k. map_option call_fixed (hp_calls h' k) = map_option call_fixed (hp_calls h k))
        \<and> (\<forall>j. hp_conns h j = None \<longrightarrow> hp_conns h' j = None)
        \<and> (case found of None \<Rightarrow> cache_find key h' = None
           | Some self \<Rightarrow> \<exists>e c. cache_find key h' = Some e \<and> pe_connection e = self \<and> hp_conns h' self = Some c \<and> connection_usable (Some c)))"

lemma keyed_found:
  assumes "cache_ok h" "cache_find key h = Some e"
  shows "keyed key (pe_connection e) h"
  using cache_entry_unique [OF assms(1) cache_find_entry(1) [OF assms]] by (auto simp: keyed_def)

lemma discard_looked_up:
  assumes inv: "heap_inv L X {} h1" and e: "cache_find key h1 = Some e"
    and h: "hp_initialized h1 = hp_initialized h" "\<And>k. map_option call_fixed (hp_calls h1 k) = map_option call_fixed (hp_calls h k)"
      "\<And>j. hp_conns h j = None \<Longrightarrow> hp_conns h1 j = None"
  shows "safe (looked_up L X key h) (and_then (discard_persistent_connection key (pe_connection e) h1) (\<lambda>h. Ok (None, h, w)))"
proof -
  have ok: "cache_ok h1" using inv by (simp add: heap_defs)
  obtain c where c: "hp_conns h1 (pe_connection e) = Some c" using cached_live [OF ok cache_find_entry(2) [OF ok e]] by blast
  have inv': "heap_inv L X (insert (pe_connection e) {}) h1" using inv by (auto simp: heap_inv_def kept_alive_def)
  from discard_inv [OF inv' c keyed_found [OF ok e]] obtain h2 where
    h2: "discard_persistent_connection key (pe_connection e) h1 = Ok h2" "heap_inv L X {} h2" "discarded key (pe_connection e) h1 h2" by auto
  have "cache_find key h2 = None"
  proof (rule ccontr)
    assume "cache_find key h2 \<noteq> None"
    then obtain e' where e': "cache_find key h2 = Some e'" by auto
    have ok2: "cache_ok h2" using h2(2) by (simp add: heap_defs)
    have "(key, e') \<in> set (hp_cache h1)" "pe_connection e' \<noteq> pe_connection e"
      using cache_find_entry(1) [OF ok2 e'] h2(3) by (auto simp: discarded_def)
    moreover have "distinct (map fst (hp_cache h1))" using ok by (simp add: cache_ok_def)
    ultimately show False using eq_key_imp_eq_value cache_find_entry(1) [OF ok e] by metis
  qed
  moreover have "hp_conns h2 j = None" if "hp_conns h j = None" for j
    using h(3) [OF that] h2(3) c by (cases "j = pe_connection e") (auto simp: discarded_def)
  ultimately show ?thesis using h2 h by (simp add: looked_up_def discarded_def)
qed

lemma lookup_safe:
  assumes laws: "session_laws L" and inv: "heap_inv L X {} h"
    and r: "\<And>e. cache_find key h = Some e \<Longrightarrow> \<forall>r \<in> set rounds. round_ok L (pe_connection e) (hp_calls h) r"
  shows "safe (looked_up L X key h) (lookup_reusable L G key d rounds h w)"
proof (cases "cache_find key h")
  case None
  then show ?thesis using inv by (simp add: lookup_reusable_def looked_up_def)
next
  case (Some e)
  define self where "self = pe_connection e"
  have ok: "cache_ok h" using inv by (simp add: heap_defs)
  obtain c where c: "hp_conns h self = Some c" using cached_live [OF ok cache_find_entry(2) [OF ok Some]] self_def by blast
  note drop = discard_looked_up [OF inv Some, of h w]
  show ?thesis
  proof (cases "connection_usable (Some c)")
    case False
    then show ?thesis using Some c drop by (simp add: lookup_reusable_def remove_unusable_persistent_connection_def self_def Let_def)
  next
    case us: True
    have read: "h2_current_read_call c = None" using inv c by (simp add: heap_defs)
    note pf = preflight_safe [OF laws heap_inv_conn(1) [OF inv c] read r [OF Some, folded self_def], of G d w]
    have "safe (looked_up L X key h)
        (and_then (preflight_persistent_connection L G self d rounds c (hp_calls h) w) (\<lambda>(ok, c, calls, w).
           let h = put_streams self c calls h
           in if \<not> ok then and_then (remove_unusable_persistent_connection key self h) (\<lambda>h. Ok (None, h, w))
              else if \<not> connection_entry_matches_key e key then and_then (discard_persistent_connection key self h) (\<lambda>h. Ok (None, h, w))
              else Ok (Some self, h, w)))"
    proof (rule safe_and_then [OF pf], clarify)
      fix okb c1 calls1 w1 assume "checked L self (c, hp_calls h) (okb, c1, calls1, w1)"
      then have d: "driven_inv L self (c, hp_calls h) (c1, calls1)" "okb = connection_usable (Some c1)" by (simp_all add: checked_def)
      define h1 where "h1 = put_streams self c1 calls1 h"
      have inv1: "heap_inv L X {} h1" unfolding h1_def by (rule heap_inv_driven [OF inv c d(1)])
      have e1: "cache_find key h1 = Some e" using Some by (simp add: h1_def cache_find_def split: if_splits)
      have keep: "hp_initialized h1 = hp_initialized h" "\<And>k. map_option call_fixed (hp_calls h1 k) = map_option call_fixed (hp_calls h k)"
        "\<And>j. hp_conns h j = None \<Longrightarrow> hp_conns h1 j = None" "hp_conns h1 self = Some c1"
        using d(1) c by (auto simp: h1_def driven_inv_def calls_kept_def)
      note drop1 = discard_looked_up [OF inv1 e1 keep(1-3), folded self_def, of w1]
      have "looked_up L X key h (Some self, h1, w1)" if okb
        using that inv1 e1 keep d(2) self_def by (simp add: looked_up_def)
      then have "safe (looked_up L X key h)
          (if \<not> okb then and_then (remove_unusable_persistent_connection key self h1) (\<lambda>h. Ok (None, h, w1))
            else if \<not> connection_entry_matches_key e key then and_then (discard_persistent_connection key self h1) (\<lambda>h. Ok (None, h, w1))
            else Ok (Some self, h1, w1))"
        using drop1 d(2) keep(4) by (simp add: remove_unusable_persistent_connection_def)
      then show "safe (looked_up L X key h) (let h = put_streams self c1 calls1 h
           in if \<not> okb then and_then (remove_unusable_persistent_connection key self h) (\<lambda>h. Ok (None, h, w1))
              else if \<not> connection_entry_matches_key e key then and_then (discard_persistent_connection key self h) (\<lambda>h. Ok (None, h, w1))
              else Ok (Some self, h, w1))" unfolding Let_def h1_def [symmetric] .
    qed
    then show ?thesis using c us unfolding lookup_reusable_def Some option.case Let_def self_def [symmetric] by simp
  qed
qed

section \<open>Insertion\<close>

lemma update_new_key: "key \<notin> fst ` set al \<Longrightarrow> AList.update key v al = al @ [(key, v)]"
  by (induction al) auto

lemma cached_image: "cached h j \<longleftrightarrow> j \<in> (\<lambda>x. pe_connection (snd x)) ` set (hp_cache h)"
  by (force simp: cached_def)

lemma cached_insert:
  assumes "cache_find key h = None" "hp_initialized h"
  shows "hp_cache (insert_new_connection key self c h) = hp_cache h @ [(key, create_persistent_connection_entry self key)]"
proof -
  have "key \<notin> fst ` set (hp_cache h)" using assms by (simp add: cache_find_def map_of_eq_None_iff)
  then show ?thesis by (simp add: insert_new_connection_def update_new_key)
qed

lemma insert_inv:
  assumes inv: "heap_inv L {} {} h" and new: "hp_conns h self = None" "cache_find key h = None" "hp_initialized h"
      "length (hp_cache h) < GRPC_LITE_MAX_PERSISTENT_CONNECTIONS"
    and c: "conn_inv L self c (hp_calls h)" "h2_stream_owner_count c = 0" "\<not> h2_detached_from_cache c" "h2_current_read_call c = None"
  shows "heap_inv L {} {} (insert_new_connection key self c h)"
    "cache_find key (insert_new_connection key self c h) = Some (create_persistent_connection_entry self key)"
proof -
  let ?h = "insert_new_connection key self c h"
  note cache = cached_insert [OF new(2,3), of self c]
  have flds: "hp_conns ?h = (hp_conns h)(self \<mapsto> c)" "hp_calls ?h = hp_calls h" "hp_initialized ?h = hp_initialized h"
    by (simp_all add: insert_new_connection_def)
  have nk: "key \<notin> fst ` set (hp_cache h)" using new by (simp add: cache_find_def map_of_eq_None_iff)
  show "cache_find key ?h = Some (create_persistent_connection_entry self key)"
    using nk new(3) flds(3) by (simp add: cache_find_def cache map_add_def map_of_eq_None_iff [THEN iffD2])
  have cok: "cache_ok h" "links_ok {} h" "kept_alive {} h" using inv by (simp_all add: heap_inv_def heap_ok_def)
  have live: "hp_conns h (pe_connection e) \<noteq> None" if "(k, e) \<in> set (hp_cache h)" for k e
    using cok(1) that unfolding cache_ok_def by blast
  then have ns: "self \<noteq> pe_connection e" if "(k, e) \<in> set (hp_cache h)" for k e using live [OF that] new(1) by auto
  have "owners (hp_calls h) self = {}" using cok(2) new(1) by (auto simp: owners_def links_ok_def) fastforce
  then have "conns_ok L ?h" using inv c flds by (auto simp: heap_defs conn_inv_def)
  moreover have "links_ok {} ?h" by (rule links_ok_owned [OF cok(2)]) (auto simp: flds)
  moreover have "cache_ok ?h"
    using cok(1) nk ns new(3,4) c(3) unfolding cache_ok_def flds cache
    by (auto simp: create_persistent_connection_entry_def image_iff)
  moreover have "kept_alive {} ?h"
  proof (rule kept_aliveI)
    fix j cj assume j: "hp_conns ?h j = Some cj"
    have "cached ?h j \<longleftrightarrow> cached h j \<or> j = self" unfolding cached_image cache by (auto simp: create_persistent_connection_entry_def)
    then show "cached ?h j \<or> h2_detached_from_cache cj \<and> 0 < h2_stream_owner_count cj"
      using kept_aliveD [OF cok(3), of j cj] j by (auto simp: flds split: if_splits)
  qed
  ultimately show "heap_inv L {} {} ?h" using inv by (simp add: heap_inv_def heap_ok_def flds)
qed

section \<open>Obtaining a connection\<close>

lemma fresh_unused:
  assumes "links_ok {} h" "hp_conns h self = None"
  shows "unused_address self (hp_calls h)"
  using assms unfolding unused_address_def links_ok_def by (metis empty_iff option.distinct(1) option.inject)

text \<open>What the caller of \<open>get_persistent_connection\<close> may rely on.\<close>

definition obtained ::
    "'ss lib \<Rightarrow> string \<Rightarrow> 'ss heap \<Rightarrow> (string + conn_id \<times> bool) \<times> 'ss heap \<times> io_world \<Rightarrow> bool" where
  "obtained L key h r \<longleftrightarrow>
     (case r of (res, h', w') \<Rightarrow> heap_inv L {} {} h'
        \<and> (\<forall>k. map_option call_fixed (hp_calls h' k) = map_option call_fixed (hp_calls h k))
        \<and> (case res of Inl msg \<Rightarrow> True
           | Inr (j, reused) \<Rightarrow> (\<exists>e c. cache_find key h' = Some e \<and> pe_connection e = j \<and> hp_conns h' j = Some c
                \<and> connection_usable (Some c) \<and> (\<not> reused \<longrightarrow> h2_stream_owner_count c = 0))))"

lemma obtain_safe:
  assumes laws: "session_laws L" "setup_laws L (su_h2 S)" "su_preface S = (evs, adv, rv0)" "adv_ok L adv" "\<And>k f l p. SendData k f l p \<notin> set evs"
    and inv: "heap_inv L {} {} h" "hp_conns h self = None"
    and r: "\<And>e. cache_find key h = Some e \<Longrightarrow> \<forall>r \<in> set rounds. round_ok L (pe_connection e) (hp_calls h) r"
  shows "safe (obtained L key h) (get_persistent_connection L G S T key d rounds self h w)"
proof (cases "hp_initialized h")
  case False
  then show ?thesis using inv by (simp add: get_persistent_connection_def obtained_def)
next
  case init: True
  show ?thesis unfolding get_persistent_connection_def
  proof (simp only: init not_True_eq_False if_False, rule safe_and_then [OF lookup_safe [OF laws(1) inv(1) r]], assumption, clarify)
    fix found h1 w1 assume lk: "looked_up L {} key h (found, h1, w1)"
    then have h1: "heap_inv L {} {} h1" "hp_initialized h1" "hp_conns h1 self = None"
      "\<And>k. map_option call_fixed (hp_calls h1 k) = map_option call_fixed (hp_calls h k)"
      using init inv(2) by (simp_all add: looked_up_def)
    show "safe (obtained L key h) (case found of None \<Rightarrow>
            if GRPC_LITE_MAX_PERSISTENT_CONNECTIONS \<le> length (hp_cache h1)
            then Ok (Inl ''persistent connection cache limit exceeded'', h1, w1)
            else and_then (create_h2_connection L G self S T True d (hp_calls h1) w1) (\<lambda>(r, calls, w).
                (let h = h1\<lparr>hp_calls := calls\<rparr>
                 in case r of Inl e \<Rightarrow> Ok (Inl e, h, w) | Inr c \<Rightarrow> Ok (Inr (self, False), insert_new_connection key self c h, w)))
          | Some old \<Rightarrow> Ok (Inr (old, True), h1, w1))"
    proof (cases found)
      case (Some old)
      then show ?thesis using lk by (auto simp: looked_up_def obtained_def)
    next
      case None
      then have free: "cache_find key h1 = None" using lk by (simp add: looked_up_def)
      have un: "unused_address self (hp_calls h1)" "calls_wf (hp_calls h1)"
        using fresh_unused [of h1 self] h1(1,3) by (simp_all add: heap_defs)
      note cr = create_safe [OF laws(1-5) un, of G T True d w1]
      have "safe (obtained L key h) (and_then (create_h2_connection L G self S T True d (hp_calls h1) w1) (\<lambda>(r, calls, w).
                (let h = h1\<lparr>hp_calls := calls\<rparr>
                 in case r of Inl e \<Rightarrow> Ok (Inl e, h, w) | Inr c \<Rightarrow> Ok (Inr (self, False), insert_new_connection key self c h, w))))"
        if "length (hp_cache h1) < GRPC_LITE_MAX_PERSISTENT_CONNECTIONS"
        using insert_inv [OF h1(1,3) free h1(2) that] h1 by (intro safe_and_then [OF cr])
          (auto simp: obtained_def create_persistent_connection_entry_def insert_new_connection_def split: sum.splits)
      then show ?thesis using None h1(1,4) by (simp add: obtained_def)
    qed
  qed
qed

section \<open>Properties\<close>


definition table_env :: "((int \<Rightarrow> call_id option), nat) setup_env" where
  "table_env = \<lparr>su_addresses = None, su_tls = example_tls, su_nonblock = True,
     su_h2 = \<lparr>he_callbacks = True, he_client_new = Some (\<lambda>_. None), he_submit_settings = (\<lambda>ss xs. (ss, 0)),
       he_submit_window_update = (\<lambda>ss x. (ss, 0))\<rparr>,
     su_preface = ([], id, 0)\<rparr>"

definition table_heap :: "(int \<Rightarrow> call_id option) heap" where
  "table_heap = \<lparr>hp_conns = [7 \<mapsto> table_connection], hp_calls = [4 \<mapsto> table_call],
     hp_cache = [(''k'', \<lparr>pe_connection = 7, pe_connection_key_identity = ''k''\<rparr>)], hp_initialized = True\<rparr>"

lemma table_heap_inv: "heap_inv table_lib {} {} table_heap"
proof -
  have o: "owners [4 \<mapsto> table_call] 7 = {4}" by (auto simp: owners_def table_call_def)
  have c: "h2_stream_owner_count table_connection = 1" "h2_current_read_call table_connection = None" "\<not> h2_detached_from_cache table_connection"
    by (simp_all add: table_connection_def)
  have "conns_ok table_lib table_heap" using table_inv o c by (simp add: conns_ok_def table_heap_def conn_inv_def)
  moreover have "links_ok {} table_heap" by (simp add: links_ok_def table_heap_def table_call_def)
  moreover have "cache_ok table_heap" using c(3) by (simp add: cache_ok_def table_heap_def GRPC_LITE_MAX_PERSISTENT_CONNECTIONS_def)
  moreover have "kept_alive {} table_heap" by (auto simp: kept_alive_def table_heap_def cached_def split: if_splits)
  ultimately show ?thesis using table_inv by (simp add: heap_inv_def heap_ok_def table_heap_def conn_inv_def)
qed


definition table_target :: channel_target where
  "table_target = \<lparr>ct_host = ''localhost'', ct_port = 50051, ct_authority = None, ct_tls_verify_name = None,
     ct_use_tls = False, ct_root_certs = None, ct_cert_chain = None, ct_private_key = None\<rparr>"


text \<open>
  C28.  Releasing a call frees its connection exactly when it must.  For a call that owns a connection of a heap that satisfies the
  invariant, the release returns, the call ends without connection and ownership, the heap invariant holds
  again, no other connection is freed or changed, and this one is freed if and only if this was its last owner and it is
  detached or no longer usable.
\<close>

theorem release_frees_last_owner:
  assumes "user_data_laws L" "heap_inv L X {} h"
    and "hp_calls h k = Some call" "connection call = Some self" "connection_owned call"
  shows "\<exists>h' c call'. clear_connection_server_streaming_call_state_owner L k h = Ok h' \<and> heap_inv L X {} h'
    \<and> hp_calls h' k = Some call' \<and> connection call' = None \<and> \<not> connection_owned call'
    \<and> (\<forall>j. j \<noteq> self \<longrightarrow> hp_conns h' j = hp_conns h j) \<and> hp_conns h self = Some c
    \<and> (hp_conns h' self = None \<longleftrightarrow>
         h2_stream_owner_count c = 1 \<and> (h2_detached_from_cache c \<or> \<not> connection_usable (Some c)))"
proof -
  obtain c where "hp_conns h self = Some c" using assms by (fastforce simp: heap_inv_def heap_ok_def links_ok_def)
  moreover obtain h' where "clear_connection_server_streaming_call_state_owner L k h = Ok h'" "heap_inv L X {} h'" "released k self h h'"
    using clear_streaming_inv [OF assms(2,1,3-5)] by blast
  ultimately show ?thesis unfolding released_def by blast
qed

theorem release_frees_last_owner_witness:
  "\<exists>h' c call'. clear_connection_server_streaming_call_state_owner table_lib 4 table_heap = Ok h' \<and> heap_inv table_lib {} {} h'
    \<and> hp_calls h' 4 = Some call' \<and> connection call' = None \<and> \<not> connection_owned call'
    \<and> (\<forall>j. j \<noteq> 7 \<longrightarrow> hp_conns h' j = hp_conns table_heap j) \<and> hp_conns table_heap 7 = Some c
    \<and> (hp_conns h' 7 = None \<longleftrightarrow>
         h2_stream_owner_count c = 1 \<and> (h2_detached_from_cache c \<or> \<not> connection_usable (Some c)))"
proof -
  have "user_data_laws table_lib" using table_laws(1) by (simp add: session_laws_def)
  moreover have "hp_calls table_heap 4 = Some table_call" "connection table_call = Some 7" "connection_owned table_call"
    by (simp_all add: table_heap_def table_call_def)
  ultimately show ?thesis by (intro release_frees_last_owner [OF _ table_heap_inv])
qed

end
