(* ===== verification/Call_Driver.thy ===== *)
theory Call_Driver
  imports Connection_Preflight
begin

text \<open>
  Steps shared by unary and server-streaming calls (\<open>src/src/unary_call.c\<close>, \<open>src/src/server_streaming_call.c\<close>):
  building the request, submitting and registering it, one send, one read and one feed of the session, all on
  the heap.  \<open>k\<close> is the address of the call structure and \<open>self\<close> that of its connection.
\<close>

section \<open>The request\<close>

record call_request =
  rq_path :: string
  rq_request :: "byte list"
  rq_headers :: "(string option \<times> php_value) list option"
  rq_user_agent :: "string option"
  rq_deadline_abs_us :: nat
  rq_max_receive_message_length :: int
  rq_max_response_metadata_bytes :: nat
  rq_retry_attempt :: nat

definition new_call :: "conn_id \<Rightarrow> nat \<Rightarrow> call_request \<Rightarrow> grpc_call" where
  "new_call self max_messages R =
     grpc_protocol_set_message_header
       (grpc_call_zero\<lparr>connection := Some self, retry_attempt := rq_retry_attempt R, grpc_status := -1, http_status := -1,
          max_response_messages := max_messages, decode_response_incrementally := True, direct_response_payload := True,
          queue_response_payloads := True, request_bytes := rq_request R,
          max_receive_message_bytes := effective_max_receive_message_bytes (rq_max_receive_message_length R),
          max_response_metadata_bytes := rq_max_response_metadata_bytes R, method_path := Some (rq_path R),
          deadline_abs_us := rq_deadline_abs_us R\<rparr>)
       (length (rq_request R))"

text \<open>The header block is complete, was refused, or the deadline passed while it was built.\<close>

datatype prepared = Prepared "(string \<times> string) list" | PrepareRefused string | PrepareTimedOut

definition prepare_request ::
    "(string \<Rightarrow> string) \<Rightarrow> call_request \<Rightarrow> 'ss h2_connection \<Rightarrow> io_world \<Rightarrow> (prepared \<times> io_world) res" where
  "prepare_request enc R c w =
     (case append_fixed_request_headers (h2_tls c) (h2_authority c) (rq_path R) init_request_headers of
        Overflow \<Rightarrow> Fault
      | Rejected e hs \<Rightarrow> Ok (PrepareRefused e, w)
      | Appended hs \<Rightarrow>
          (case remaining_timeout_us_for_deadline (rq_deadline_abs_us R) w of
             None \<Rightarrow> Blocked
           | Some (remaining, w) \<Rightarrow>
               if remaining < 0 then Ok (PrepareTimedOut, w)
               else case append_call_request_headers enc remaining (rq_user_agent R) (rq_headers R) hs of
                      Overflow \<Rightarrow> Fault
                    | Rejected e hs \<Rightarrow> Ok (PrepareRefused e, w)
                    | Appended hs \<Rightarrow> Ok (Prepared (rh_nva hs), w)))"

section \<open>Steps\<close>

definition kill_connection :: "'ss lib \<Rightarrow> conn_id \<Rightarrow> int \<Rightarrow> 'ss heap \<Rightarrow> 'ss heap res" where
  "kill_connection L self code h = on_conn h self (\<lambda>c. Ok (put_conn self (mark_connection_dead L code c) h))"

definition update_call :: "call_id \<Rightarrow> (grpc_call \<Rightarrow> grpc_call) \<Rightarrow> 'ss heap \<Rightarrow> 'ss heap res" where
  "update_call k f h = on_call (hp_calls h) k (\<lambda>call. Ok (put_call k (f call) h))"

definition note_connection_broken :: "conn_id \<Rightarrow> call_id \<Rightarrow> 'ss heap \<Rightarrow> 'ss heap res" where
  "note_connection_broken self k h = on_conn h self (\<lambda>c. update_call k (grpc_call_note_connection_broken (Some c)) h)"

definition connection_broke :: "'ss lib \<Rightarrow> conn_id \<Rightarrow> call_id \<Rightarrow> int \<Rightarrow> 'ss heap \<Rightarrow> 'ss heap res" where
  "connection_broke L self k code h = and_then (kill_connection L self code h) (note_connection_broken self k)"

text \<open>\<open>nghttp2_submit_request\<close> and the stream id it assigns.\<close>

definition submit_request ::
    "'ss lib \<Rightarrow> conn_id \<Rightarrow> call_id \<Rightarrow> (string \<times> string) list \<Rightarrow> 'ss heap \<Rightarrow> (int \<times> 'ss heap) res" where
  "submit_request L self k nva h =
     on_conn h self (\<lambda>c.
       case h2_session c of
         None \<Rightarrow> Fault
       | Some ss \<Rightarrow>
           (case nghttp2_submit_request L ss nva k of (ss, sid) \<Rightarrow>
              and_then (update_call k (\<lambda>call. call\<lparr>stream_id := sid\<rparr>) h) (\<lambda>h.
                Ok (sid, put_conn self (c\<lparr>h2_session := Some ss\<rparr>) h))))"

definition register_call :: "'ss lib \<Rightarrow> conn_id \<Rightarrow> call_id \<Rightarrow> 'ss heap \<Rightarrow> (bool \<times> 'ss heap) res" where
  "register_call L self k h =
     on_conn h self (\<lambda>c.
       and_then (register_grpc_call_stream L self k c (hp_calls h)) (\<lambda>(ok, c, calls).
         if ok then Ok (True, put_streams self c calls h)
         else on_call calls k (\<lambda>call.
                Ok (False, put_streams self (mark_grpc_call_stream_registration_failed L call c) calls h))))"

definition send_frames ::
    "'ss lib \<Rightarrow> conn_id \<Rightarrow> call_id \<Rightarrow> 'ss send_script \<Rightarrow> 'ss heap \<Rightarrow> io_world \<Rightarrow> (int \<times> 'ss heap \<times> io_world) res" where
  "send_frames L self k script h w =
     on_conn h self (\<lambda>c.
       and_then (send_pending_h2_frames L self script (Some k) c (hp_calls h) w) (\<lambda>(rv, c, calls, w).
         Ok (rv, put_streams self c calls h, w)))"

definition read_bytes :: "'ss lib \<Rightarrow> conn_id \<Rightarrow> call_id \<Rightarrow> 'ss heap \<Rightarrow> io_world \<Rightarrow> (int \<times> 'ss heap \<times> io_world) res" where
  "read_bytes L self k h w =
     on_conn h self (\<lambda>c. on_call (hp_calls h) k (\<lambda>call.
       and_then (h2_connection_recv_scratch c) (\<lambda>c.
         case connection_recv L (deadline_abs_us call) (h2_recv_scratch_len c) (c\<lparr>h2_current_io_call := Some k\<rparr>) w of
           None \<Rightarrow> Blocked
         | Some (nread, bytes, c, w) \<Rightarrow> Ok (nread, put_conn self (c\<lparr>h2_current_io_call := None\<rparr>) h, w))))"

definition note_read_error :: "int \<Rightarrow> 'ss h2_connection \<Rightarrow> int \<Rightarrow> grpc_call \<Rightarrow> grpc_call" where
  "note_read_error nread c err call =
     (if nread < 0
      then call\<lparr>last_io_errno := err, last_ssl_error := h2_last_ssl_error c,
                last_io_error_detail := snprintf_s 256 (h2_last_error_detail c)\<rparr>
      else call)"

definition socket_timeout :: "int \<Rightarrow> int \<Rightarrow> grpc_call \<Rightarrow> bool" where
  "socket_timeout nread err call \<longleftrightarrow> nread < 0 \<and> (err = EAGAIN \<or> err = ETIMEDOUT) \<and> 0 < deadline_abs_us call"

definition feed_session ::
    "'ss lib \<Rightarrow> module_globals \<Rightarrow> conn_id \<Rightarrow> call_id \<Rightarrow> 'ss recv_script \<Rightarrow> 'ss heap \<Rightarrow> (int \<times> 'ss heap) res" where
  "feed_session L G self k script h =
     on_conn h self (\<lambda>c.
       and_then (nghttp2_session_mem_recv L G self script (c\<lparr>h2_current_read_call := Some k\<rparr>) (hp_calls h)) (\<lambda>(rv, c, calls).
         Ok (rv, put_streams self (c\<lparr>h2_current_read_call := None\<rparr>) calls h)))"

definition free_call :: "call_id \<Rightarrow> 'ss heap \<Rightarrow> 'ss heap res" where
  "free_call k h = on_call (hp_calls h) k (\<lambda>call. Ok (h\<lparr>hp_calls := (hp_calls h)(k := None)\<rparr>))"

section \<open>Driving keeps the heap\<close>

definition drives :: "'ss lib \<Rightarrow> conn_id \<Rightarrow> 'ss heap \<Rightarrow> 'ss heap \<Rightarrow> bool" where
  "drives L self h h' \<longleftrightarrow> (\<exists>c c' calls'. hp_conns h self = Some c \<and> h' = put_streams self c' calls' h
     \<and> driven L self (c, hp_calls h) (c', calls'))"

text \<open>
  The call \<open>k\<close> may drive the connection \<open>self\<close>: every pointer the session holds is a live call of this
  connection, even if the connection has died meanwhile.
\<close>

definition steered :: "'ss lib \<Rightarrow> call_id set \<Rightarrow> conn_id set \<Rightarrow> conn_id \<Rightarrow> call_id \<Rightarrow> 'ss heap \<Rightarrow> bool" where
  "steered L X S self k h \<longleftrightarrow> heap_inv L X S h \<and> (\<exists>c call. hp_conns h self = Some c \<and> h2_session c \<noteq> None
     \<and> driving_ok L self c (hp_calls h) \<and> hp_calls h k = Some call \<and> connection call = Some self)"

lemma steeredE:
  assumes "steered L X S self k h"
  obtains c call where "heap_inv L X S h" "hp_conns h self = Some c" "h2_session c \<noteq> None" "driving_ok L self c (hp_calls h)"
    "hp_calls h k = Some call" "connection call = Some self" "h2_current_read_call c = None" "calls_wf (hp_calls h)"
  using assms by (auto simp: steered_def heap_defs)

lemma put_streams_twice [simp]:
  "put_streams self c calls (put_streams self c' calls' h) = put_streams self c calls h"
  "put_conn self c (put_streams self c' calls h) = put_streams self c calls h"
  "put_call k call (put_streams self c calls h) = put_streams self c (calls(k \<mapsto> call)) h"
  by (simp_all add: put_streams_def put_conn_def put_call_def)

lemma put_conn_streams: "put_conn self c h = put_streams self c (hp_calls h) h"
  by (simp add: put_streams_def put_conn_def)

lemma drives_trans: "drives L self a b \<Longrightarrow> drives L self b c \<Longrightarrow> drives L self a c"
  by (auto simp: drives_def) (metis driven_trans)

lemma drives_refl: "hp_conns h self = Some c \<Longrightarrow> driving_ok L self c (hp_calls h) \<Longrightarrow> drives L self h h"
  unfolding drives_def by (rule exI [of _ c], rule exI [of _ c], rule exI [of _ "hp_calls h"])
    (simp add: driven_def put_streams_def fun_upd_idem)

lemma drivesI:
  "hp_conns h self = Some c \<Longrightarrow> driven L self (c, hp_calls h) (c', calls') \<Longrightarrow> drives L self h (put_streams self c' calls' h)"
  by (auto simp: drives_def)

lemma drives_steered:
  assumes "steered L X S self k h" "drives L self h h'"
  shows "steered L X S self k h'"
proof -
  obtain c call where st: "heap_inv L X S h" "hp_conns h self = Some c" "h2_session c \<noteq> None" "hp_calls h k = Some call"
    "connection call = Some self" "calls_wf (hp_calls h)" using assms(1) by (elim steeredE)
  obtain c' calls' where h': "h' = put_streams self c' calls' h" "driven L self (c, hp_calls h) (c', calls')"
    using assms(2) st(2) by (auto simp: drives_def)
  have "heap_inv L X S h'" unfolding h'(1) by (rule heap_inv_driven [OF st(1,2) driven_driven_inv [OF h'(2)]]) (simp add: st(6))
  moreover obtain call' where "calls' k = Some call'" "connection call' = Some self"
    using calls_keptD [of self "hp_calls h" calls' k call] h'(2) st(4,5) by (auto simp: driven_def call_fixed_def)
  ultimately show ?thesis using h' st(3) by (auto simp: steered_def driven_def conn_kept_def conn_owner_def)
qed

lemma drives_keeps:
  assumes "drives L self h h'"
  shows "hp_cache h' = hp_cache h" "hp_initialized h' = hp_initialized h" "j \<noteq> self \<Longrightarrow> hp_conns h' j = hp_conns h j"
    "map_option call_fixed (hp_calls h' i) = map_option call_fixed (hp_calls h i)"
    "hp_conns h self = Some c \<Longrightarrow> \<exists>c'. hp_conns h' self = Some c' \<and> conn_kept c c'"
  using assms by (auto simp: drives_def driven_def calls_kept_def)

section \<open>Each step drives\<close>

lemma update_call_drives:
  assumes "steered L X S self k h" "\<And>call. call_core (f call) = call_core call"
  shows "returns (drives L self h) (update_call k f h)"
proof -
  obtain c call where st: "hp_conns h self = Some c" "driving_ok L self c (hp_calls h)" "hp_calls h k = Some call" "connection call = Some self"
    using assms(1) by (elim steeredE)
  have "put_call k (f call) h = put_streams self c ((hp_calls h)(k \<mapsto> f call)) h"
    using st(1) by (simp add: put_streams_def put_call_def fun_upd_idem)
  then show ?thesis using st drivesI [OF st(1) driven_call [OF st(2-4) assms(2)]] by (simp add: update_call_def)
qed

lemma kill_drives:
  assumes "steered L X S self k h" "rst_laws L"
  shows "returns (drives L self h) (kill_connection L self code h)"
proof -
  obtain c call where st: "hp_conns h self = Some c" "driving_ok L self c (hp_calls h)" using assms(1) by (elim steeredE)
  show ?thesis using st(1) drivesI [OF st(1) driven_connection [OF st(2) mark_dead_conn_step assms(2)]]
    by (simp add: kill_connection_def put_conn_streams)
qed

lemma note_broken_core [simp]: "call_core (grpc_call_note_connection_broken co call) = call_core call"
  by (simp add: grpc_call_note_connection_broken_def Let_def split: option.split)

lemma broke_drives:
  assumes "steered L X S self k h" "rst_laws L"
  shows "returns (drives L self h) (connection_broke L self k code h)"
  unfolding connection_broke_def
proof (rule returns_and_then [OF kill_drives [OF assms]])
  fix h1 assume d: "drives L self h h1"
  then have st: "steered L X S self k h1" using assms(1) drives_steered by blast
  then obtain c where "hp_conns h1 self = Some c" by (elim steeredE)
  then show "returns (drives L self h) (note_connection_broken self k h1)"
    using returns_mono [OF update_call_drives [OF st, of "grpc_call_note_connection_broken (Some c)"]] drives_trans [OF d]
    by (simp add: note_connection_broken_def)
qed

lemma send_drives:
  assumes "session_laws L" "steered L X S self k h" "send_script_ok L self script (hp_calls h)"
  shows "safe (\<lambda>(rv, h', w'). drives L self h h' \<and> ((rv = 0) = connection_io_allowed (hp_conns h' self))) (send_frames L self k script h w)"
proof -
  obtain c call where st: "hp_conns h self = Some c" "driving_ok L self c (hp_calls h)" "hp_calls h k = Some call" "connection call = Some self"
    using assms(2) by (elim steeredE)
  have "caller_ok self (Some k) (hp_calls h)" using st by (simp add: caller_ok_def)
  note d = send_script_driven [OF assms(1,3) st(2) this]
  show ?thesis unfolding send_frames_def on_conn_Some [OF st(1)] send_pending_h2_frames_def
    by (rule safe_and_then [OF d]) (auto intro: drivesI [OF st(1)])
qed

lemma erase_errors_step:
  assumes "erase_errors c' = erase_errors c"
  shows "conn_step L c c'"
proof -
  have "erase_io c' = erase_io c" using arg_cong [OF assms, of erase_io] by (simp add: erase_io_def erase_errors_def)
  then show ?thesis by (rule erase_io_step)
qed

lemma read_drives:
  assumes "rst_laws L" "steered L X S self k h"
  shows "safe (\<lambda>(nread, h', w'). drives L self h h') (read_bytes L self k h w)"
proof -
  obtain c call where st: "hp_conns h self = Some c" "driving_ok L self c (hp_calls h)" "hp_calls h k = Some call" "h2_current_read_call c = None"
    using assms(2) by (elim steeredE)
  have io: "conn_step L x (x\<lparr>h2_current_io_call := y\<rparr>)" for x :: "'a h2_connection" and y
    by (simp add: conn_step_def conn_kept_def conn_owner_def grpc_call_from_stream_id_def fun_eq_iff)
  obtain c1 where c1: "h2_connection_recv_scratch c = Ok c1" "conn_step L c c1"
    using st(4) detail_step(3) by (cases "h2_recv_scratch_len c = 0") (auto simp: h2_connection_recv_scratch_def)
  have "drives L self h (put_conn self (c2\<lparr>h2_current_io_call := None\<rparr>) h)"
    if "connection_recv L d n (c1\<lparr>h2_current_io_call := Some k\<rparr>) w = Some (nread, bytes, c2, w')" for d n nread bytes c2 w'
  proof -
    have "erase_errors c2 = erase_errors (c1\<lparr>h2_current_io_call := Some k\<rparr>)" using connection_recv_ok [OF that] by (simp add: read_ok_def)
    then have "conn_step L c (c2\<lparr>h2_current_io_call := None\<rparr>)" using c1(2) io erase_errors_step conn_step_trans by metis
    from drivesI [OF st(1) driven_connection [OF st(2) this assms(1)]] show ?thesis by (simp add: put_streams_def put_conn_def)
  qed
  then show ?thesis using st c1 by (auto simp: read_bytes_def split: option.splits)
qed

definition recv_script_ok :: "'ss lib \<Rightarrow> 'ss recv_script \<Rightarrow> bool" where
  "recv_script_ok L script \<longleftrightarrow> (case script of (evs, adv, rv) \<Rightarrow> adv_ok L adv)"

lemma feed_drives:
  assumes "session_laws L" "steered L X S self k h" "recv_script_ok L script"
  shows "safe (\<lambda>(rv, h'). drives L self h h') (feed_session L G self k script h)"
proof -
  obtain c call where st: "hp_conns h self = Some c" "driving_ok L self c (hp_calls h)" "h2_session c \<noteq> None" "calls_wf (hp_calls h)"
    "h2_current_read_call c = None" using assms(2) by (elim steeredE)
  let ?c = "c\<lparr>h2_current_read_call := Some k\<rparr>"
  have drv: "driving_ok L self ?c (hp_calls h)"
    using st(2) streams_ok_connection [of L self c "hp_calls h" ?c]
    by (simp add: driving_ok_def pointers_ok_def grpc_call_from_stream_id_def)
  obtain evs adv rv0 where script: "script = (evs, adv, rv0)" by (metis surj_pair)
  have adv: "adv_ok L adv" using assms(3) script by (simp add: recv_script_ok_def)
  have "h2_session ?c \<noteq> None" using st(3) by simp
  note m = mem_recv_driven [OF assms(1) adv drv st(4) this, of G evs rv0]
  show ?thesis unfolding feed_session_def on_conn_Some [OF st(1)] script
  proof (rule safe_and_then [OF m], clarsimp)
    fix c1 calls1 assume d: "driven L self (?c, hp_calls h) (c1, calls1)"
    let ?c1 = "c1\<lparr>h2_current_read_call := None\<rparr>"
    have "driving_ok L self ?c1 calls1"
      using d streams_ok_connection [of L self c1 calls1 ?c1]
      by (simp add: driven_def driving_ok_def pointers_ok_def grpc_call_from_stream_id_def)
    moreover have "conn_kept c ?c1" using d st(5) by (auto simp: driven_def conn_kept_def conn_owner_def)
    ultimately have "driven L self (c, hp_calls h) (?c1, calls1)" using d by (simp add: driven_def)
    then show "drives L self h (put_streams self ?c1 calls1 h)" by (rule drivesI [OF st(1)])
  qed
qed

lemma cancel_drives:
  assumes "session_laws L" "steered L X S self k h" "send_script_ok L self script (hp_calls h)"
  shows "safe (\<lambda>(h', w'). drives L self h h') (cancel_grpc_call_stream L script e k h w)"
proof -
  obtain c call where st: "hp_conns h self = Some c" "driving_ok L self c (hp_calls h)" "hp_calls h k = Some call" "connection call = Some self"
    using assms(2) by (elim steeredE)
  show ?thesis by (rule safe_mono [OF cancel_driven [OF assms(1) st(2-4,1) assms(3)]]) (auto intro: drivesI [OF st(1)])
qed

section \<open>Preparing, submitting, registering\<close>

lemma prepare_safe:
  "safe (\<lambda>(p, w'). \<forall>nva. p = Prepared nva \<longrightarrow> (\<exists>t kvs. 0 \<le> t \<and> nva = fixed_headers (h2_tls c) (h2_authority c) (rq_path R) t (rq_user_agent R) @ kvs))
     (prepare_request enc R c w)"
proof -
  obtain hs where hs: "append_fixed_request_headers (h2_tls c) (h2_authority c) (rq_path R) init_request_headers = Appended hs"
    by (rule fixed_block)
  have b: "append_call_request_headers enc t (rq_user_agent R) (rq_headers R) hs
      = build_request_headers enc (h2_tls c) (h2_authority c) (rq_path R) t (rq_user_agent R) (rq_headers R)" for t
    by (simp add: build_request_headers_def hs)
  have ok: "case append_call_request_headers enc t (rq_user_agent R) (rq_headers R) hs of
      Appended h \<Rightarrow> \<exists>kvs. rh_nva h = fixed_headers (h2_tls c) (h2_authority c) (rq_path R) t (rq_user_agent R) @ kvs
    | Rejected e h \<Rightarrow> True | Overflow \<Rightarrow> False" for t
    unfolding b using build_implements [where enc = enc and tls = "h2_tls c" and authority = "h2_authority c"
      and path = "rq_path R" and t = t and ua = "rq_user_agent R" and headers_zv = "rq_headers R"]
    by (auto split: append_result.splits)
  show ?thesis
  proof (cases "remaining_timeout_us_for_deadline (rq_deadline_abs_us R) w")
    case (Some x)
    obtain t w1 where x: "x = (t, w1)" by fastforce
    show ?thesis
    proof (cases "append_call_request_headers enc t (rq_user_agent R) (rq_headers R) hs")
      case (Appended h)
      obtain kvs where "rh_nva h = fixed_headers (h2_tls c) (h2_authority c) (rq_path R) t (rq_user_agent R) @ kvs"
        using ok [of t] Appended by auto
      then show ?thesis using Some x hs Appended by (cases "t < 0") (auto simp: prepare_request_def intro: exI [of _ t])
    qed (use Some x hs ok [of t] in \<open>auto simp: prepare_request_def\<close>)
  qed (simp add: prepare_request_def hs)
qed

text \<open>A call that is on no list and owns nothing.\<close>

definition unlinked :: "grpc_call \<Rightarrow> bool" where
  "unlinked call \<longleftrightarrow> \<not> stream_registered call \<and> \<not> connection_owned call"

lemma unlinked_not_listed: "unlinked call \<Longrightarrow> \<not> listed j call"
  by (simp add: unlinked_def listed_def)

lemma put_unlinked_inv:
  assumes inv: "heap_inv L X S h" and old: "\<And>call. hp_calls h k = Some call \<Longrightarrow> unlinked call"
    and new: "unlinked call'" "direct_call call'" "request_ok call'"
  shows "heap_inv L (insert k X) S (put_call k call' h)"
proof -
  let ?h = "put_call k call' h"
  have nl: "\<not> listed j call'" "hp_calls h k = Some call \<Longrightarrow> \<not> listed j call" for j call
    using new(1) old unlinked_not_listed by blast+
  have "streams_ok L j cj (hp_calls ?h)" if "hp_conns h j = Some cj" for j cj
  proof (rule streams_ok_listed [of L j cj "hp_calls h"])
    show "streams_ok L j cj (hp_calls h)" using heap_inv_conn(1) [OF inv that] by (simp add: conn_inv_def)
  qed (use nl in \<open>auto split: if_splits\<close>)
  moreover have "owners (hp_calls ?h) j = owners (hp_calls h) j" for j
    using new(1) old by (auto simp: owners_def unlinked_def split: if_splits)
  ultimately have "conns_ok L ?h" using inv by (simp add: heap_defs)
  moreover have "links_ok (insert k X) ?h" using inv new(1) unfolding heap_inv_def heap_ok_def links_ok_def by (auto simp: unlinked_def)
  moreover have "calls_wf (hp_calls ?h)" using inv new by (auto simp: heap_defs calls_wf_def)
  moreover have "finite (dom (hp_calls ?h))" using inv by (simp add: heap_defs)
  moreover have "cache_ok ?h" using inv by (simp add: heap_inv_def heap_ok_def cache_ok_def)
  moreover have "kept_alive S ?h" by (rule kept_alive_mono [of S h]) (use inv in \<open>simp_all add: heap_inv_def\<close>)
  ultimately show ?thesis by (simp only: heap_inv_def heap_ok_def)
qed

lemma new_call_wf:
  "unlinked (new_call self m R)" "direct_call (new_call self m R)" "request_ok (new_call self m R)"
  "connection (new_call self m R) = Some self" "\<not> stream_closed (new_call self m R)"
  by (simp_all add: new_call_def grpc_protocol_set_message_header_def grpc_call_zero_def unlinked_def direct_call_def request_ok_def)

lemma streams_pointers:
  assumes "streams_ok L self c calls" "connection_usable (Some c)"
  shows "driving_ok L self c calls"
  using assms streams_driving by (auto simp: connection_usable_def)

lemma new_call_steered:
  assumes inv: "heap_inv L X S h" and c: "hp_conns h self = Some c" "connection_usable (Some c)" and k: "hp_calls h k = None"
    and call: "unlinked call" "direct_call call" "request_ok call" "connection call = Some self"
  shows "steered L (insert k X) S self k (put_call k call h)"
proof -
  have i: "heap_inv L (insert k X) S (put_call k call h)" by (rule put_unlinked_inv [OF inv _ call(1-3)]) (use k in simp)
  have c': "hp_conns (put_call k call h) self = Some c" using c by simp
  have "driving_ok L self c (hp_calls (put_call k call h))"
    using streams_pointers [OF _ c(2)] heap_inv_conn(1) [OF i c'] by (simp add: conn_inv_def)
  then show ?thesis using i c call(4) by (auto simp: steered_def connection_usable_def)
qed

text \<open>Submitting a request gives no stream a user-data pointer and takes none away.\<close>

definition submit_laws :: "'ss lib \<Rightarrow> bool" where
  "submit_laws L \<longleftrightarrow> (\<forall>ss nva k sid. nghttp2_session_get_stream_user_data L (fst (nghttp2_submit_request L ss nva k)) sid
     = nghttp2_session_get_stream_user_data L ss sid)"

lemma submit_steered:
  assumes laws: "rst_laws L" "submit_laws L" and st: "steered L (insert k X) S self k h"
    and k: "hp_calls h k = Some call" "unlinked call"
  shows "returns (\<lambda>(sid, h'). steered L (insert k X) S self k h' \<and> hp_calls h' = (hp_calls h)(k \<mapsto> call\<lparr>stream_id := sid\<rparr>)
      \<and> hp_cache h' = hp_cache h \<and> (\<forall>j. j \<noteq> self \<longrightarrow> hp_conns h' j = hp_conns h j)
      \<and> (\<forall>c. hp_conns h self = Some c \<longrightarrow> (\<exists>c'. hp_conns h' self = Some c' \<and> conn_kept c c' \<and> h2_dead c' = h2_dead c \<and> h2_draining c' = h2_draining c)))
    (submit_request L self k nva h)"
proof -
  obtain c where c: "heap_inv L (insert k X) S h" "hp_conns h self = Some c" "h2_session c \<noteq> None" "driving_ok L self c (hp_calls h)"
    "connection call = Some self" "calls_wf (hp_calls h)" using st k by (auto elim: steeredE)
  obtain ss where ss: "h2_session c = Some ss" using c(3) by auto
  obtain ss' sid where sub: "nghttp2_submit_request L ss nva k = (ss', sid)" by fastforce
  define call' where "call' = call\<lparr>stream_id := sid\<rparr>"
  define c' where "c' = c\<lparr>h2_session := Some ss'\<rparr>"
  have wf: "unlinked call'" "direct_call call'" "request_ok call'" "connection call' = Some self"
    using k c(5,6) by (auto simp: call'_def unlinked_def calls_wf_def direct_call_def request_ok_def)
  have i: "heap_inv L (insert k X) S (put_call k call' h)" using put_unlinked_inv [OF c(1) _ wf(1-3), of k] k by simp
  have same: "nghttp2_session_get_stream_user_data L ss' x = nghttp2_session_get_stream_user_data L ss x" for x
    using laws(2) sub unfolding submit_laws_def by (metis fst_conv)
  have step: "conn_step L c c'"
    using ss same by (simp add: c'_def conn_step_def conn_kept_def conn_owner_def grpc_call_from_stream_id_def fun_eq_iff)
  have "streams_ok L self c (hp_calls (put_call k call' h))" using heap_inv_conn(1) [OF i] c(2) by (simp add: conn_inv_def)
  moreover have "pointers_ok L self c ((hp_calls h)(k \<mapsto> call'))"
    using c(4) wf(4) by (auto simp: driving_ok_def pointers_ok_def)
  ultimately have st1: "steered L (insert k X) S self k (put_call k call' h)"
    using i c(2,3) wf(4) by (simp add: steered_def driving_ok_def)
  have c1: "hp_conns (put_call k call' h) self = Some c" using c(2) by simp
  have "driving_ok L self c (hp_calls (put_call k call' h))" using st1 c1 by (auto elim: steeredE)
  from drivesI [OF c1 driven_connection [OF this step laws(1)]]
  have st2: "steered L (insert k X) S self k (put_conn self c' (put_call k call' h))"
    using drives_steered [OF st1] by (simp add: put_conn_streams)
  have "submit_request L self k nva h = Ok (sid, put_conn self c' (put_call k call' h))"
    using c(2) ss sub k(1) by (simp add: submit_request_def update_call_def c'_def call'_def)
  then show ?thesis using st2 step c(2) by (simp add: call'_def c'_def conn_step_def)
qed

text \<open>A registered call owns its connection.\<close>

lemma link_call_inv:
  assumes inv: "heap_inv L (insert k X) S h" and c: "hp_conns h self = Some c" and k: "hp_calls h k = Some call" "unlinked call"
    and call': "connection call' = Some self" "connection_owned call'" "direct_call call' = direct_call call" "request_ok call' = request_ok call"
    and c': "streams_ok L self c' ((hp_calls h)(k \<mapsto> call'))" "h2_stream_owner_count c' = h2_stream_owner_count c + 1"
      "h2_detached_from_cache c' = h2_detached_from_cache c" "h2_current_read_call c' = h2_current_read_call c"
  shows "heap_inv L X S (put_streams self c' ((hp_calls h)(k \<mapsto> call')) h)"
proof -
  let ?calls = "(hp_calls h)(k \<mapsto> call')" and ?h = "put_streams self c' ((hp_calls h)(k \<mapsto> call')) h"
  note own = heap_inv_conn [OF inv c]
  have os: "owners ?calls j = (if j = self then insert k (owners (hp_calls h) self) else owners (hp_calls h) j)" for j
    using k call'(1,2) by (auto simp: owners_def unlinked_def split: if_splits)
  have nk: "k \<notin> owners (hp_calls h) self" using k by (simp add: owners_def unlinked_def)
  have other: "streams_ok L j cj ?calls" if j: "hp_conns h j = Some cj" "j \<noteq> self" for j cj
  proof (rule streams_ok_listed [of L j cj "hp_calls h"])
    show "streams_ok L j cj (hp_calls h)" using heap_inv_conn(1) [OF inv j(1)] by (simp add: conn_inv_def)
  qed (use k j(2) call'(1) in \<open>auto simp: listed_def unlinked_def split: if_splits\<close>)
  have cok: "conns_ok L h" "links_ok (insert k X) h" "cache_ok h" "kept_alive S h" using inv by (simp_all add: heap_inv_def heap_ok_def)
  have "conns_ok L ?h" unfolding conns_ok_def
  proof (intro allI impI)
    fix j cj assume "hp_conns ?h j = Some cj"
    then consider "j = self" "cj = c'" | "j \<noteq> self" "hp_conns h j = Some cj" by (auto split: if_splits)
    then show "streams_ok L j cj (hp_calls ?h) \<and> h2_stream_owner_count cj = card (owners (hp_calls ?h) j) \<and> h2_current_read_call cj = None"
    proof cases
      case 1
      then show ?thesis using c' own os [of self] nk cok(1) c by (simp add: conns_ok_def)
    next
      case 2
      then show ?thesis using other cok(1) os [of j] by (simp add: conns_ok_def)
    qed
  qed
  moreover have "links_ok X ?h"
    using cok(2) call'(1,2) c unfolding links_ok_def by (auto split: if_splits) (metis option.distinct(1))+
  moreover have "cache_ok ?h" by (rule cache_ok_conn [OF cok(3) c c'(3)])
  moreover have "kept_alive S ?h"
  proof (rule kept_aliveI)
    fix j cj assume j: "hp_conns ?h j = Some cj" "j \<notin> S"
    have "cached ?h j = cached h j" by (simp add: cached_def)
    then show "cached ?h j \<or> h2_detached_from_cache cj \<and> 0 < h2_stream_owner_count cj"
      using kept_aliveD [OF cok(4), of j] j c c'(2,3) by (cases "j = self") auto
  qed
  moreover have "calls_wf ?calls" using inv k(1) call'(3,4) by (simp add: heap_defs calls_wf_upd)
  moreover have "finite (dom ?calls)" using inv by (simp add: heap_defs)
  ultimately show ?thesis by (simp add: heap_inv_def heap_ok_def)
qed

lemma register_steered:
  assumes laws: "session_laws L" and st: "steered L (insert k X) S self k h" and k: "hp_calls h k = Some call" "unlinked call"
    and c: "hp_conns h self = Some c"
  shows "returns (\<lambda>(ok, h'). hp_cache h' = hp_cache h \<and> (\<forall>j. j \<noteq> self \<longrightarrow> hp_conns h' j = hp_conns h j)
      \<and> (\<forall>j. j \<noteq> k \<longrightarrow> hp_calls h' j = hp_calls h j)
      \<and> (\<exists>c'. hp_conns h' self = Some c' \<and> h2_detached_from_cache c' = h2_detached_from_cache c \<and> (ok \<or> h2_dead c'))
      \<and> (if ok then steered L X S self k h' \<and> (\<exists>call'. hp_calls h' k = Some call' \<and> connection_owned call' \<and> retry_attempt call' = retry_attempt call)
         else steered L (insert k X) S self k h' \<and> hp_calls h' = hp_calls h))
    (register_call L self k h)"
proof -
  have ul: "user_data_laws L" "rst_laws L" using laws by (simp_all add: session_laws_def)
  obtain c0: "heap_inv L (insert k X) S h" "h2_session c \<noteq> None" "driving_ok L self c (hp_calls h)" "connection call = Some self"
    using st k c by (auto elim: steeredE)
  obtain ss where ss: "h2_session c = Some ss" using c0(2) by auto
  obtain ss' rv where set: "nghttp2_session_set_stream_user_data L ss (stream_id call) (Some k) = (ss', rv)" by fastforce
  obtain ks where ks: "registry_ok self c (hp_calls h) ks" using c0(3) by (auto simp: driving_ok_def streams_ok_def)
  have ud: "nghttp2_session_get_stream_user_data L ss' x =
      (if x \<noteq> stream_id call then nghttp2_session_get_stream_user_data L ss x else if rv = 0 then Some k else None)" for x
    using ul(1) set unfolding user_data_laws_def by blast
  have reg: "\<not> stream_registered call" using k(2) by (simp add: unlinked_def)
  show ?thesis
  proof (cases "0 < stream_id call \<and> rv = 0")
    case True
    define c' where "c' = c\<lparr>h2_session := Some ss', h2_active_streams := Some k, h2_active_stream_count := h2_active_stream_count c + 1,
        h2_stream_owner_count := h2_stream_owner_count c + 1\<rparr>"
    define call' where "call' = call\<lparr>connection := Some self, stream_registered := True, connection_owned := True,
        next_active_stream := h2_active_streams c\<rparr>"
    let ?calls = "(hp_calls h)(k \<mapsto> call')"
    have run: "register_grpc_call_stream L self k c (hp_calls h) = Ok (True, c', ?calls)"
      using True k(1) ss set by (simp add: register_grpc_call_stream_def c'_def call'_def)
    have "registry_ok self c' ?calls (k # ks)"
      using register_ok [OF ks k(1) reg c0(2), of L] run by (auto split: if_splits)
    moreover have ptr: "grpc_call_from_stream_id L c' x = (if x = stream_id call then Some k else grpc_call_from_stream_id L c x)" for x
      using ss ud [of x] True by (cases "x = stream_id call") (simp_all add: grpc_call_from_stream_id_def c'_def)
    have "user_data_ok L self c' ?calls"
    proof -
      have "\<exists>call. ?calls j = Some call \<and> listed self call \<and> stream_id call = x"
        if live: "\<not> h2_dead c" and x: "grpc_call_from_stream_id L c' x = Some j" for x j
      proof (cases "x = stream_id call")
        case True
        then show ?thesis using x ptr [of x] \<open>0 < stream_id call \<and> rv = 0\<close> by (auto simp: call'_def listed_def)
      next
        case False
        then have "grpc_call_from_stream_id L c x = Some j" using x ptr [of x] by simp
        then obtain old where "hp_calls h j = Some old" "listed self old" "stream_id old = x"
          using user_data_okD [of L self c "hp_calls h" x j] live c0(3) by (auto simp: driving_ok_def streams_ok_def)
        moreover from this have "j \<noteq> k" using k unlinked_not_listed by auto
        ultimately show ?thesis by simp
      qed
      moreover have "h2_dead c' = h2_dead c" by (simp add: c'_def)
      ultimately show ?thesis unfolding user_data_ok_def by blast
    qed
    ultimately have so: "streams_ok L self c' ?calls" by (auto simp: streams_ok_def)
    have "heap_inv L X S (put_streams self c' ?calls h)"
      by (rule link_call_inv [OF c0(1) c k _ _ _ _ so])
         (simp_all add: call'_def c'_def direct_call_def request_ok_def)
    moreover have "pointers_ok L self c' ?calls"
      using c0(3) ptr by (auto simp: driving_ok_def pointers_ok_def call'_def split: if_splits)
    ultimately have "steered L X S self k (put_streams self c' ?calls h)"
      using so by (auto simp: steered_def driving_ok_def c'_def call'_def)
    then show ?thesis using run c by (simp add: register_call_def c'_def call'_def)
  next
    case False
    define c1 where "c1 = (if 0 < stream_id call then c\<lparr>h2_session := Some ss'\<rparr> else c)"
    define c' where "c' = mark_grpc_call_stream_registration_failed L call c1"
    have run: "register_grpc_call_stream L self k c (hp_calls h) = Ok (False, c1, hp_calls h)"
      using False k(1) ss set by (auto simp: register_grpc_call_stream_def c1_def)
    obtain ss2 rv2 where set2: "nghttp2_session_set_stream_user_data L ss' (stream_id call) None = (ss2, rv2)" by fastforce
    have ud2: "nghttp2_session_get_stream_user_data L ss2 x =
      (if x \<noteq> stream_id call then nghttp2_session_get_stream_user_data L ss' x else None)" for x
      using ul(1) set2 unfolding user_data_laws_def by (metis (full_types))
    have flds: "h2_dead c'" "h2_session c' = (if 0 < stream_id call then Some ss2 else Some ss)" "h2_active_streams c' = h2_active_streams c"
      "h2_active_stream_count c' = h2_active_stream_count c" "conn_kept c c'"
      using ss set2 by (auto simp: c'_def c1_def mark_grpc_call_stream_registration_failed_def conn_kept_def conn_owner_def
          set_connection_error_detail_def mark_connection_dead_def Let_def)
    have few: "fewer_pointers L c c'"
      using ss ud ud2 False by (auto simp: fewer_pointers_def grpc_call_from_stream_id_def flds(2) split: if_splits)
    have "streams_ok L self c' (hp_calls h)"
      using registry_ok_connection [OF ks flds(3,4)] flds(1) by (auto simp: streams_ok_def user_data_ok_def)
    moreover have "pointers_ok L self c' (hp_calls h)"
      by (rule pointers_ok_mono [OF _ few, of self "hp_calls h"]) (use c0(3) in \<open>simp_all add: driving_ok_def\<close>)
    ultimately have "driven L self (c, hp_calls h) (c', hp_calls h)" using flds(5) by (simp add: driven_def driving_ok_def)
    then have "steered L (insert k X) S self k (put_streams self c' (hp_calls h) h)"
      using drives_steered [OF st drivesI [OF c]] by blast
    then show ?thesis using run c k flds(1,5) by (simp add: register_call_def c'_def conn_kept_def conn_owner_def)
  qed
qed

end
