(* ===== verification/Unary_Call.thy ===== *)
theory Unary_Call
  imports Call_Driver
begin

text \<open>
  Unary calls (\<open>src/src/unary_call.c\<close>): set-up, submission, the receive loop, the result, and the contract
  about the lifetime of the connection that is stated before the function.
\<close>

section \<open>The result\<close>

record unary_result =
  ur_body :: "byte list option"
  ur_status :: grpc_lite_status_result
  ur_initial_metadata :: metadata_map
  ur_trailing_metadata :: metadata_map
  ur_outcome :: grpc_lite_attempt_outcome

definition grpc_lite_unary_take_response_payload :: "grpc_call \<Rightarrow> byte list option \<times> grpc_call" where
  "grpc_lite_unary_take_response_payload call =
     (case response_queue call of
        [] \<Rightarrow> (None, call)
      | payload # rest \<Rightarrow>
          (Some payload,
           call\<lparr>response_queue := rest,
                response_queue_count := (if 0 < response_queue_count call then response_queue_count call - 1 else 0),
                response_queue_bytes := (if length payload \<le> response_queue_bytes call
                                         then response_queue_bytes call - length payload else response_queue_bytes call)\<rparr>))"

definition note_truncated_message :: "grpc_call \<Rightarrow> grpc_call" where
  "note_truncated_message call =
     (if stream_closed call \<and> \<not> response_message_too_large call \<and> \<not> compressed_response_seen call
         \<and> \<not> stream_reset_seen call \<and> \<not> locally_cancelled call
         \<and> (response_header_len call \<noteq> 0 \<or> response_payload call \<noteq> None \<or> response_payload_offset call \<noteq> 0)
      then call\<lparr>malformed_response_frame := True\<rparr> else call)"

definition unary_result_of_call :: "(string \<Rightarrow> string option) \<Rightarrow> 'ss h2_connection \<Rightarrow> grpc_call \<Rightarrow> unary_result" where
  "unary_result_of_call dec c call =
     (case grpc_lite_unary_take_response_payload call of (body, taken) \<Rightarrow>
        \<lparr>ur_body = body,
         ur_status = resolve_grpc_call_status (Some c) call False,
         ur_initial_metadata = grpc_protocol_copy_metadata_map dec taken False,
         ur_trailing_metadata = grpc_protocol_copy_metadata_map dec taken True,
         ur_outcome = grpc_lite_attempt_outcome_from_call (Some taken) False\<rparr>)"

section \<open>Giving the call up\<close>

definition end_call :: "'ss lib \<Rightarrow> conn_id \<Rightarrow> call_id \<Rightarrow> 'ss heap \<Rightarrow> 'ss heap res" where
  "end_call L self k h =
     and_then (clear_connection_call_owner L self k h) (\<lambda>h.
       and_then (free_call k h) (destroy_detached_connection_if_unowned self))"

definition build_unary_result ::
    "'ss lib \<Rightarrow> (string \<Rightarrow> string option) \<Rightarrow> conn_id \<Rightarrow> call_id \<Rightarrow> 'ss heap \<Rightarrow> (unary_result \<times> 'ss heap) res" where
  "build_unary_result L dec self k h =
     and_then (update_call k note_truncated_message h) (\<lambda>h.
       on_call (hp_calls h) k (\<lambda>call. on_conn h self (\<lambda>c.
         and_then (end_call L self k h) (\<lambda>h. Ok (unary_result_of_call dec c call, h)))))"

section \<open>The receive loop\<close>

definition unary_read_failed ::
    "'ss lib \<Rightarrow> conn_id \<Rightarrow> call_id \<Rightarrow> 'ss send_script \<Rightarrow> int \<Rightarrow> 'ss heap \<Rightarrow> io_world \<Rightarrow> ('ss heap \<times> io_world) res" where
  "unary_read_failed L self k cancel nread h w =
     on_conn h self (\<lambda>c. and_then (update_call k (note_read_error nread c (w_errno w)) h) (\<lambda>h.
       on_call (hp_calls h) k (\<lambda>call.
         if socket_timeout nread (w_errno w) call then
           and_then (update_call k (\<lambda>call. call\<lparr>timed_out := True\<rparr>) h) (\<lambda>h. cancel_grpc_call_stream L cancel NGHTTP2_CANCEL k h w)
         else if \<not> stream_closed call then
           and_then (connection_broke L self k (if nread = 0 then 0 else w_errno w) h) (\<lambda>h. Ok (h, w))
         else Ok (h, w))))"

text \<open>The flag of the result is false when the call failed and has been given up.\<close>

fun unary_loop ::
    "'ss lib \<Rightarrow> module_globals \<Rightarrow> conn_id \<Rightarrow> call_id \<Rightarrow> 'ss send_script \<Rightarrow> 'ss round list \<Rightarrow> 'ss heap \<Rightarrow> io_world
      \<Rightarrow> (bool \<times> 'ss heap \<times> io_world) res" where
  "unary_loop L G self k cancel rounds h w =
     on_call (hp_calls h) k (\<lambda>call.
       if stream_closed call then Ok (True, h, w)
       else and_then (read_bytes L self k h w) (\<lambda>(nread, h, w).
         if nread \<le> 0 then and_then (unary_read_failed L self k cancel nread h w) (\<lambda>(h, w). Ok (True, h, w))
         else case rounds of
                [] \<Rightarrow> Blocked
              | (received, want_write, sent) # rounds \<Rightarrow>
                  and_then (feed_session L G self k received h) (\<lambda>(rv, h).
                    if rv < 0 then
                      and_then (kill_connection L self rv h) (\<lambda>h.
                      and_then (detach_persistent_connection_by_ptr self h) (\<lambda>h.
                      and_then (end_call L self k h) (\<lambda>h. Ok (False, h, w))))
                    else if want_write then
                      and_then (send_frames L self k sent h w) (\<lambda>(rv, h, w).
                        if rv \<noteq> 0 then and_then (connection_broke L self k rv h) (\<lambda>h. Ok (True, h, w))
                        else unary_loop L G self k cancel rounds h w)
                    else unary_loop L G self k cancel rounds h w)))"

declare unary_loop.simps [simp del]

section \<open>The call\<close>

text \<open>What nghttp2 will do during the call: the first send, the rounds of the loop, the send of a cancellation.\<close>

record 'ss call_script =
  cs_initial :: "'ss send_script"
  cs_rounds :: "'ss round list"
  cs_cancel :: "'ss send_script"

definition unary_submit ::
    "'ss lib \<Rightarrow> conn_id \<Rightarrow> call_id \<Rightarrow> (string \<times> string) list \<Rightarrow> 'ss heap \<Rightarrow> (string option \<times> 'ss heap) res" where
  "unary_submit L self k nva h =
     and_then (submit_request L self k nva h) (\<lambda>(sid, h).
       if sid < 0 then
         and_then (if nghttp2_is_fatal L sid
                   then and_then (kill_connection L self sid h) (detach_persistent_connection_by_ptr self) else Ok h) (\<lambda>h.
         and_then (end_call L self k h) (\<lambda>h. Ok (Some ''nghttp2_submit_request failed'', h)))
       else
         and_then (register_call L self k h) (\<lambda>(ok, h).
           if \<not> ok then
             and_then (detach_persistent_connection_by_ptr self h) (\<lambda>h.
             and_then (end_call L self k h) (\<lambda>h. Ok (Some ''failed to register HTTP/2 stream'', h)))
           else Ok (None, h)))"

definition unary_exchange ::
    "'ss lib \<Rightarrow> module_globals \<Rightarrow> (string \<Rightarrow> string option) \<Rightarrow> conn_id \<Rightarrow> call_id \<Rightarrow> 'ss call_script \<Rightarrow> 'ss heap \<Rightarrow> io_world
      \<Rightarrow> ((string + unary_result) \<times> 'ss heap \<times> io_world) res" where
  "unary_exchange L G dec self k script h w =
     and_then (send_frames L self k (cs_initial script) h w) (\<lambda>(rv, h, w).
     and_then (if rv \<noteq> 0 then and_then (connection_broke L self k rv h) (\<lambda>h. Ok (True, h, w))
               else unary_loop L G self k (cs_cancel script) (cs_rounds script) h w) (\<lambda>(go_on, h, w).
       if \<not> go_on then Ok (Inl ''nghttp2_session_mem_recv failed'', h, w)
       else and_then (build_unary_result L dec self k h) (\<lambda>(r, h). Ok (Inr r, h, w))))"

definition grpc_lite_unary_call_perform_core_on_connection ::
    "'ss lib \<Rightarrow> module_globals \<Rightarrow> (string \<Rightarrow> string) \<Rightarrow> (string \<Rightarrow> string option) \<Rightarrow> conn_id \<Rightarrow> call_id \<Rightarrow> call_request
      \<Rightarrow> 'ss call_script \<Rightarrow> 'ss heap \<Rightarrow> io_world \<Rightarrow> ((string + unary_result) \<times> 'ss heap \<times> io_world) res" where
  "grpc_lite_unary_call_perform_core_on_connection L G enc dec self k R script h w =
     on_conn h self (\<lambda>c.
       if \<not> connection_usable (Some c) then Ok (Inl ''invalid grpc_lite connection'', h, w)
       else if UINT32_MAX < int (length (rq_request R)) then Ok (Inl ''gRPC request message exceeds 32-bit frame length'', h, w)
       else
         (let h = put_call k (new_call self 1 R) h
          in case remaining_timeout_us_for_deadline (rq_deadline_abs_us R) w of
               None \<Rightarrow> Blocked
             | Some (remaining, w) \<Rightarrow>
                 if remaining < 0 then
                   and_then (update_call k (\<lambda>call. call\<lparr>timed_out := True\<rparr>) h) (\<lambda>h.
                   and_then (build_unary_result L dec self k h) (\<lambda>(r, h). Ok (Inr r, h, w)))
                 else
                   and_then (prepare_request enc R c w) (\<lambda>(p, w).
                     case p of
                       PrepareTimedOut \<Rightarrow>
                         and_then (update_call k (\<lambda>call. call\<lparr>timed_out := True\<rparr>) h) (\<lambda>h.
                         and_then (clear_connection_call_owner L self k h) (\<lambda>h.
                         and_then (build_unary_result L dec self k h) (\<lambda>(r, h). Ok (Inr r, h, w))))
                     | PrepareRefused e \<Rightarrow>
                         and_then (clear_connection_call_owner L self k h) (\<lambda>h.
                         and_then (free_call k h) (\<lambda>h. Ok (Inl e, h, w)))
                     | Prepared nva \<Rightarrow>
                         and_then (unary_submit L self k nva h) (\<lambda>(err, h).
                           case err of
                             Some e \<Rightarrow> Ok (Inl e, h, w)
                           | None \<Rightarrow> unary_exchange L G dec self k script h w))))"

section \<open>Frame\<close>

lemma heap_inv_mono: "heap_inv L X S h \<Longrightarrow> X \<subseteq> X' \<Longrightarrow> S \<subseteq> S' \<Longrightarrow> heap_inv L X' S' h"
  unfolding heap_inv_def heap_ok_def links_ok_def kept_alive_def by (simp, blast)

definition same_links :: "conn_id \<Rightarrow> call_store \<Rightarrow> call_store \<Rightarrow> bool" where
  "same_links self calls calls' \<longleftrightarrow> (\<forall>j call. calls j = Some call \<longrightarrow> connection call = Some self \<longrightarrow>
     (\<exists>call'. calls' j = Some call' \<and> connection call' = Some self \<and> retry_attempt call' = retry_attempt call))"

lemma send_script_ok_links: "send_script_ok L self s calls \<Longrightarrow> same_links self calls calls' \<Longrightarrow> send_script_ok L self s calls'"
  unfolding send_script_ok_def sources_ok_def same_links_def by (auto split: prod.splits) metis

lemma same_links_trans: "same_links self a b \<Longrightarrow> same_links self b c \<Longrightarrow> same_links self a c"
  unfolding same_links_def by metis

lemma kept_links: "calls_kept self calls calls' \<Longrightarrow> same_links self calls calls'"
  unfolding same_links_def
proof (intro allI impI)
  fix j call assume "calls_kept self calls calls'" "calls j = Some call" "connection call = Some self"
  then show "\<exists>call'. calls' j = Some call' \<and> connection call' = Some self \<and> retry_attempt call' = retry_attempt call"
    using calls_keptD [of self calls calls' j call] by (auto simp: call_fixed_def)
qed

lemma drives_links: "drives L self h h' \<Longrightarrow> same_links self (hp_calls h) (hp_calls h')"
  by (auto simp: drives_def driven_def intro: kept_links)

text \<open>Everything but the call and its connection is as in \<open>h\<^sub>0\<close>.\<close>

definition framed :: "conn_id \<Rightarrow> call_id \<Rightarrow> 'ss heap \<Rightarrow> 'ss heap \<Rightarrow> bool" where
  "framed self k h0 h \<longleftrightarrow>
     (\<forall>j. j \<noteq> k \<longrightarrow> map_option call_fixed (hp_calls h j) = map_option call_fixed (hp_calls h0 j))
     \<and> (\<forall>j. j \<noteq> self \<longrightarrow> hp_conns h j = hp_conns h0 j) \<and> set (hp_cache h) \<subseteq> set (hp_cache h0)"

lemma framed_trans: "framed self k a b \<Longrightarrow> framed self k b c \<Longrightarrow> framed self k a c"
  by (auto simp: framed_def)

lemma drives_framed: "drives L self h h' \<Longrightarrow> framed self k h h'"
  using drives_keeps by (fastforce simp: framed_def)

text \<open>The call is registered and may drive its connection, which is not detached.\<close>

definition going :: "'ss lib \<Rightarrow> conn_id \<Rightarrow> call_id \<Rightarrow> call_store \<Rightarrow> 'ss heap \<Rightarrow> 'ss heap \<Rightarrow> bool" where
  "going L self k calls0 h0 h \<longleftrightarrow> steered L {} {} self k h \<and> framed self k h0 h \<and> same_links self calls0 (hp_calls h)
     \<and> (\<exists>call. hp_calls h k = Some call \<and> connection_owned call) \<and> (\<exists>c. hp_conns h self = Some c \<and> \<not> h2_detached_from_cache c)"

lemma going_drives:
  assumes "going L self k calls0 h0 h" "drives L self h h'"
  shows "going L self k calls0 h0 h'"
proof -
  obtain c call where c: "hp_conns h self = Some c" "\<not> h2_detached_from_cache c" "hp_calls h k = Some call" "connection_owned call"
    using assms(1) by (auto simp: going_def)
  obtain c' where "hp_conns h' self = Some c'" "conn_kept c c'" using drives_keeps(5) [OF assms(2) c(1)] by blast
  moreover have "map_option call_fixed (hp_calls h' k) = Some (call_fixed call)" using drives_keeps(4) [OF assms(2), of k] c(3) by simp
  then obtain call' where "hp_calls h' k = Some call'" "call_fixed call' = call_fixed call" by (cases "hp_calls h' k") simp_all
  moreover have "framed self k h0 h'" using assms(1) framed_trans [OF _ drives_framed [OF assms(2)]] by (simp add: going_def)
  moreover have "same_links self calls0 (hp_calls h')" using assms(1) same_links_trans [OF _ drives_links [OF assms(2)]] by (simp add: going_def)
  ultimately show ?thesis using assms(1) c drives_steered [OF _ assms(2)]
    by (auto simp: going_def conn_kept_def conn_owner_def call_fixed_def)
qed

section \<open>Ending a call\<close>

text \<open>The state a finished call leaves: it is gone, and the connection is freed only if it was detached.\<close>

definition ended :: "'ss lib \<Rightarrow> conn_id \<Rightarrow> call_id \<Rightarrow> 'ss heap \<Rightarrow> 'ss heap \<Rightarrow> bool" where
  "ended L self k h h' \<longleftrightarrow> heap_inv L {} {} h' \<and> framed self k h h' \<and> hp_calls h' k = None
     \<and> (\<forall>c. hp_conns h self = Some c \<longrightarrow> \<not> h2_detached_from_cache c \<longrightarrow> hp_conns h' self \<noteq> None)
     \<and> (\<forall>c. hp_conns h self = Some c \<longrightarrow> h2_detached_from_cache c \<longrightarrow> \<not> cached h' self)"

lemma end_tail:
  assumes inv: "heap_inv L {k} {self} h" and k: "hp_calls h k = Some call" "\<not> connection_owned call" "\<And>j. \<not> listed j call"
    and c: "hp_conns h self = Some c" "cached h self \<or> h2_detached_from_cache c"
  shows "returns (\<lambda>h'. ended L self k h h' \<and> (\<forall>c'. hp_conns h' self = Some c' \<longrightarrow> c' = c))
    (and_then (free_call k h) (destroy_detached_connection_if_unowned self))"
proof -
  define h1 where "h1 = h\<lparr>hp_calls := (hp_calls h)(k := None)\<rparr>"
  have f: "free_call k h = Ok h1" using k(1) by (simp add: free_call_def h1_def)
  have i1: "heap_inv L {} (insert self {}) h1" unfolding h1_def by (rule unlinked_call_inv [OF inv k]) simp
  have c1: "hp_conns h1 self = Some c" "cached h1 self \<or> h2_detached_from_cache c" using c by (simp_all add: h1_def cached_def)
  from destroy_if_unowned_inv [OF i1 c1] obtain h2 where h2: "destroy_detached_connection_if_unowned self h1 = Ok h2"
    "heap_inv L {} {} h2" "hp_calls h2 = hp_calls h1" "hp_cache h2 = hp_cache h1" "\<forall>j. j \<noteq> self \<longrightarrow> hp_conns h2 j = hp_conns h1 j"
    "hp_conns h2 self = (if h2_detached_from_cache c \<and> h2_stream_owner_count c = 0 then None else Some c)" by auto
  have "\<not> cached h2 self" if "h2_detached_from_cache c"
    using cached_live [of h2 self] h2(2,6) that by (auto simp: heap_inv_def heap_ok_def split: if_splits)
  then have "ended L self k h h2" using h2 c(1) by (auto simp: ended_def framed_def h1_def)
  then show ?thesis using f h2(1,6) by auto
qed

lemma end_unlinked:
  assumes inv: "heap_inv L {k} {self} h" and k: "hp_calls h k = Some call" "connection call = Some self" "unlinked call"
    and c: "hp_conns h self = Some c" "cached h self \<or> h2_detached_from_cache c"
  shows "returns (\<lambda>h'. ended L self k h h' \<and> (\<forall>c'. hp_conns h' self = Some c' \<longrightarrow> c' = c)) (end_call L self k h)"
    "clear_connection_call_owner L self k h = Ok h"
proof -
  have "call\<lparr>connection_owned := False\<rparr> = call" using k(3) by (simp add: unlinked_def)
  then show clear: "clear_connection_call_owner L self k h = Ok h"
    using k c(1) by (simp add: clear_connection_call_owner_def unregister_call_def unregister_grpc_call_stream_def unlinked_def
        drop_owner_def put_call_def put_streams_def fun_upd_idem)
  have "\<not> connection_owned call" "\<And>j. \<not> listed j call" using k(3) unlinked_not_listed by (auto simp: unlinked_def)
  from end_tail [OF inv k(1) this c] clear show
    "returns (\<lambda>h'. ended L self k h h' \<and> (\<forall>c'. hp_conns h' self = Some c' \<longrightarrow> c' = c)) (end_call L self k h)"
    by (simp add: end_call_def)
qed

lemma end_owned:
  assumes inv: "heap_inv L {} {self} h" and laws: "user_data_laws L"
    and k: "hp_calls h k = Some call" "connection call = Some self" "connection_owned call"
    and c: "hp_conns h self = Some c" "cached h self \<or> h2_detached_from_cache c"
  shows "returns (ended L self k h) (end_call L self k h)"
proof -
  obtain h1 c1 call1 where h1: "clear_connection_call_owner L self k h = Ok h1" "heap_inv L {k} {self} h1"
    "hp_conns h1 = (hp_conns h)(self \<mapsto> c1\<lparr>h2_stream_owner_count := h2_stream_owner_count c - 1\<rparr>)" "conn_kept c c1"
    "hp_calls h1 k = Some (call1\<lparr>connection_owned := False\<rparr>)" "\<forall>j. \<not> listed j call1" "hp_cache h1 = hp_cache h"
    "\<forall>j. j \<noteq> k \<longrightarrow> map_option call_fixed (hp_calls h1 j) = map_option call_fixed (hp_calls h j)"
    using clear_call_owner_inv [OF inv laws k c(1)] by auto
  define c2 where "c2 = c1\<lparr>h2_stream_owner_count := h2_stream_owner_count c - 1\<rparr>"
  have det: "h2_detached_from_cache c2 = h2_detached_from_cache c" using h1(4) by (simp add: c2_def conn_kept_def conn_owner_def)
  have c2: "hp_conns h1 self = Some c2" "cached h1 self \<or> h2_detached_from_cache c2"
    using h1(3,7) det c(2) by (simp_all add: c2_def cached_def)
  have nl: "\<not> listed j (call1\<lparr>connection_owned := False\<rparr>)" for j using h1(6) by (simp add: listed_def)
  have fr: "framed self k h h1" using h1(3,7,8) by (simp add: framed_def)
  have "returns (ended L self k h1) (and_then (free_call k h1) (destroy_detached_connection_if_unowned self))"
    using end_tail [OF h1(2,5) _ nl c2] by (auto intro: returns_mono)
  then have "returns (ended L self k h) (and_then (free_call k h1) (destroy_detached_connection_if_unowned self))"
  proof (rule returns_mono)
    fix h' assume "ended L self k h1 h'"
    then show "ended L self k h h'" using framed_trans [OF fr] c(1) c2(1) det by (auto simp: ended_def)
  qed
  then show ?thesis by (simp add: end_call_def h1(1))
qed

text \<open>The two outcomes of the contract: the connection outlives a success; after a failure it is not left unusable in the cache.\<close>

definition served :: "'ss lib \<Rightarrow> conn_id \<Rightarrow> call_id \<Rightarrow> 'ss heap \<Rightarrow> 'ss heap \<Rightarrow> bool" where
  "served L self k h0 h' \<longleftrightarrow> heap_inv L {} {} h' \<and> framed self k h0 h' \<and> hp_calls h' k = None \<and> hp_conns h' self \<noteq> None"

definition abandoned :: "'ss lib \<Rightarrow> conn_id \<Rightarrow> call_id \<Rightarrow> 'ss heap \<Rightarrow> 'ss heap \<Rightarrow> bool" where
  "abandoned L self k h0 h' \<longleftrightarrow> heap_inv L {} {} h' \<and> framed self k h0 h' \<and> hp_calls h' k = None
     \<and> (\<forall>c. hp_conns h' self = Some c \<longrightarrow> cached h' self \<longrightarrow> connection_usable (Some c))"

lemma goingE:
  assumes "going L self k calls0 h0 h"
  obtains c call where "heap_inv L {} {} h" "hp_conns h self = Some c" "\<not> h2_detached_from_cache c" "hp_calls h k = Some call"
    "connection call = Some self" "connection_owned call" "cached h self" "framed self k h0 h"
proof -
  obtain c call where "steered L {} {} self k h" "framed self k h0 h" "hp_calls h k = Some call" "connection_owned call"
    "hp_conns h self = Some c" "\<not> h2_detached_from_cache c" using assms by (auto simp: going_def)
  moreover from this have "heap_inv L {} {} h" "connection call = Some self" by (auto simp: steered_def)
  moreover from calculation have "cached h self" using kept_aliveD [of "{}" h self c] by (auto simp: heap_inv_def)
  ultimately show ?thesis using that by blast
qed

lemma truncated_core [simp]: "call_core (note_truncated_message call) = call_core call"
  by (simp add: note_truncated_message_def)

lemma read_error_core [simp]: "call_core (note_read_error n c e call) = call_core call"
  by (simp add: note_read_error_def)

lemma going_steered: "going L self k calls0 h0 h \<Longrightarrow> steered L {} {} self k h"
  by (simp add: going_def)

definition first_only :: "call_id \<Rightarrow> 'ss heap \<Rightarrow> unary_result \<Rightarrow> bool" where
  "first_only k h r \<longleftrightarrow> (transparent_retryable_unprocessed (ur_outcome r) \<longrightarrow> map_option retry_attempt (hp_calls h k) = Some 0)"

lemma result_first_only:
  "hp_calls h k = Some call \<Longrightarrow> first_only k h (unary_result_of_call dec c call)"
  by (simp add: first_only_def unary_result_of_call_def grpc_lite_unary_take_response_payload_def
      grpc_lite_attempt_outcome_from_call_def Let_def split: list.splits)

lemma drives_retry: "drives L self h h' \<Longrightarrow> map_option retry_attempt (hp_calls h' k) = map_option retry_attempt (hp_calls h k)"
  using drives_keeps(4) [of L self h h' k] by (cases "hp_calls h k"; cases "hp_calls h' k") (auto simp: call_fixed_def)

lemma build_result_served:
  assumes laws: "session_laws L" and g: "going L self k calls0 h0 h"
  shows "returns (\<lambda>(r, h'). served L self k h0 h' \<and> first_only k h r) (build_unary_result L dec self k h)"
  unfolding build_unary_result_def
proof (rule returns_and_then [OF update_call_drives [OF going_steered [OF g]]], simp)
  fix h1 assume d: "drives L self h h1"
  then have g1: "going L self k calls0 h0 h1" using g going_drives by blast
  have fo: "first_only k h1 r = first_only k h r" for r using drives_retry [OF d, of k] by (simp add: first_only_def)
  obtain c call where st: "heap_inv L {} {} h1" "hp_conns h1 self = Some c" "\<not> h2_detached_from_cache c" "hp_calls h1 k = Some call"
    "connection call = Some self" "connection_owned call" "cached h1 self" "framed self k h0 h1" using g1 by (elim goingE)
  have "heap_inv L {} {self} h1" using st(1) by (rule heap_inv_mono) simp_all
  from end_owned [OF this _ st(4-6,2)] laws st(7) have e: "returns (ended L self k h1) (end_call L self k h1)" by (simp add: session_laws_def)
  then have "returns (served L self k h0) (end_call L self k h1)"
    by (rule returns_mono) (use framed_trans [OF st(8)] st(2,3) in \<open>auto simp: ended_def served_def\<close>)
  then show "returns (\<lambda>(r, h'). served L self k h0 h' \<and> first_only k h r)
      (on_call (hp_calls h1) k (\<lambda>call. on_conn h1 self (\<lambda>c. and_then (end_call L self k h1) (\<lambda>h. Ok (unary_result_of_call dec c call, h)))))"
    using st(2,4) result_first_only [OF st(4)] fo by (auto intro!: returns_and_then)
qed

lemma give_up_abandoned:
  assumes laws: "session_laws L" and g: "going L self k calls0 h0 h"
  shows "returns (abandoned L self k h0) (and_then (detach_persistent_connection_by_ptr self h) (end_call L self k))"
proof -
  obtain c call where st: "heap_inv L {} {} h" "hp_conns h self = Some c" "hp_calls h k = Some call"
    "connection call = Some self" "connection_owned call" "framed self k h0 h" using g by (elim goingE)
  obtain h1 where h1: "detach_persistent_connection_by_ptr self h = Ok h1" "heap_inv L {} {self} h1" "hp_calls h1 = hp_calls h"
    "hp_conns h1 = (hp_conns h)(self \<mapsto> c\<lparr>h2_detached_from_cache := True\<rparr>)" "set (hp_cache h1) \<subseteq> set (hp_cache h)" using detach_inv [OF st(1,2)] by auto
  have fr: "framed self k h0 h1" using st(6) h1(3-5) by (auto simp: framed_def)
  have c1: "hp_conns h1 self = Some (c\<lparr>h2_detached_from_cache := True\<rparr>)" and k1: "hp_calls h1 k = Some call" using h1(3,4) st(3) by simp_all
  have "user_data_laws L" using laws by (simp add: session_laws_def)
  from end_owned [OF h1(2) this k1 st(4,5) c1] have "returns (ended L self k h1) (end_call L self k h1)" by simp
  then have "returns (abandoned L self k h0) (end_call L self k h1)"
    by (rule returns_mono) (use framed_trans [OF fr] c1 in \<open>auto simp: ended_def abandoned_def\<close>)
  then show ?thesis using h1(1) by simp
qed

section \<open>The loop is safe\<close>

lemma read_failed_drives:
  assumes laws: "session_laws L" and st: "steered L X S self k h" and script: "send_script_ok L self cancel (hp_calls h)"
  shows "safe (\<lambda>(h', w'). drives L self h h') (unary_read_failed L self k cancel nread h w)"
proof -
  have rst: "rst_laws L" using laws by (simp add: session_laws_def)
  obtain c where c: "hp_conns h self = Some c" using st by (elim steeredE)
  show ?thesis unfolding unary_read_failed_def on_conn_Some [OF c]
  proof (rule safe_and_then [OF returns_safe [OF update_call_drives [OF st]]], simp)
    fix h1 assume d1: "drives L self h h1"
    have st1: "steered L X S self k h1" by (rule drives_steered [OF st d1])
    have sc1: "send_script_ok L self cancel (hp_calls h1)" by (rule send_script_ok_links [OF script drives_links [OF d1]])
    obtain call where call: "hp_calls h1 k = Some call" using st1 by (elim steeredE)
    obtain c1 where "hp_conns h1 self = Some c1" "driving_ok L self c1 (hp_calls h1)" using st1 by (elim steeredE)
    then have refl: "drives L self h h1" using d1 by simp
    have "safe (\<lambda>(h', w'). drives L self h h')
        (and_then (update_call k (\<lambda>call. call\<lparr>timed_out := True\<rparr>) h1) (\<lambda>h. cancel_grpc_call_stream L cancel NGHTTP2_CANCEL k h w))"
    proof (rule safe_and_then [OF returns_safe [OF update_call_drives [OF st1]]], simp)
      fix h2 assume d2: "drives L self h1 h2"
      have "steered L X S self k h2" "send_script_ok L self cancel (hp_calls h2)"
        using drives_steered [OF st1 d2] send_script_ok_links [OF sc1 drives_links [OF d2]] by simp_all
      from cancel_drives [OF laws this] show "safe (\<lambda>(h', w'). drives L self h h') (cancel_grpc_call_stream L cancel NGHTTP2_CANCEL k h2 w)"
        by (rule safe_mono) (use drives_trans [OF drives_trans [OF d1 d2]] in auto)
    qed
    moreover have "safe (\<lambda>(h', w'). drives L self h h') (and_then (connection_broke L self k e h1) (\<lambda>h. Ok (h, w)))" for e
      by (rule safe_and_then [OF returns_safe [OF broke_drives [OF st1 rst]]]) (use drives_trans [OF d1] in auto)
    ultimately show "safe (\<lambda>(h', w'). drives L self h h') (on_call (hp_calls h1) k (\<lambda>call.
         if socket_timeout nread (w_errno w) call then
           and_then (update_call k (\<lambda>call. call\<lparr>timed_out := True\<rparr>) h1) (\<lambda>h. cancel_grpc_call_stream L cancel NGHTTP2_CANCEL k h w)
         else if \<not> stream_closed call then
           and_then (connection_broke L self k (if nread = 0 then 0 else w_errno w) h1) (\<lambda>h. Ok (h, w))
         else Ok (h1, w)))" using call refl by simp
  qed
qed

definition loop_left ::
    "'ss lib \<Rightarrow> conn_id \<Rightarrow> call_id \<Rightarrow> call_store \<Rightarrow> 'ss heap \<Rightarrow> bool \<times> 'ss heap \<times> io_world \<Rightarrow> bool" where
  "loop_left L self k calls0 h0 r \<longleftrightarrow>
     (case r of (go_on, h', w') \<Rightarrow> if go_on then going L self k calls0 h0 h' else abandoned L self k h0 h')"

lemma going_script: "going L self k calls0 h0 h \<Longrightarrow> send_script_ok L self s calls0 \<Longrightarrow> send_script_ok L self s (hp_calls h)"
  unfolding going_def by (blast intro: send_script_ok_links)

lemma read_failed_left:
  assumes "session_laws L" "going L self k calls0 h0 h" "send_script_ok L self cancel calls0"
  shows "safe (loop_left L self k calls0 h0) (and_then (unary_read_failed L self k cancel nread h w) (\<lambda>(h, w). Ok (True, h, w)))"
  by (rule safe_and_then [OF read_failed_drives [OF assms(1) going_steered [OF assms(2)] going_script [OF assms(2,3)]]])
     (use going_drives [OF assms(2)] in \<open>auto simp: loop_left_def\<close>)

lemma broke_left:
  assumes "session_laws L" "going L self k calls0 h0 h"
  shows "safe (loop_left L self k calls0 h0) (and_then (connection_broke L self k e h) (\<lambda>h. Ok (True, h, w)))"
  using assms going_drives [OF assms(2)]
  by (intro safe_and_then [OF returns_safe [OF broke_drives [OF going_steered]]]) (auto simp: session_laws_def loop_left_def)

lemma unary_loop_safe:
  assumes laws: "session_laws L" and cancel: "send_script_ok L self cancel calls0"
  shows "going L self k calls0 h0 h \<Longrightarrow> \<forall>r \<in> set rounds. round_ok L self calls0 r \<Longrightarrow>
    safe (loop_left L self k calls0 h0) (unary_loop L G self k cancel rounds h w)"
proof (induction rounds arbitrary: h w)
  case Nil
  have rst: "rst_laws L" using laws by (simp add: session_laws_def)
  note g = Nil.prems(1)
  obtain call where call: "hp_calls h k = Some call" using g by (elim goingE)
  have "safe (loop_left L self k calls0 h0) (and_then (read_bytes L self k h w) (\<lambda>(nread, h, w).
      if nread \<le> 0 then and_then (unary_read_failed L self k cancel nread h w) (\<lambda>(h, w). Ok (True, h, w)) else Blocked))"
  proof (rule safe_and_then [OF read_drives [OF rst going_steered [OF g]]], clarify)
    fix nread h1 w1 assume "drives L self h h1"
    then have g1: "going L self k calls0 h0 h1" using g going_drives by blast
    show "safe (loop_left L self k calls0 h0)
        (if nread \<le> 0 then and_then (unary_read_failed L self k cancel nread h1 w1) (\<lambda>(h, w). Ok (True, h, w)) else Blocked)"
      using read_failed_left [OF laws g1 cancel] by simp
  qed
  moreover have "loop_left L self k calls0 h0 (True, h, w)" using g by (simp add: loop_left_def)
  ultimately show ?case unfolding unary_loop.simps [of L G self k cancel "[]"] list.case on_call_Some [of "hp_calls h" k call, OF call] by simp
next
  case (Cons round rounds)
  have rst: "rst_laws L" using laws by (simp add: session_laws_def)
  note g = Cons.prems(1)
  obtain call where call: "hp_calls h k = Some call" using g by (elim goingE)
  obtain revs radv rrv want_write sent where round: "round = ((revs, radv, rrv), want_write, sent)" by (metis surj_pair)
  have ok: "recv_script_ok L (revs, radv, rrv)" "send_script_ok L self sent calls0" "\<forall>r \<in> set rounds. round_ok L self calls0 r"
    using Cons.prems(2) round by (simp_all add: round_ok_def recv_script_ok_def)
  have fed: "safe (loop_left L self k calls0 h0)
      (if rv < 0 then
          and_then (kill_connection L self rv h) (\<lambda>h. and_then (detach_persistent_connection_by_ptr self h) (\<lambda>h.
          and_then (end_call L self k h) (\<lambda>h. Ok (False, h, w))))
       else if want_write then
          and_then (send_frames L self k sent h w) (\<lambda>(rv, h, w).
            if rv \<noteq> 0 then and_then (connection_broke L self k rv h) (\<lambda>h. Ok (True, h, w))
            else unary_loop L G self k cancel rounds h w)
       else unary_loop L G self k cancel rounds h w)" if g: "going L self k calls0 h0 h" for rv h w
  proof -
    have "safe (loop_left L self k calls0 h0) (and_then (kill_connection L self rv h) (\<lambda>h. and_then (detach_persistent_connection_by_ptr self h) (\<lambda>h.
          and_then (end_call L self k h) (\<lambda>h. Ok (False, h, w)))))"
    proof (rule safe_and_then [OF returns_safe [OF kill_drives [OF going_steered [OF g] rst]]])
      fix h1 assume "drives L self h h1"
      then have g1: "going L self k calls0 h0 h1" using g going_drives by blast
      have "safe (loop_left L self k calls0 h0)
          (and_then (and_then (detach_persistent_connection_by_ptr self h1) (end_call L self k)) (\<lambda>h. Ok (False, h, w)))"
        by (rule safe_and_then [OF returns_safe [OF give_up_abandoned [OF laws g1]]]) (simp add: loop_left_def)
      then show "safe (loop_left L self k calls0 h0) (and_then (detach_persistent_connection_by_ptr self h1) (\<lambda>h.
          and_then (end_call L self k h) (\<lambda>h. Ok (False, h, w))))" by (simp add: and_then_assoc)
    qed
    moreover have "safe (loop_left L self k calls0 h0) (and_then (send_frames L self k sent h w) (\<lambda>(rv, h, w).
            if rv \<noteq> 0 then and_then (connection_broke L self k rv h) (\<lambda>h. Ok (True, h, w))
            else unary_loop L G self k cancel rounds h w))"
    proof (rule safe_and_then [OF send_drives [OF laws going_steered [OF g] going_script [OF g ok(2)]]], clarify)
      fix rv1 h1 w1 assume "drives L self h h1"
      then have g1: "going L self k calls0 h0 h1" using g going_drives by blast
      show "safe (loop_left L self k calls0 h0)
          (if rv1 \<noteq> 0 then and_then (connection_broke L self k rv1 h1) (\<lambda>h. Ok (True, h, w1)) else unary_loop L G self k cancel rounds h1 w1)"
        using broke_left [OF laws g1] Cons.IH [OF g1 ok(3)] by simp
    qed
    ultimately show ?thesis using Cons.IH [OF g ok(3)] by simp
  qed
  have "safe (loop_left L self k calls0 h0) (and_then (read_bytes L self k h w) (\<lambda>(nread, h, w).
      if nread \<le> 0 then and_then (unary_read_failed L self k cancel nread h w) (\<lambda>(h, w). Ok (True, h, w))
      else and_then (feed_session L G self k (revs, radv, rrv) h) (\<lambda>(rv, h).
        if rv < 0 then
          and_then (kill_connection L self rv h) (\<lambda>h. and_then (detach_persistent_connection_by_ptr self h) (\<lambda>h.
          and_then (end_call L self k h) (\<lambda>h. Ok (False, h, w))))
        else if want_write then
          and_then (send_frames L self k sent h w) (\<lambda>(rv, h, w).
            if rv \<noteq> 0 then and_then (connection_broke L self k rv h) (\<lambda>h. Ok (True, h, w))
            else unary_loop L G self k cancel rounds h w)
        else unary_loop L G self k cancel rounds h w)))"
  proof (rule safe_and_then [OF read_drives [OF rst going_steered [OF g]]], clarify)
    fix nread h1 w1 assume "drives L self h h1"
    then have g1: "going L self k calls0 h0 h1" using g going_drives by blast
    have "safe (loop_left L self k calls0 h0) (and_then (unary_read_failed L self k cancel nread h1 w1) (\<lambda>(h, w). Ok (True, h, w)))"
      by (rule read_failed_left [OF laws g1 cancel])
    moreover have "safe (loop_left L self k calls0 h0) (and_then (feed_session L G self k (revs, radv, rrv) h1) (\<lambda>(rv, h).
        if rv < 0 then
          and_then (kill_connection L self rv h) (\<lambda>h. and_then (detach_persistent_connection_by_ptr self h) (\<lambda>h.
          and_then (end_call L self k h) (\<lambda>h. Ok (False, h, w1))))
        else if want_write then
          and_then (send_frames L self k sent h w1) (\<lambda>(rv, h, w).
            if rv \<noteq> 0 then and_then (connection_broke L self k rv h) (\<lambda>h. Ok (True, h, w))
            else unary_loop L G self k cancel rounds h w)
        else unary_loop L G self k cancel rounds h w1))"
      by (rule safe_and_then [OF feed_drives [OF laws going_steered [OF g1] ok(1)]]) (use fed going_drives [OF g1] in \<open>clarify, blast\<close>)
    ultimately show "safe (loop_left L self k calls0 h0) (if nread \<le> 0 then and_then (unary_read_failed L self k cancel nread h1 w1) (\<lambda>(h, w). Ok (True, h, w))
      else and_then (feed_session L G self k (revs, radv, rrv) h1) (\<lambda>(rv, h).
        if rv < 0 then
          and_then (kill_connection L self rv h) (\<lambda>h. and_then (detach_persistent_connection_by_ptr self h) (\<lambda>h.
          and_then (end_call L self k h) (\<lambda>h. Ok (False, h, w1))))
        else if want_write then
          and_then (send_frames L self k sent h w1) (\<lambda>(rv, h, w).
            if rv \<noteq> 0 then and_then (connection_broke L self k rv h) (\<lambda>h. Ok (True, h, w))
            else unary_loop L G self k cancel rounds h w)
        else unary_loop L G self k cancel rounds h w1))" by simp
  qed
  moreover have "loop_left L self k calls0 h0 (True, h, w)" using g by (simp add: loop_left_def)
  ultimately show ?case
    unfolding round unary_loop.simps [of L G self k cancel "((revs, radv, rrv), want_write, sent) # rounds"] list.case prod.case on_call_Some [of "hp_calls h" k call, OF call] by simp
qed

section \<open>Submission is safe\<close>

text \<open>The call is set up but not yet registered.\<close>

definition pending :: "'ss lib \<Rightarrow> conn_id \<Rightarrow> call_id \<Rightarrow> 'ss heap \<Rightarrow> 'ss heap \<Rightarrow> bool" where
  "pending L self k h0 h \<longleftrightarrow> steered L {k} {} self k h \<and> framed self k h0 h
     \<and> (\<exists>call. hp_calls h k = Some call \<and> connection call = Some self \<and> unlinked call)
     \<and> (\<exists>c. hp_conns h self = Some c \<and> \<not> h2_detached_from_cache c)"

lemma pendingE:
  assumes "pending L self k h0 h"
  obtains c call where "heap_inv L {k} {} h" "hp_conns h self = Some c" "\<not> h2_detached_from_cache c" "hp_calls h k = Some call"
    "connection call = Some self" "unlinked call" "cached h self" "framed self k h0 h" "steered L {k} {} self k h"
proof -
  obtain c call where "steered L {k} {} self k h" "framed self k h0 h" "hp_calls h k = Some call" "connection call = Some self" "unlinked call"
    "hp_conns h self = Some c" "\<not> h2_detached_from_cache c" using assms by (auto simp: pending_def)
  moreover from this have "heap_inv L {k} {} h" by (auto simp: steered_def)
  moreover from calculation have "cached h self" using kept_aliveD [of "{}" h self c] by (auto simp: heap_inv_def)
  ultimately show ?thesis using that by blast
qed

lemma pending_drop:
  assumes p: "pending L self k h0 h"
  shows "returns (abandoned L self k h0) (and_then (detach_persistent_connection_by_ptr self h) (end_call L self k))"
proof -
  obtain c call where st: "heap_inv L {k} {} h" "hp_conns h self = Some c" "hp_calls h k = Some call"
    "connection call = Some self" "unlinked call" "framed self k h0 h" using p by (elim pendingE)
  obtain h1 where h1: "detach_persistent_connection_by_ptr self h = Ok h1" "heap_inv L {k} {self} h1" "hp_calls h1 = hp_calls h"
    "hp_conns h1 = (hp_conns h)(self \<mapsto> c\<lparr>h2_detached_from_cache := True\<rparr>)" "set (hp_cache h1) \<subseteq> set (hp_cache h)" using detach_inv [OF st(1,2)] by auto
  have fr: "framed self k h0 h1" using st(6) h1(3-5) by (auto simp: framed_def)
  have c1: "hp_conns h1 self = Some (c\<lparr>h2_detached_from_cache := True\<rparr>)" and k1: "hp_calls h1 k = Some call" using h1(3,4) st(3) by simp_all
  have "returns (abandoned L self k h0) (end_call L self k h1)"
    by (rule returns_mono [OF end_unlinked(1) [OF h1(2) k1 st(4,5) c1]])
       (use framed_trans [OF fr] c1 in \<open>auto simp: ended_def abandoned_def\<close>)
  then show ?thesis using h1(1) by simp
qed

lemma pending_end:
  assumes p: "pending L self k h0 h"
  shows "returns (\<lambda>h'. served L self k h0 h' \<and> hp_conns h' self = hp_conns h self) (end_call L self k h)"
    "clear_connection_call_owner L self k h = Ok h"
proof -
  obtain c call where st: "heap_inv L {k} {} h" "hp_conns h self = Some c" "\<not> h2_detached_from_cache c" "hp_calls h k = Some call"
    "connection call = Some self" "unlinked call" "cached h self" "framed self k h0 h" using p by (elim pendingE)
  have i: "heap_inv L {k} {self} h" using st(1) by (rule heap_inv_mono) simp_all
  have cd: "cached h self \<or> h2_detached_from_cache c" using st(7) by simp
  note e = end_unlinked [OF i st(4-6,2) cd]
  show "clear_connection_call_owner L self k h = Ok h" by (rule e(2))
  show "returns (\<lambda>h'. served L self k h0 h' \<and> hp_conns h' self = hp_conns h self) (end_call L self k h)"
  proof (rule returns_mono [OF e(1)], elim conjE)
    fix h' assume h': "ended L self k h h'" "\<forall>c'. hp_conns h' self = Some c' \<longrightarrow> c' = c"
    then have "hp_conns h' self \<noteq> None" using st(2,3) by (simp add: ended_def)
    then have "hp_conns h' self = Some c" using h'(2) by (cases "hp_conns h' self") simp_all
    then show "served L self k h0 h' \<and> hp_conns h' self = hp_conns h self"
      using h'(1) framed_trans [OF st(8)] st(2) by (auto simp: ended_def served_def)
  qed
qed

text \<open>Submitting leaves the call pending under its stream id; registering makes it a driver or kills the connection.\<close>

lemma submit_pending:
  assumes laws: "session_laws L" "submit_laws L" and p: "pending L self k h0 h" and us: "connection_usable (hp_conns h self)"
  shows "returns (\<lambda>(sid, h'). pending L self k h0 h' \<and> connection_usable (hp_conns h' self) \<and> same_links self (hp_calls h) (hp_calls h')
      \<and> (\<exists>call. hp_calls h' k = Some call \<and> stream_id call = sid))
    (submit_request L self k nva h)"
proof -
  obtain c call where st: "heap_inv L {k} {} h" "hp_conns h self = Some c" "\<not> h2_detached_from_cache c" "hp_calls h k = Some call"
    "connection call = Some self" "unlinked call" "framed self k h0 h" "steered L {k} {} self k h" using p by (elim pendingE)
  have rst: "rst_laws L" using laws by (simp add: session_laws_def)
  show ?thesis
  proof (rule returns_mono [OF submit_steered [OF rst laws(2) st(8,4,6), of nva]], clarify)
    fix sid h1 assume a: "steered L {k} {} self k h1" "hp_calls h1 = (hp_calls h)(k \<mapsto> call\<lparr>stream_id := sid\<rparr>)" "hp_cache h1 = hp_cache h"
      "\<forall>j. j \<noteq> self \<longrightarrow> hp_conns h1 j = hp_conns h j" "\<forall>c. hp_conns h self = Some c \<longrightarrow> (\<exists>c'. hp_conns h1 self = Some c' \<and> conn_kept c c'
        \<and> h2_dead c' = h2_dead c \<and> h2_draining c' = h2_draining c)"
    obtain c1 where c1: "hp_conns h1 self = Some c1" "conn_kept c c1" "h2_dead c1 = h2_dead c" "h2_draining c1 = h2_draining c"
      using a(5) st(2) by blast
    have us1: "connection_usable (Some c1)" "\<not> h2_detached_from_cache c1"
      using us c1 st(2,3) by (auto simp: connection_usable_def conn_kept_def conn_owner_def)
    have fr1: "framed self k h0 h1" using st(7) a(2-4) by (auto simp: framed_def)
    have u1: "hp_calls h1 k = Some (call\<lparr>stream_id := sid\<rparr>)" "connection (call\<lparr>stream_id := sid\<rparr>) = Some self" "unlinked (call\<lparr>stream_id := sid\<rparr>)"
      using a(2) st(5,6) by (simp_all add: unlinked_def)
    have "pending L self k h0 h1" using a(1) fr1 u1 c1(1) us1(2) by (auto simp: pending_def)
    moreover have "same_links self (hp_calls h) (hp_calls h1)" using a(2) st(4,5) by (auto simp: same_links_def)
    ultimately show "pending L self k h0 h1 \<and> connection_usable (hp_conns h1 self) \<and> same_links self (hp_calls h) (hp_calls h1)
      \<and> (\<exists>call. hp_calls h1 k = Some call \<and> stream_id call = sid)" using c1(1) us1(1) u1(1) by simp
  qed
qed

lemma kill_pending:
  assumes "session_laws L" "pending L self k h0 h"
  shows "returns (\<lambda>h'. pending L self k h0 h' \<and> \<not> connection_io_allowed (hp_conns h' self) \<and> hp_calls h' = hp_calls h) (kill_connection L self code h)"
proof -
  obtain c call where st: "hp_conns h self = Some c" "\<not> h2_detached_from_cache c" "hp_calls h k = Some call" "connection call = Some self"
    "unlinked call" "framed self k h0 h" "steered L {k} {} self k h" using assms(2) by (elim pendingE)
  define h' where "h' = put_conn self (mark_connection_dead L code c) h"
  have kill: "kill_connection L self code h = Ok h'" using st(1) by (simp add: kill_connection_def h'_def)
  have d: "drives L self h h'" using kill_drives [OF st(7), of code] assms(1) kill by (simp add: session_laws_def)
  have "pending L self k h0 h'"
    using drives_steered [OF st(7) d] framed_trans [OF st(6) drives_framed [OF d]] st by (simp add: pending_def h'_def)
  then show ?thesis using kill by (simp add: h'_def connection_io_allowed_def)
qed

lemma register_pending:
  assumes laws: "session_laws L" and p: "pending L self k h0 h" and links: "same_links self calls0 (hp_calls h)"
  shows "returns (\<lambda>(ok, h'). if ok then going L self k calls0 h0 h' else pending L self k h0 h' \<and> \<not> connection_io_allowed (hp_conns h' self))
    (register_call L self k h)"
proof -
  obtain c call where st: "hp_conns h self = Some c" "\<not> h2_detached_from_cache c" "hp_calls h k = Some call" "connection call = Some self"
    "unlinked call" "framed self k h0 h" "steered L {k} {} self k h" using p by (elim pendingE)
  show ?thesis
  proof (rule returns_mono [OF register_steered [OF laws st(7,3,5,1)]], clarify)
    fix ok h2 c2 assume b: "hp_cache h2 = hp_cache h" "\<forall>j. j \<noteq> self \<longrightarrow> hp_conns h2 j = hp_conns h j"
      "\<forall>j. j \<noteq> k \<longrightarrow> hp_calls h2 j = hp_calls h j" "hp_conns h2 self = Some c2" "h2_detached_from_cache c2 = h2_detached_from_cache c" "ok \<or> h2_dead c2"
      "if ok then steered L {} {} self k h2 \<and> (\<exists>call'. hp_calls h2 k = Some call' \<and> connection_owned call' \<and> retry_attempt call' = retry_attempt call)
       else steered L {k} {} self k h2 \<and> hp_calls h2 = hp_calls h"
    have fr2: "framed self k h0 h2" using st(6) b(1-3) by (simp add: framed_def)
    show "if ok then going L self k calls0 h0 h2 else pending L self k h0 h2 \<and> \<not> connection_io_allowed (hp_conns h2 self)"
    proof (cases ok)
      case True
      then have st2: "steered L {} {} self k h2" using b(7) by simp
      then obtain call2 where "hp_calls h2 k = Some call2" "connection call2 = Some self" by (elim steeredE)
      then have "\<exists>call'. hp_calls h2 k = Some call' \<and> connection call' = Some self \<and> retry_attempt call' = retry_attempt call" using b(7) True by auto
      then have "same_links self (hp_calls h) (hp_calls h2)" using b(3) st(3) unfolding same_links_def by (metis option.inject)
      then show ?thesis using st2 fr2 b True st(2) same_links_trans [OF links] by (auto simp: going_def)
    next
      case False
      then show ?thesis using b fr2 st by (simp add: pending_def connection_io_allowed_def)
    qed
  qed
qed

lemma unary_submit_safe:
  assumes laws: "session_laws L" "submit_laws L" and p: "pending L self k h0 h" and us: "connection_usable (hp_conns h self)"
  shows "returns (\<lambda>(err, h'). case err of None \<Rightarrow> going L self k (hp_calls h) h0 h' | Some e \<Rightarrow> abandoned L self k h0 h')
    (unary_submit L self k nva h)"
  unfolding unary_submit_def
proof (rule returns_and_then [OF submit_pending [OF laws p us]], clarify)
  fix h1 call assume p1: "pending L self k h0 h1" and us1: "connection_usable (hp_conns h1 self)" and l: "same_links self (hp_calls h) (hp_calls h1)"
  let ?post = "\<lambda>(err :: string option, h'). case err of None \<Rightarrow> going L self k (hp_calls h) h0 h' | Some e \<Rightarrow> abandoned L self k h0 h'"
  have drop: "returns ?post (and_then (detach_persistent_connection_by_ptr self h2) (\<lambda>h. and_then (end_call L self k h) (\<lambda>h. Ok (Some m, h))))"
    if "pending L self k h0 h2" for m h2
    using returns_and_then [OF pending_drop [OF that], of ?post "\<lambda>h. Ok (Some m, h)"] by (simp add: and_then_assoc)
  have fatal: "returns ?post (and_then (and_then (kill_connection L self sid h1) (detach_persistent_connection_by_ptr self))
      (\<lambda>h. and_then (end_call L self k h) (\<lambda>h. Ok (Some m, h))))" for m sid
    unfolding and_then_assoc by (rule returns_and_then [OF kill_pending [OF laws(1) p1]]) (use drop in blast)
  have plain: "returns ?post (and_then (end_call L self k h1) (\<lambda>h. Ok (Some m, h)))" for m
    by (rule returns_and_then [OF pending_end(1) [OF p1]]) (use us1 in \<open>auto simp: served_def abandoned_def\<close>)
  have reg: "returns ?post (and_then (register_call L self k h1) (\<lambda>(ok, h).
      if \<not> ok then and_then (detach_persistent_connection_by_ptr self h) (\<lambda>h. and_then (end_call L self k h) (\<lambda>h. Ok (Some m, h)))
      else Ok (None, h)))" for m
    by (rule returns_and_then [OF register_pending [OF laws(1) p1 l]]) (use drop in auto)
  show "returns ?post (if stream_id call < 0 then
       and_then (if nghttp2_is_fatal L (stream_id call)
                 then and_then (kill_connection L self (stream_id call) h1) (detach_persistent_connection_by_ptr self) else Ok h1) (\<lambda>h.
       and_then (end_call L self k h) (\<lambda>h. Ok (Some ''nghttp2_submit_request failed'', h)))
     else and_then (register_call L self k h1) (\<lambda>(ok, h).
         if \<not> ok then
           and_then (detach_persistent_connection_by_ptr self h) (\<lambda>h.
           and_then (end_call L self k h) (\<lambda>h. Ok (Some ''failed to register HTTP/2 stream'', h)))
         else Ok (None, h)))"
    using fatal plain reg by (cases "nghttp2_is_fatal L (stream_id call)") simp_all
qed

section \<open>The whole call\<close>

lemma pending_update:
  assumes "pending L self k h0 h" "\<And>call. call_core (f call) = call_core call"
  shows "returns (\<lambda>h'. pending L self k h0 h' \<and> map_option retry_attempt (hp_calls h' k) = map_option retry_attempt (hp_calls h k)) (update_call k f h)"
proof -
  obtain c call where st: "hp_conns h self = Some c" "\<not> h2_detached_from_cache c" "hp_calls h k = Some call" "connection call = Some self"
    "unlinked call" "framed self k h0 h" "steered L {k} {} self k h" using assms(1) by (elim pendingE)
  have u: "update_call k f h = Ok (put_call k (f call) h)" using st(3) by (simp add: update_call_def)
  then have d: "drives L self h (put_call k (f call) h)" using update_call_drives [OF st(7) assms(2)] by simp
  have "unlinked (f call)" "connection (f call) = Some self"
    using assms(2) [of call] st(4,5) by (auto simp: unlinked_def call_core_def call_fixed_def)
  then show ?thesis using u drives_steered [OF st(7) d] framed_trans [OF st(6) drives_framed [OF d]] drives_retry [OF d, of k] st(1,2) by (simp add: pending_def)
qed

lemma pending_result:
  assumes "pending L self k h0 h"
  shows "returns (\<lambda>(r, h'). served L self k h0 h' \<and> first_only k h r) (build_unary_result L dec self k h)"
  unfolding build_unary_result_def
proof (rule returns_and_then [OF pending_update [OF assms]], simp)
  fix h1 assume "pending L self k h0 h1 \<and> map_option retry_attempt (hp_calls h1 k) = map_option retry_attempt (hp_calls h k)"
  then have p: "pending L self k h0 h1" and fo: "first_only k h1 r = first_only k h r" for r by (simp_all add: first_only_def)
  obtain c call where c: "hp_conns h1 self = Some c" "hp_calls h1 k = Some call" using p by (elim pendingE)
  show "returns (\<lambda>(r, h'). served L self k h0 h' \<and> first_only k h r)
      (on_call (hp_calls h1) k (\<lambda>call. on_conn h1 self (\<lambda>c. and_then (end_call L self k h1) (\<lambda>h. Ok (unary_result_of_call dec c call, h)))))"
    using pending_end(1) [OF p] c result_first_only [OF c(2)] fo by (auto intro!: returns_and_then)
qed

definition call_script_ok :: "'ss lib \<Rightarrow> conn_id \<Rightarrow> call_store \<Rightarrow> 'ss call_script \<Rightarrow> bool" where
  "call_script_ok L self calls script \<longleftrightarrow> send_script_ok L self (cs_initial script) calls
     \<and> send_script_ok L self (cs_cancel script) calls \<and> (\<forall>r \<in> set (cs_rounds script). round_ok L self calls r)"

definition performed ::
    "'ss lib \<Rightarrow> conn_id \<Rightarrow> call_id \<Rightarrow> nat \<Rightarrow> 'ss heap \<Rightarrow> (string + unary_result) \<times> 'ss heap \<times> io_world \<Rightarrow> bool" where
  "performed L self k n h0 r \<longleftrightarrow>
     (case r of (res, h', w') \<Rightarrow> case res of
        Inr u \<Rightarrow> served L self k h0 h' \<and> (transparent_retryable_unprocessed (ur_outcome u) \<longrightarrow> n = 0)
      | Inl e \<Rightarrow> abandoned L self k h0 h')"

lemma new_call_retry [simp]: "retry_attempt (new_call self m R) = rq_retry_attempt R"
  by (simp add: new_call_def grpc_protocol_set_message_header_def)

lemma exchange_safe:
  assumes laws: "session_laws L" and g: "going L self k calls0 h0 h" and s: "call_script_ok L self calls0 script"
    and k: "calls0 k = Some call0" "connection call0 = Some self" "retry_attempt call0 = n"
  shows "safe (performed L self k n h0) (unary_exchange L G dec self k script h w)"
  unfolding unary_exchange_def
proof (rule safe_and_then [OF send_drives [OF laws going_steered [OF g]]])
  show "send_script_ok L self (cs_initial script) (hp_calls h)" using going_script [OF g] s by (simp add: call_script_ok_def)
  fix x :: "int \<times> 'a heap \<times> io_world"
  assume x: "case x of (rv, h', w') \<Rightarrow> drives L self h h' \<and> ((rv = 0) = connection_io_allowed (hp_conns h' self))"
  obtain rv h1 w1 where x': "x = (rv, h1, w1)" by (metis surj_pair)
  have g1: "going L self k calls0 h0 h1" using going_drives [OF g] x x' by simp
  have "safe (loop_left L self k calls0 h0) (unary_loop L G self k (cs_cancel script) (cs_rounds script) h1 w1)"
    by (rule unary_loop_safe [OF laws _ g1]) (use s in \<open>simp_all add: call_script_ok_def\<close>)
  then have l: "safe (loop_left L self k calls0 h0) (if rv \<noteq> 0 then and_then (connection_broke L self k rv h1) (\<lambda>h. Ok (True, h, w1))
      else unary_loop L G self k (cs_cancel script) (cs_rounds script) h1 w1)" using broke_left [OF laws g1] by simp
  have "safe (performed L self k n h0) (and_then (build_unary_result L dec self k h2) (\<lambda>(r, h). Ok (Inr r, h, w2)))"
    if g2: "going L self k calls0 h0 h2" for h2 w2
  proof -
    have "map_option retry_attempt (hp_calls h2 k) = Some n" using g2 k by (auto simp: going_def same_links_def)
    then show ?thesis
      by (intro safe_and_then [OF returns_safe [OF build_result_served [OF laws g2]]]) (auto simp: performed_def first_only_def)
  qed
  then show "safe (performed L self k n h0) (case x of (rv, h, w) \<Rightarrow>
     and_then (if rv \<noteq> 0 then and_then (connection_broke L self k rv h) (\<lambda>h. Ok (True, h, w))
               else unary_loop L G self k (cs_cancel script) (cs_rounds script) h w) (\<lambda>(go_on, h, w).
       if \<not> go_on then Ok (Inl ''nghttp2_session_mem_recv failed'', h, w)
       else and_then (build_unary_result L dec self k h) (\<lambda>(r, h). Ok (Inr r, h, w))))"
    unfolding x' prod.case by (intro safe_and_then [OF l]) (auto simp: loop_left_def performed_def)
qed

lemma unary_core_safe:
  assumes laws: "session_laws L" "submit_laws L" and inv: "heap_inv L {} {} h" and k: "hp_calls h k = None"
    and c: "hp_conns h self = Some c" "connection_usable (Some c)" "\<not> h2_detached_from_cache c"
    and s: "call_script_ok L self ((hp_calls h)(k \<mapsto> new_call self 1 R)) script"
  shows "safe (performed L self k (rq_retry_attempt R) h) (grpc_lite_unary_call_perform_core_on_connection L G enc dec self k R script h w)"
proof -
  define h1 where "h1 = put_call k (new_call self 1 R) h"
  have p: "pending L self k h h1"
    using new_call_steered [OF inv c(1,2) k, of "new_call self 1 R"] new_call_wf [of self 1 R] c(1,3)
    by (simp add: pending_def h1_def framed_def)
  have us: "connection_usable (hp_conns h1 self)" using c by (simp add: h1_def)
  have cal: "hp_calls h1 = (hp_calls h)(k \<mapsto> new_call self 1 R)" by (simp add: h1_def)
  have ab: "abandoned L self k h h" using inv k c by (simp add: abandoned_def framed_def)
  have timed: "call_core (call\<lparr>timed_out := True\<rparr>) = call_core call" for call by simp
  have res: "safe (performed L self k (rq_retry_attempt R) h) (and_then (build_unary_result L dec self k h2) (\<lambda>(r, h). Ok (Inr r, h, w2)))"
    if "pending L self k h h2 \<and> map_option retry_attempt (hp_calls h2 k) = map_option retry_attempt (hp_calls h1 k)" for h2 w2
  proof -
    have "map_option retry_attempt (hp_calls h2 k) = Some (rq_retry_attempt R)" using that new_call_retry by (simp add: h1_def)
    then show ?thesis
      by (intro safe_and_then [OF returns_safe [OF pending_result [OF that [THEN conjunct1]]]]) (auto simp: performed_def first_only_def)
  qed
  have t1: "safe (performed L self k (rq_retry_attempt R) h) (and_then (update_call k (\<lambda>call. call\<lparr>timed_out := True\<rparr>) h1) (\<lambda>h.
      and_then (build_unary_result L dec self k h) (\<lambda>(r, h). Ok (Inr r, h, w2))))" for w2
    by (rule safe_and_then [OF returns_safe [OF pending_update [OF p timed]]]) (rule res)
  have t2: "safe (performed L self k (rq_retry_attempt R) h) (and_then (update_call k (\<lambda>call. call\<lparr>timed_out := True\<rparr>) h1) (\<lambda>h.
      and_then (clear_connection_call_owner L self k h) (\<lambda>h.
      and_then (build_unary_result L dec self k h) (\<lambda>(r, h). Ok (Inr r, h, w2)))))" for w2
  proof (rule safe_and_then [OF returns_safe [OF pending_update [OF p timed]]])
    fix h2 assume p2: "pending L self k h h2 \<and> map_option retry_attempt (hp_calls h2 k) = map_option retry_attempt (hp_calls h1 k)"
    show "safe (performed L self k (rq_retry_attempt R) h) (and_then (clear_connection_call_owner L self k h2) (\<lambda>h.
        and_then (build_unary_result L dec self k h) (\<lambda>(r, h). Ok (Inr r, h, w2))))"
      using pending_end(2) [OF p2 [THEN conjunct1]] res [OF p2] by simp
  qed
  have refused: "safe (performed L self k (rq_retry_attempt R) h) (and_then (clear_connection_call_owner L self k h1) (\<lambda>h.
      and_then (free_call k h) (\<lambda>h. Ok (Inl e, h, w2))))" for e w2
  proof -
    have "(hp_calls h)(k := None) = hp_calls h" using k by (simp add: fun_upd_idem)
    then have "free_call k h1 = Ok h" by (simp add: free_call_def h1_def put_call_def)
    then show ?thesis using pending_end(2) [OF p] ab by (simp add: performed_def)
  qed
  have sub: "safe (performed L self k (rq_retry_attempt R) h) (and_then (unary_submit L self k nva h1) (\<lambda>(err, h).
      case err of Some e \<Rightarrow> Ok (Inl e, h, w2) | None \<Rightarrow> unary_exchange L G dec self k script h w2))" for nva w2
  proof (rule safe_and_then [OF returns_safe [OF unary_submit_safe [OF laws p us]]], clarify)
    fix err :: "string option" and h2 assume e: "case err of None \<Rightarrow> going L self k (hp_calls h1) h h2 | Some e \<Rightarrow> abandoned L self k h h2"
    show "safe (performed L self k (rq_retry_attempt R) h) (case err of None \<Rightarrow> unary_exchange L G dec self k script h2 w2 | Some e \<Rightarrow> Ok (Inl e, h2, w2))"
      using e exchange_safe [OF laws(1), of self k "hp_calls h1" h h2 script "new_call self 1 R" "rq_retry_attempt R" G dec w2] s cal new_call_wf(4) new_call_retry
      by (cases err) (auto simp: performed_def)
  qed
  have prep: "safe (performed L self k (rq_retry_attempt R) h) (and_then (prepare_request enc R c w2) (\<lambda>(p, w).
      case p of
        PrepareTimedOut \<Rightarrow> and_then (update_call k (\<lambda>call. call\<lparr>timed_out := True\<rparr>) h1) (\<lambda>h.
          and_then (clear_connection_call_owner L self k h) (\<lambda>h.
          and_then (build_unary_result L dec self k h) (\<lambda>(r, h). Ok (Inr r, h, w))))
      | PrepareRefused e \<Rightarrow> and_then (clear_connection_call_owner L self k h1) (\<lambda>h. and_then (free_call k h) (\<lambda>h. Ok (Inl e, h, w)))
      | Prepared nva \<Rightarrow> and_then (unary_submit L self k nva h1) (\<lambda>(err, h).
          case err of Some e \<Rightarrow> Ok (Inl e, h, w) | None \<Rightarrow> unary_exchange L G dec self k script h w)))" for w2
  proof (rule safe_and_then [OF prepare_safe], clarify)
    fix pr w3
    show "safe (performed L self k (rq_retry_attempt R) h) (case pr of
        Prepared nva \<Rightarrow> and_then (unary_submit L self k nva h1) (\<lambda>(err, h).
          case err of None \<Rightarrow> unary_exchange L G dec self k script h w3 | Some e \<Rightarrow> Ok (Inl e, h, w3))
      | PrepareRefused e \<Rightarrow> and_then (clear_connection_call_owner L self k h1) (\<lambda>h. and_then (free_call k h) (\<lambda>h. Ok (Inl e, h, w3)))
      | PrepareTimedOut \<Rightarrow> and_then (update_call k (\<lambda>call. call\<lparr>timed_out := True\<rparr>) h1) (\<lambda>h.
          and_then (clear_connection_call_owner L self k h) (\<lambda>h.
          and_then (build_unary_result L dec self k h) (\<lambda>(r, h). Ok (Inr r, h, w3)))))"
      using sub refused t2 by (cases pr) simp_all
  qed
  show ?thesis
  proof (cases "remaining_timeout_us_for_deadline (rq_deadline_abs_us R) w")
    case None
    then show ?thesis using c ab by (simp add: grpc_lite_unary_call_perform_core_on_connection_def performed_def)
  next
    case (Some x)
    obtain t w1 where x: "x = (t, w1)" by fastforce
    have cond: "safe (performed L self k (rq_retry_attempt R) h) (if (UINT32_MAX :: int) < int (length (rq_request R))
        then Ok (Inl ''gRPC request message exceeds 32-bit frame length'', h, w) else y)"
      if "safe (performed L self k (rq_retry_attempt R) h) y" for y using that ab by (simp add: performed_def)
    show ?thesis
      unfolding grpc_lite_unary_call_perform_core_on_connection_def on_conn_Some [OF c(1)] Let_def h1_def [symmetric] Some x
        option.case prod.case
      using c(2) cond [of "if t < 0 then _ else _"] t1 prep by simp
  qed
qed

section \<open>Properties\<close>


definition table_request :: call_request where
  "table_request = \<lparr>rq_path = ''/s/m'', rq_request = [1, 2, 3], rq_headers = None, rq_user_agent = None, rq_deadline_abs_us = 1,
     rq_max_receive_message_length = 100, rq_max_response_metadata_bytes = 100, rq_retry_attempt = 0\<rparr>"

definition table_script :: "(int \<Rightarrow> call_id option) call_script" where
  "table_script = \<lparr>cs_initial = ([SendData 5 [0, 0, 0, 0, 0, 0, 0, 0, 0] 8 0], id, 0),
     cs_rounds = [(([RecvClosed 1 0], id, 9), False, ([], id, 0))], cs_cancel = ([], id, 0)\<rparr>"

lemma table_submit_laws: "submit_laws table_lib"
  by (simp add: submit_laws_def table_lib_def)

lemma table_call_script: "call_script_ok table_lib 7 ((hp_calls table_heap)(5 \<mapsto> new_call 7 1 table_request)) table_script"
  using table_laws(2) new_call_wf(4)
  by (auto simp: call_script_ok_def table_script_def send_script_ok_def round_ok_def sources_ok_def)


end
