(* ===== verification/Server_Streaming_Call.thy ===== *)
theory Server_Streaming_Call
  imports Unary_Call
begin

text \<open>
  Server-streaming calls (\<open>src/src/server_streaming_call.c\<close>, \<open>src/src/transport.c\<close> 381 to 411): opening, pulling the
  next message, cancelling and destroying the state that PHP keeps as a resource.  The call embedded in the
  state lives on the heap; \<open>st_call\<close> is its address.
\<close>

section \<open>State and results\<close>

record server_streaming_call_state =
  st_call :: call_id
  st_delivered_messages :: nat
  st_completed :: bool
  st_cancelled :: bool

text \<open>The flag \<open>done\<close> of the C structure is the constructor; each has the fields that are set with it.\<close>

datatype streaming_next_result =
    NextMessage "byte list" metadata_map
  | NextDone grpc_lite_status_result metadata_map metadata_map grpc_lite_attempt_outcome

datatype open_result =
    Opened server_streaming_call_state
  | SetupFailed grpc_lite_status_result
  | OpenThrew string

definition setup_failed :: "bool \<Rightarrow> int \<Rightarrow> string \<Rightarrow> open_result" where
  "setup_failed has_setup_failure code message =
     (if has_setup_failure then SetupFailed \<lparr>sr_code = code, sr_details = message\<rparr> else OpenThrew message)"

section \<open>Cancelling and destroying\<close>

definition cancel_active_server_streaming_call_state ::
    "'ss lib \<Rightarrow> 'ss send_script \<Rightarrow> nat \<Rightarrow> server_streaming_call_state \<Rightarrow> 'ss heap \<Rightarrow> io_world \<Rightarrow> ('ss heap \<times> io_world) res" where
  "cancel_active_server_streaming_call_state L script error_code st h w =
     on_call (hp_calls h) (st_call st) (\<lambda>call.
       if st_completed st \<or> connection call = None then Ok (h, w)
       else cancel_grpc_call_stream L script error_code (st_call st) h w)"

text \<open>\<open>connection_io_allowed\<close> and \<open>connection_usable\<close> of the connection a call names.\<close>

definition call_connection :: "grpc_call \<Rightarrow> 'ss heap \<Rightarrow> 'ss h2_connection option res" where
  "call_connection call h =
     (case connection call of None \<Rightarrow> Ok None | Some self \<Rightarrow> on_conn h self (\<lambda>c. Ok (Some c)))"

definition detach_call_if_unusable :: "call_id \<Rightarrow> 'ss heap \<Rightarrow> 'ss heap res" where
  "detach_call_if_unusable k h =
     on_call (hp_calls h) k (\<lambda>call. case connection call of None \<Rightarrow> Ok h | Some self \<Rightarrow> detach_if_unusable self h)"

definition destroy_server_streaming_call_state ::
    "'ss lib \<Rightarrow> 'ss send_script \<Rightarrow> server_streaming_call_state \<Rightarrow> 'ss heap \<Rightarrow> io_world \<Rightarrow> ('ss heap \<times> io_world) res" where
  "destroy_server_streaming_call_state L script st h w =
     on_call (hp_calls h) (st_call st) (\<lambda>call.
       and_then (call_connection call h) (\<lambda>co.
       and_then
         (if \<not> st_completed st \<and> \<not> stream_closed call \<and> co \<noteq> None \<and> connection_io_allowed co \<and> 0 < stream_id call
          then and_then (cancel_active_server_streaming_call_state L script NGHTTP2_CANCEL st h w) (\<lambda>(h, w).
                 and_then (detach_call_if_unusable (st_call st) h) (\<lambda>h. Ok (h, w)))
          else Ok (h, w)) (\<lambda>(h, w).
       and_then (clear_connection_server_streaming_call_state_owner L (st_call st) h) (\<lambda>h.
       and_then (free_call (st_call st) h) (\<lambda>h. Ok (h, w))))))"

definition server_streaming_call_terminate_with_cancel ::
    "'ss lib \<Rightarrow> 'ss send_script \<Rightarrow> server_streaming_call_state \<Rightarrow> 'ss heap \<Rightarrow> io_world
      \<Rightarrow> (server_streaming_call_state \<times> 'ss heap \<times> io_world) res" where
  "server_streaming_call_terminate_with_cancel L script st h w =
     and_then (update_call (st_call st) free_queued_response_payloads h) (\<lambda>h.
     on_call (hp_calls h) (st_call st) (\<lambda>call.
     and_then
       (if connection call \<noteq> None
        then and_then (cancel_grpc_call_stream L script NGHTTP2_CANCEL (st_call st) h w) (\<lambda>(h, w).
               and_then (detach_call_if_unusable (st_call st) h) (\<lambda>h. Ok (h, w)))
        else Ok (h, w)) (\<lambda>(h, w).
     Ok (st\<lparr>st_completed := True\<rparr>, h, w))))"

definition server_streaming_call_cancel_resource ::
    "'ss lib \<Rightarrow> 'ss send_script \<Rightarrow> server_streaming_call_state \<Rightarrow> 'ss heap \<Rightarrow> io_world
      \<Rightarrow> (server_streaming_call_state \<times> 'ss heap \<times> io_world) res" where
  "server_streaming_call_cancel_resource L script st h w =
     on_call (hp_calls h) (st_call st) (\<lambda>call.
       and_then (call_connection call h) (\<lambda>co.
       if \<not> st_completed st \<and> co \<noteq> None \<and> connection_io_allowed co then
         and_then (update_call (st_call st) (\<lambda>call. call\<lparr>grpc_status := GRPC_STATUS_CANCELLED\<rparr>) h) (\<lambda>h.
         and_then (server_streaming_call_terminate_with_cancel L script (st\<lparr>st_cancelled := True\<rparr>) h w) (\<lambda>(st, h, w).
         and_then (clear_connection_server_streaming_call_state_owner L (st_call st) h) (\<lambda>h. Ok (st, h, w))))
       else Ok (st, h, w)))"

section \<open>The next message\<close>

definition response_failed :: "grpc_call \<Rightarrow> bool" where
  "response_failed call \<longleftrightarrow> response_message_too_large call \<or> compressed_response_seen call \<or> malformed_response_frame call
     \<or> invalid_content_type call \<or> unsupported_response_encoding call \<or> metadata_too_large call \<or> response_queue_limit_exceeded call"

definition next_must_wait :: "server_streaming_call_state \<Rightarrow> grpc_call \<Rightarrow> bool" where
  "next_must_wait st call \<longleftrightarrow> response_queue call = [] \<and> \<not> stream_closed call \<and> \<not> st_completed st \<and> \<not> response_failed call"

text \<open>The end of a pull on a broken connection.\<close>

definition streaming_broke ::
    "'ss lib \<Rightarrow> conn_id \<Rightarrow> int \<Rightarrow> server_streaming_call_state \<Rightarrow> 'ss heap \<Rightarrow> io_world
      \<Rightarrow> (server_streaming_call_state \<times> 'ss heap \<times> io_world) res" where
  "streaming_broke L self code st h w =
     and_then (connection_broke L self (st_call st) code h) (\<lambda>h. Ok (st\<lparr>st_completed := True\<rparr>, h, w))"

definition streaming_timed_out ::
    "'ss lib \<Rightarrow> 'ss send_script \<Rightarrow> server_streaming_call_state \<Rightarrow> 'ss heap \<Rightarrow> io_world
      \<Rightarrow> (server_streaming_call_state \<times> 'ss heap \<times> io_world) res" where
  "streaming_timed_out L cancel st h w =
     and_then (update_call (st_call st) (\<lambda>call. call\<lparr>timed_out := True\<rparr>) h) (\<lambda>h.
     and_then (cancel_active_server_streaming_call_state L cancel NGHTTP2_CANCEL st h w) (\<lambda>(h, w).
     Ok (st\<lparr>st_completed := True\<rparr>, h, w)))"

definition streaming_read_failed ::
    "'ss lib \<Rightarrow> conn_id \<Rightarrow> 'ss send_script \<Rightarrow> int \<Rightarrow> server_streaming_call_state \<Rightarrow> 'ss heap \<Rightarrow> io_world
      \<Rightarrow> (server_streaming_call_state \<times> 'ss heap \<times> io_world) res" where
  "streaming_read_failed L self cancel nread st h w =
     on_conn h self (\<lambda>c. and_then (update_call (st_call st) (note_read_error nread c (w_errno w)) h) (\<lambda>h.
     on_call (hp_calls h) (st_call st) (\<lambda>call.
       if socket_timeout nread (w_errno w) call then streaming_timed_out L cancel st h w
       else streaming_broke L self (if nread = 0 then 0 else w_errno w) st h w)))"

text \<open>
  What nghttp2 does in one turn of the loop: the send before the read, then a round.
\<close>

type_synonym 'ss stream_round = "'ss send_script \<times> 'ss round"

text \<open>\<open>monotonic_us\<close> is read only for a call with a deadline.\<close>

definition deadline_passed :: "grpc_call \<Rightarrow> io_world \<Rightarrow> (bool \<times> io_world) option" where
  "deadline_passed call w =
     (if deadline_abs_us call = 0 then Some (False, w)
      else map_option (\<lambda>(now, w). (deadline_abs_us call \<le> now, w)) (monotonic_us w))"

text \<open>The flag of the result is false when the loop is left by a \<open>break\<close>.\<close>

definition streaming_round ::
    "'ss lib \<Rightarrow> module_globals \<Rightarrow> conn_id \<Rightarrow> 'ss send_script \<Rightarrow> 'ss stream_round \<Rightarrow> server_streaming_call_state \<Rightarrow> 'ss heap \<Rightarrow> io_world
      \<Rightarrow> (bool \<times> server_streaming_call_state \<times> 'ss heap \<times> io_world) res" where
  "streaming_round L G self cancel round st h w =
     (case round of (first, received, want_write, sent) \<Rightarrow>
        and_then (send_frames L self (st_call st) first h w) (\<lambda>(rv, h, w).
        if rv \<noteq> 0 then and_then (streaming_broke L self rv st h w) (\<lambda>r. Ok (False, r))
        else and_then (read_bytes L self (st_call st) h w) (\<lambda>(nread, h, w).
        if nread \<le> 0 then and_then (streaming_read_failed L self cancel nread st h w) (\<lambda>r. Ok (False, r))
        else and_then (feed_session L G self (st_call st) received h) (\<lambda>(rv, h).
        if rv < 0 then and_then (kill_connection L self rv h) (\<lambda>h. Ok (False, st\<lparr>st_completed := True\<rparr>, h, w))
        else if want_write then
          and_then (send_frames L self (st_call st) sent h w) (\<lambda>(rv, h, w).
            if rv \<noteq> 0 then and_then (streaming_broke L self rv st h w) (\<lambda>r. Ok (False, r)) else Ok (True, st, h, w))
        else Ok (True, st, h, w)))))"

fun streaming_loop ::
    "'ss lib \<Rightarrow> module_globals \<Rightarrow> 'ss send_script \<Rightarrow> 'ss stream_round list \<Rightarrow> server_streaming_call_state \<Rightarrow> 'ss heap \<Rightarrow> io_world
      \<Rightarrow> (server_streaming_call_state \<times> 'ss heap \<times> io_world) res" where
  "streaming_loop L G cancel rounds st h w =
     on_call (hp_calls h) (st_call st) (\<lambda>call.
       if \<not> next_must_wait st call then Ok (st, h, w)
       else and_then (call_connection call h) (\<lambda>co.
         if \<not> connection_io_allowed co then
           and_then (update_call (st_call st) (grpc_call_note_connection_broken co) h) (\<lambda>h. Ok (st\<lparr>st_completed := True\<rparr>, h, w))
         else case deadline_passed call w of
                None \<Rightarrow> Blocked
              | Some (passed, w) \<Rightarrow>
                  if passed then streaming_timed_out L cancel st h w
                  else case rounds of
                         [] \<Rightarrow> Blocked
                       | round # rounds \<Rightarrow>
                           and_then (streaming_round L G (the (connection call)) cancel round st h w) (\<lambda>(go_on, st, h, w).
                             if go_on then streaming_loop L G cancel rounds st h w else Ok (st, h, w))))"

declare streaming_loop.simps [simp del]

definition reject_failed_response ::
    "'ss lib \<Rightarrow> 'ss send_script \<Rightarrow> server_streaming_call_state \<Rightarrow> 'ss heap \<Rightarrow> io_world
      \<Rightarrow> (server_streaming_call_state \<times> 'ss heap \<times> io_world) res" where
  "reject_failed_response L cancel st h w =
     on_call (hp_calls h) (st_call st) (\<lambda>call.
       if response_failed call then
         and_then (server_streaming_call_terminate_with_cancel L cancel st h w) (\<lambda>(st, h, w).
         and_then (detach_call_if_unusable (st_call st) h) (\<lambda>h. Ok (st, h, w)))
       else Ok (st, h, w))"

definition take_response :: "byte list list \<Rightarrow> byte list \<Rightarrow> grpc_call \<Rightarrow> grpc_call" where
  "take_response rest payload call =
     call\<lparr>response_queue := rest, response_queue_count := response_queue_count call - 1,
          response_queue_bytes := response_queue_bytes call - length payload\<rparr>"

definition deliver_message ::
    "(string \<Rightarrow> string option) \<Rightarrow> byte list \<Rightarrow> byte list list \<Rightarrow> grpc_call \<Rightarrow> server_streaming_call_state \<Rightarrow> 'ss heap
      \<Rightarrow> (streaming_next_result \<times> server_streaming_call_state \<times> 'ss heap)" where
  "deliver_message dec payload rest call st h =
     (let call = take_response rest payload call;
          st = st\<lparr>st_delivered_messages := st_delivered_messages st + 1\<rparr>
      in (NextMessage payload (if st_delivered_messages st = 1 then grpc_protocol_copy_metadata_map dec call False else []),
          st, put_call (st_call st) call h))"

definition note_truncated_stream :: "grpc_call \<Rightarrow> grpc_call" where
  "note_truncated_stream call =
     (if \<not> response_message_too_large call \<and> \<not> compressed_response_seen call
         \<and> \<not> stream_reset_seen call \<and> \<not> locally_cancelled call \<and> \<not> connection_broken call
         \<and> (response_header_len call \<noteq> 0 \<or> response_payload call \<noteq> None \<or> response_payload_offset call \<noteq> 0)
      then call\<lparr>malformed_response_frame := True\<rparr> else call)"

definition server_streaming_call_fill_status_result ::
    "(string \<Rightarrow> string option) \<Rightarrow> 'ss h2_connection option \<Rightarrow> grpc_call \<Rightarrow> server_streaming_call_state \<Rightarrow> streaming_next_result" where
  "server_streaming_call_fill_status_result dec co call st =
     NextDone (resolve_grpc_call_status co call (st_cancelled st))
       (grpc_protocol_copy_metadata_map dec call False) (grpc_protocol_copy_metadata_map dec call True)
       (grpc_lite_attempt_outcome_from_call (Some call) (0 < st_delivered_messages st))"

definition finish_stream ::
    "'ss lib \<Rightarrow> (string \<Rightarrow> string option) \<Rightarrow> server_streaming_call_state \<Rightarrow> 'ss heap
      \<Rightarrow> (streaming_next_result \<times> server_streaming_call_state \<times> 'ss heap) res" where
  "finish_stream L dec st h =
     and_then (update_call (st_call st) note_truncated_stream h) (\<lambda>h.
     on_call (hp_calls h) (st_call st) (\<lambda>call.
     and_then (call_connection call h) (\<lambda>co.
       (let st = st\<lparr>st_completed := True\<rparr>; r = server_streaming_call_fill_status_result dec co call st
        in and_then (clear_connection_server_streaming_call_state_owner L (st_call st) h) (\<lambda>h. Ok (r, st, h))))))"

definition server_streaming_call_next_resource_core ::
    "'ss lib \<Rightarrow> module_globals \<Rightarrow> (string \<Rightarrow> string option) \<Rightarrow> 'ss stream_round list \<times> 'ss send_script \<times> 'ss send_script
      \<Rightarrow> server_streaming_call_state \<Rightarrow> 'ss heap \<Rightarrow> io_world
      \<Rightarrow> (streaming_next_result \<times> server_streaming_call_state \<times> 'ss heap \<times> io_world) res" where
  "server_streaming_call_next_resource_core L G dec script st h w =
     (case script of (rounds, cancel, reject) \<Rightarrow>
        and_then (streaming_loop L G cancel rounds st h w) (\<lambda>(st, h, w).
        and_then (reject_failed_response L reject st h w) (\<lambda>(st, h, w).
        on_call (hp_calls h) (st_call st) (\<lambda>call.
          case response_queue call of
            payload # rest \<Rightarrow> (case deliver_message dec payload rest call st h of (r, st, h) \<Rightarrow> Ok (r, st, h, w))
          | [] \<Rightarrow> and_then (finish_stream L dec st h) (\<lambda>(r, st, h). Ok (r, st, h, w))))))"

section \<open>Opening a call\<close>

text \<open>What nghttp2 does on the connection that is chosen.\<close>

record 'ss open_script =
  os_preflight :: "'ss round list"
  os_initial :: "conn_id \<Rightarrow> 'ss send_script"
  os_cancel :: "conn_id \<Rightarrow> 'ss send_script"

definition no_connection_code :: "nat \<Rightarrow> string \<Rightarrow> io_world \<Rightarrow> (int \<times> io_world) option" where
  "no_connection_code deadline message w =
     (let code = (\<lambda>passed. if passed \<or> message = ''HTTP/2 transport deadline exceeded'' then GRPC_STATUS_DEADLINE_EXCEEDED
                          else GRPC_STATUS_UNAVAILABLE)
      in if deadline = 0 then Some (code False, w)
         else map_option (\<lambda>(now, w). (code (deadline \<le> now), w)) (monotonic_us w))"

text \<open>A failure after the state was allocated destroys it first.\<close>

definition open_failed ::
    "'ss lib \<Rightarrow> 'ss send_script \<Rightarrow> server_streaming_call_state \<Rightarrow> open_result \<Rightarrow> 'ss heap \<Rightarrow> io_world \<Rightarrow> (open_result \<times> 'ss heap \<times> io_world) res" where
  "open_failed L script st r h w =
     and_then (destroy_server_streaming_call_state L script st h w) (\<lambda>(h, w). Ok (r, h, w))"

definition streaming_submit ::
    "'ss lib \<Rightarrow> bool \<Rightarrow> 'ss open_script \<Rightarrow> conn_id \<Rightarrow> (string \<times> string) list \<Rightarrow> server_streaming_call_state \<Rightarrow> 'ss heap \<Rightarrow> io_world
      \<Rightarrow> (open_result \<times> 'ss heap \<times> io_world) res" where
  "streaming_submit L sf script self nva st h w =
     and_then (submit_request L self (st_call st) nva h) (\<lambda>(sid, h).
     if sid < 0 then
       and_then (if nghttp2_is_fatal L sid
                 then and_then (kill_connection L self sid h) (detach_persistent_connection_by_ptr self) else Ok h) (\<lambda>h.
       open_failed L (os_cancel script self) st (setup_failed sf GRPC_STATUS_UNAVAILABLE ''nghttp2_submit_request failed'') h w)
     else and_then (register_call L self (st_call st) h) (\<lambda>(ok, h).
     if \<not> ok then
       open_failed L (os_cancel script self) st (setup_failed sf GRPC_STATUS_UNAVAILABLE ''failed to register HTTP/2 stream'') h w
     else and_then (send_frames L self (st_call st) (os_initial script self) h w) (\<lambda>(rv, h, w).
     if rv \<noteq> 0 then
       on_call (hp_calls h) (st_call st) (\<lambda>call.
       and_then (kill_connection L self rv h) (\<lambda>h.
       open_failed L (os_cancel script self) st
         (if timed_out call then setup_failed sf GRPC_STATUS_DEADLINE_EXCEEDED ''HTTP/2 transport deadline exceeded''
          else setup_failed sf GRPC_STATUS_UNAVAILABLE ''nghttp2_session_send failed'') h w))
     else Ok (Opened st, h, w))))"

definition open_on_connection ::
    "'ss lib \<Rightarrow> (string \<Rightarrow> string) \<Rightarrow> bool \<Rightarrow> 'ss open_script \<Rightarrow> conn_id \<Rightarrow> call_id \<Rightarrow> call_request \<Rightarrow> 'ss heap \<Rightarrow> io_world
      \<Rightarrow> (open_result \<times> 'ss heap \<times> io_world) res" where
  "open_on_connection L enc sf script self k R h w =
     (case remaining_timeout_us_for_deadline (rq_deadline_abs_us R) w of
        None \<Rightarrow> Blocked
      | Some (remaining, w) \<Rightarrow>
          if remaining < 0 then Ok (setup_failed sf GRPC_STATUS_DEADLINE_EXCEEDED ''HTTP/2 transport deadline exceeded'', h, w)
          else on_conn h self (\<lambda>c.
            let h = put_call k (new_call self 0 R) h;
                st = \<lparr>st_call = k, st_delivered_messages = 0, st_completed = False, st_cancelled = False\<rparr>
            in and_then (prepare_request enc R c w) (\<lambda>(p, w).
                 case p of
                   PrepareTimedOut \<Rightarrow>
                     open_failed L (os_cancel script self) st
                       (setup_failed sf GRPC_STATUS_DEADLINE_EXCEEDED ''HTTP/2 transport deadline exceeded'') h w
                 | PrepareRefused e \<Rightarrow> open_failed L (os_cancel script self) st (OpenThrew e) h w
                 | Prepared nva \<Rightarrow> streaming_submit L sf script self nva st h w)))"

text \<open>\<open>fresh\<close> is the address of a new connection, should one be made, and \<open>k\<close> that of the call.\<close>

definition server_streaming_call_open_resource ::
    "'ss lib \<Rightarrow> module_globals \<Rightarrow> (string \<Rightarrow> string) \<Rightarrow> ('ss, 'x) setup_env \<Rightarrow> channel_target \<Rightarrow> string \<Rightarrow> bool
      \<Rightarrow> 'ss open_script \<Rightarrow> conn_id \<Rightarrow> call_id \<Rightarrow> call_request \<Rightarrow> 'ss heap \<Rightarrow> io_world \<Rightarrow> (open_result \<times> 'ss heap \<times> io_world) res" where
  "server_streaming_call_open_resource L G enc S T key sf script fresh k R h w =
     (case validate_channel_inputs key (ct_host T) (ct_port T) (ct_authority T) (ct_tls_verify_name T) of
        Some e \<Rightarrow> Ok (OpenThrew e, h, w)
      | None \<Rightarrow>
      case validate_grpc_path (rq_path R) of
        Some e \<Rightarrow> Ok (OpenThrew e, h, w)
      | None \<Rightarrow>
      if UINT32_MAX < int (length (rq_request R)) then Ok (OpenThrew ''gRPC request message exceeds 32-bit frame length'', h, w)
      else and_then (get_persistent_connection L G S T key (rq_deadline_abs_us R) (os_preflight script) fresh h w) (\<lambda>(r, h, w).
        case r of
          Inr (self, reused) \<Rightarrow> open_on_connection L enc sf script self k R h w
        | Inl message \<Rightarrow>
            if \<not> sf then Ok (OpenThrew message, h, w)
            else case no_connection_code (rq_deadline_abs_us R) message w of
                   None \<Rightarrow> Blocked
                 | Some (code, w) \<Rightarrow> Ok (SetupFailed \<lparr>sr_code = code, sr_details = message\<rparr>, h, w)))"

section \<open>Holding a call\<close>

lemma update_core_inv:
  assumes inv: "heap_inv L X S h" and k: "hp_calls h k = Some call" "call_core call' = call_core call"
  shows "heap_inv L X S (put_call k call' h)"
proof -
  let ?h = "put_call k call' h"
  note flds = call_core_fields [OF k(2)]
  have fx: "call_fixed call' = call_fixed call" using k(2) by (simp add: call_core_def)
  have li: "listed j call' = listed j call" for j using k(2) by (simp add: call_core_def call_fixed_def listed_def)
  have "streams_ok L j cj (hp_calls ?h)" if "hp_conns h j = Some cj" for j cj
  proof (rule streams_ok_listed [of L j cj "hp_calls h"])
    show "streams_ok L j cj (hp_calls h)" using heap_inv_conn(1) [OF inv that] by (simp add: conn_inv_def)
  next
    fix i old assume old: "hp_calls h i = Some old" "listed j old"
    show "\<exists>new. hp_calls ?h i = Some new \<and> next_active_stream new = next_active_stream old \<and> stream_id new = stream_id old \<and> listed j new"
      using old k(1) li [of j] flds(1) fx by (cases "i = k") (simp_all add: call_fixed_def)
  next
    fix i new assume new: "hp_calls ?h i = Some new" "listed j new"
    show "\<exists>old. hp_calls h i = Some old \<and> listed j old" using new k(1) li [of j] by (cases "i = k") simp_all
  qed
  moreover have "owners (hp_calls ?h) j = owners (hp_calls h) j" for j by (rule owners_fixed) (use k(1) fx in simp)
  ultimately have "conns_ok L ?h" using inv by (simp add: heap_defs)
  moreover have "links_ok X ?h" using inv k(1) fx by (auto simp: heap_defs links_ok_def call_fixed_def)
  moreover have "calls_wf (hp_calls ?h)" using inv k(1) call_fixed_wf [OF fx] by (auto simp: heap_defs calls_wf_def)
  moreover have "cache_ok ?h" "kept_alive S ?h" using inv by (simp_all add: heap_inv_def heap_ok_def cache_ok_def kept_alive_def cached_def)
  ultimately show ?thesis using inv by (simp add: heap_defs)
qed

text \<open>
  The call \<open>k\<close> names the connection \<open>p\<close> (none after it was released); against \<open>h\<^sub>0\<close> only this call and its
  connection have changed, and the calls of \<open>calls\<^sub>0\<close> on that connection are still on it.
\<close>

definition holding ::
    "'ss lib \<Rightarrow> call_id \<Rightarrow> conn_id option \<Rightarrow> call_store \<Rightarrow> 'ss heap \<Rightarrow> 'ss heap \<Rightarrow> bool" where
  "holding L k p calls0 h0 h \<longleftrightarrow> heap_inv L {} {} h \<and> (\<exists>call. hp_calls h k = Some call \<and> connection call = p)
     \<and> (\<forall>j. j \<noteq> k \<longrightarrow> map_option call_fixed (hp_calls h j) = map_option call_fixed (hp_calls h0 j))
     \<and> (\<forall>j. p \<noteq> Some j \<longrightarrow> hp_conns h j = hp_conns h0 j)
     \<and> (\<forall>self. p = Some self \<longrightarrow> same_links self calls0 (hp_calls h))"

lemma holdingE:
  assumes "holding L k p calls0 h0 h"
  obtains call where "heap_inv L {} {} h" "hp_calls h k = Some call" "connection call = p" "connection_owned call = (p \<noteq> None)"
    "\<And>self. p = Some self \<Longrightarrow> hp_conns h self \<noteq> None" "\<And>self. p = Some self \<Longrightarrow> same_links self calls0 (hp_calls h)"
proof -
  obtain call where call: "heap_inv L {} {} h" "hp_calls h k = Some call" "connection call = p"
    "\<forall>self. p = Some self \<longrightarrow> same_links self calls0 (hp_calls h)" using assms by (auto simp: holding_def)
  have lk: "links_ok {} h" using call(1) by (simp add: heap_defs)
  have "connection_owned call = (p \<noteq> None)" using lk call(2,3) unfolding links_ok_def by blast
  moreover have "hp_conns h self \<noteq> None" if "p = Some self" for self
    using lk call(2,3) that unfolding links_ok_def by (metis option.distinct(1) option.inject empty_iff)
  ultimately show ?thesis using that call by blast
qed

lemma holding_start:
  assumes "heap_inv L {} {} h" "hp_calls h k = Some call"
  shows "holding L k (connection call) (hp_calls h) h h"
  using assms by (auto simp: holding_def same_links_def)

lemma holding_update:
  assumes "holding L k p calls0 h0 h" "\<And>call. call_core (f call) = call_core call"
  shows "returns (holding L k p calls0 h0) (update_call k f h)"
proof -
  obtain call where call: "heap_inv L {} {} h" "hp_calls h k = Some call" "connection call = p" using assms(1) by (elim holdingE)
  have con: "connection (f call) = p" using assms(2) [of call] call(3) by (simp add: call_core_def call_fixed_def)
  have "retry_attempt (f call) = retry_attempt call" using assms(2) [of call] by (simp add: call_core_def call_fixed_def)
  then have "same_links self calls0 ((hp_calls h)(k \<mapsto> f call))" if "p = Some self" for self
    using assms(1) that con call(2) unfolding holding_def same_links_def by (auto; metis option.inject)
  then have "holding L k p calls0 h0 (put_call k (f call) h)"
    using assms(1) update_core_inv [OF call(1,2) assms(2)] con by (simp add: holding_def)
  then show ?thesis using call(2) by (simp add: update_call_def)
qed

lemma holding_driven:
  assumes "holding L k (Some self) calls0 h0 h" "hp_conns h self = Some c" "driven_inv L self (c, hp_calls h) (c', calls')"
  shows "holding L k (Some self) calls0 h0 (put_streams self c' calls' h)"
proof -
  obtain call where call: "heap_inv L {} {} h" "hp_calls h k = Some call" "connection call = Some self"
    "same_links self calls0 (hp_calls h)" using assms(1) by (elim holdingE) simp
  have kept: "calls_kept self (hp_calls h) calls'" using assms(3) by (simp add: driven_inv_def)
  obtain call' where "calls' k = Some call'" "connection call' = Some self"
    using calls_keptD [OF kept call(2)] call(3) by (auto simp: call_fixed_def)
  moreover have "same_links self calls0 calls'" by (rule same_links_trans [OF call(4) kept_links [OF kept]])
  ultimately show ?thesis using assms(1) heap_inv_driven [OF call(1) assms(2,3)] kept by (auto simp: holding_def calls_kept_def)
qed

lemma holding_drives:
  assumes "holding L k (Some self) calls0 h0 h" "drives L self h h'"
  shows "holding L k (Some self) calls0 h0 h'"
proof -
  obtain c c' calls' where c: "hp_conns h self = Some c" "h' = put_streams self c' calls' h" "driven L self (c, hp_calls h) (c', calls')"
    using assms(2) by (auto simp: drives_def)
  have "calls_wf (hp_calls h)" using assms(1) by (auto simp: holding_def heap_defs)
  then show ?thesis unfolding c(2) by (intro holding_driven [OF assms(1) c(1)] driven_driven_inv [OF c(3)]) simp
qed

lemma holding_steered:
  assumes "holding L k (Some self) calls0 h0 h" "hp_conns h self = Some c" "connection_io_allowed (Some c)"
  shows "steered L {} {} self k h"
proof -
  obtain call where call: "heap_inv L {} {} h" "hp_calls h k = Some call" "connection call = Some self" using assms(1) by (elim holdingE)
  have "driving_ok L self c (hp_calls h)"
    using streams_driving heap_inv_conn(1) [OF call(1) assms(2)] assms(3) by (auto simp: conn_inv_def connection_io_allowed_def)
  then show ?thesis using call assms(2,3) by (auto simp: steered_def connection_io_allowed_def)
qed

definition script_ok :: "'ss lib \<Rightarrow> conn_id option \<Rightarrow> call_store \<Rightarrow> 'ss send_script \<Rightarrow> bool" where
  "script_ok L p calls s \<longleftrightarrow> (\<forall>self. p = Some self \<longrightarrow> send_script_ok L self s calls)"

lemma holding_script:
  assumes "holding L k (Some self) calls0 h0 h" "script_ok L (Some self) calls0 s"
  shows "send_script_ok L self s (hp_calls h)"
  using assms by (auto simp: holding_def script_ok_def intro: send_script_ok_links)

lemma holding_cancel:
  assumes laws: "session_laws L" and ho: "holding L k p calls0 h0 h" and s: "script_ok L p calls0 s"
  shows "safe (\<lambda>(h', w'). holding L k p calls0 h0 h') (cancel_grpc_call_stream L s e k h w)"
proof (cases p)
  case None
  obtain call where "hp_calls h k = Some call" "connection call = p" using ho by (elim holdingE)
  then show ?thesis using None ho by (simp add: cancel_grpc_call_stream_def)
next
  case (Some self)
  obtain call where call: "heap_inv L {} {} h" "hp_calls h k = Some call" "connection call = Some self" "hp_conns h self \<noteq> None"
    using ho Some by (elim holdingE) simp
  then obtain c where c: "hp_conns h self = Some c" by auto
  have ho': "holding L k (Some self) calls0 h0 h" using ho Some by simp
  have "send_script_ok L self s (hp_calls h)" using holding_script [OF ho'] s Some by simp
  from cancel_safe [OF laws call(1-3) c this] show ?thesis
    by (rule safe_mono) (use holding_driven [OF ho' c] Some in auto)
qed

lemma keep_owned_alive:
  assumes inv: "heap_inv L X {self} h" and k: "hp_calls h k = Some call" "connection_owned call" "connection call = Some self"
    and c: "hp_conns h self = Some c" "cached h self \<or> h2_detached_from_cache c"
  shows "heap_inv L X {} h"
proof -
  have "k \<in> owners (hp_calls h) self" using k by (simp add: owners_def)
  then have "0 < h2_stream_owner_count c" using heap_inv_conn(2,3) [OF inv c(1)] by (simp add: card_gt_0_iff) blast
  then have "kept_alive {} h" using c inv
    by (intro kept_aliveI) (metis heap_inv_def kept_aliveD option.inject singletonD)
  then show ?thesis using inv by (simp add: heap_inv_def)
qed

lemma holding_detach:
  assumes "holding L k p calls0 h0 h"
  shows "returns (holding L k p calls0 h0) (detach_call_if_unusable k h)"
proof (cases p)
  case None
  obtain call where "hp_calls h k = Some call" "connection call = p" using assms by (elim holdingE)
  then show ?thesis using None assms by (simp add: detach_call_if_unusable_def)
next
  case (Some self)
  obtain call where call: "heap_inv L {} {} h" "hp_calls h k = Some call" "connection call = Some self" "connection_owned call" "hp_conns h self \<noteq> None"
    using assms Some by (elim holdingE) simp
  then obtain c where c: "hp_conns h self = Some c" by auto
  obtain h' c' where h': "detach_if_unusable self h = Ok h'" "heap_inv L {} {self} h'" "hp_calls h' = hp_calls h"
    "hp_conns h' = (hp_conns h)(self \<mapsto> c')" "cached h' self \<or> h2_detached_from_cache c'" using detach_if_unusable_inv [OF call(1) c] by auto
  have "heap_inv L {} {} h'" by (rule keep_owned_alive [OF h'(2) _ call(4,3) _ h'(5)]) (use h'(3,4) call(2) in simp_all)
  then have "holding L k p calls0 h0 h'" using assms h'(3,4) Some by (auto simp: holding_def)
  then show ?thesis using call(2,3) h'(1) by (simp add: detach_call_if_unusable_def)
qed

section \<open>Pulling is safe\<close>

lemma drives_script:
  "send_script_ok L self s (hp_calls h) \<Longrightarrow> drives L self h h' \<Longrightarrow> send_script_ok L self s (hp_calls h')"
  using send_script_ok_links drives_links by blast

text \<open>One turn: the state keeps its call and the heap is driven.\<close>

abbreviation turned :: "'ss lib \<Rightarrow> conn_id \<Rightarrow> call_id \<Rightarrow> 'ss heap \<Rightarrow> server_streaming_call_state \<times> 'ss heap \<times> io_world \<Rightarrow> bool" where
  "turned L self k h r \<equiv> (case r of (st', h', w') \<Rightarrow> st_call st' = k \<and> drives L self h h')"

lemma broke_turned:
  assumes "rst_laws L" "steered L {} {} self (st_call st) h"
  shows "safe (turned L self (st_call st) h) (streaming_broke L self code st h w)"
  unfolding streaming_broke_def by (rule safe_and_then [OF returns_safe [OF broke_drives [OF assms(2,1)]]]) simp

lemma timed_out_turned:
  assumes laws: "session_laws L" and st: "steered L {} {} self (st_call st) h" and s: "send_script_ok L self s (hp_calls h)"
  shows "safe (turned L self (st_call st) h) (streaming_timed_out L s st h w)"
  unfolding streaming_timed_out_def
proof (rule safe_and_then [OF returns_safe [OF update_call_drives [OF st]]], simp)
  fix h1 assume d: "drives L self h h1"
  have st1: "steered L {} {} self (st_call st) h1" by (rule drives_steered [OF st d])
  then obtain call where call: "hp_calls h1 (st_call st) = Some call" by (elim steeredE)
  have "safe (\<lambda>(h', w'). drives L self h h') (cancel_active_server_streaming_call_state L s NGHTTP2_CANCEL st h1 w)"
    unfolding cancel_active_server_streaming_call_state_def on_call_Some [of "hp_calls h1" "st_call st" call, OF call]
    using safe_mono [OF cancel_drives [OF laws st1 drives_script [OF s d], of NGHTTP2_CANCEL w], of "\<lambda>(h', w'). drives L self h h'"]
      drives_trans [OF d] d by auto
  then show "safe (turned L self (st_call st) h)
      (and_then (cancel_active_server_streaming_call_state L s NGHTTP2_CANCEL st h1 w) (\<lambda>(h, w). Ok (st\<lparr>st_completed := True\<rparr>, h, w)))"
    by (rule safe_and_then) auto
qed

lemma turned_trans: "drives L self h h1 \<Longrightarrow> turned L self k h1 r \<Longrightarrow> turned L self k h r"
  using drives_trans by fastforce

lemma read_failed_turned:
  assumes laws: "session_laws L" and st: "steered L {} {} self (st_call st) h" and s: "send_script_ok L self s (hp_calls h)"
  shows "safe (turned L self (st_call st) h) (streaming_read_failed L self s nread st h w)"
proof -
  have rst: "rst_laws L" using laws by (simp add: session_laws_def)
  obtain c where c: "hp_conns h self = Some c" using st by (elim steeredE)
  show ?thesis unfolding streaming_read_failed_def on_conn_Some [OF c]
  proof (rule safe_and_then [OF returns_safe [OF update_call_drives [OF st]]], simp)
    fix h1 assume d: "drives L self h h1"
    have st1: "steered L {} {} self (st_call st) h1" by (rule drives_steered [OF st d])
    then obtain call where call: "hp_calls h1 (st_call st) = Some call" by (elim steeredE)
    have "safe (turned L self (st_call st) h) (streaming_timed_out L s st h1 w)"
      by (rule safe_mono [OF timed_out_turned [OF laws st1 drives_script [OF s d]]]) (rule turned_trans [OF d])
    moreover have "safe (turned L self (st_call st) h) (streaming_broke L self e st h1 w)" for e
      by (rule safe_mono [OF broke_turned [OF rst st1]]) (rule turned_trans [OF d])
    ultimately show "safe (turned L self (st_call st) h) (on_call (hp_calls h1) (st_call st) (\<lambda>call.
       if socket_timeout nread (w_errno w) call then streaming_timed_out L s st h1 w
       else streaming_broke L self (if nread = 0 then 0 else w_errno w) st h1 w))"
      unfolding on_call_Some [of "hp_calls h1" "st_call st" call, OF call] by simp
  qed
qed

definition stream_round_ok :: "'ss lib \<Rightarrow> conn_id \<Rightarrow> call_store \<Rightarrow> 'ss stream_round \<Rightarrow> bool" where
  "stream_round_ok L self calls round \<longleftrightarrow>
     (case round of (first, received, want_write, sent) \<Rightarrow>
        send_script_ok L self first calls \<and> recv_script_ok L received \<and> send_script_ok L self sent calls)"

lemma round_turned:
  assumes laws: "session_laws L" and st: "steered L {} {} self (st_call st) h"
    and s: "send_script_ok L self cancel (hp_calls h)" "stream_round_ok L self (hp_calls h) round"
  shows "safe (\<lambda>(go_on, r). turned L self (st_call st) h r) (streaming_round L G self cancel round st h w)"
proof -
  have rst: "rst_laws L" using laws by (simp add: session_laws_def)
  obtain first received want_write sent where round: "round = (first, received, want_write, sent)" by (metis surj_pair)
  have sc: "send_script_ok L self first (hp_calls h)" "recv_script_ok L received" "send_script_ok L self sent (hp_calls h)"
    using s(2) by (simp_all add: stream_round_ok_def round)
  let ?post = "\<lambda>(go_on :: bool, r). turned L self (st_call st) h r"
  have broke: "safe ?post (and_then (streaming_broke L self e st h1 w1) (\<lambda>r. Ok (False, r)))" if d: "drives L self h h1" for e h1 w1
    by (rule safe_and_then [OF broke_turned [OF rst drives_steered [OF st d]]]) (use turned_trans [OF d] in simp)
  have failed: "safe ?post (and_then (streaming_read_failed L self cancel n st h1 w1) (\<lambda>r. Ok (False, r)))" if d: "drives L self h h1" for n h1 w1
    by (rule safe_and_then [OF read_failed_turned [OF laws drives_steered [OF st d] drives_script [OF s(1) d]]]) (use turned_trans [OF d] in simp)
  have kill: "safe ?post (and_then (kill_connection L self e h1) (\<lambda>h. Ok (False, st\<lparr>st_completed := True\<rparr>, h, w1)))" if d: "drives L self h h1" for e h1 w1
    by (rule safe_and_then [OF returns_safe [OF kill_drives [OF drives_steered [OF st d] rst]]]) (use drives_trans [OF d] in auto)
  have last: "safe ?post (and_then (send_frames L self (st_call st) sent h1 w1) (\<lambda>(rv, h, w).
      if rv \<noteq> 0 then and_then (streaming_broke L self rv st h w) (\<lambda>r. Ok (False, r)) else Ok (True, st, h, w)))"
    if d: "drives L self h h1" for h1 w1
    by (rule safe_and_then [OF send_drives [OF laws drives_steered [OF st d] drives_script [OF sc(3) d]]])
       (use drives_trans [OF d] broke in auto)
  have fed: "safe ?post (and_then (feed_session L G self (st_call st) received h1) (\<lambda>(rv, h).
      if rv < 0 then and_then (kill_connection L self rv h) (\<lambda>h. Ok (False, st\<lparr>st_completed := True\<rparr>, h, w1))
      else if want_write then
        and_then (send_frames L self (st_call st) sent h w1) (\<lambda>(rv, h, w).
          if rv \<noteq> 0 then and_then (streaming_broke L self rv st h w) (\<lambda>r. Ok (False, r)) else Ok (True, st, h, w))
      else Ok (True, st, h, w1)))" if d: "drives L self h h1" for h1 w1
    by (rule safe_and_then [OF feed_drives [OF laws drives_steered [OF st d] sc(2)]])
       (use drives_trans [OF d] kill last in auto)
  have reading: "safe ?post (and_then (read_bytes L self (st_call st) h1 w1) (\<lambda>(nread, h, w).
      if nread \<le> 0 then and_then (streaming_read_failed L self cancel nread st h w) (\<lambda>r. Ok (False, r))
      else and_then (feed_session L G self (st_call st) received h) (\<lambda>(rv, h).
      if rv < 0 then and_then (kill_connection L self rv h) (\<lambda>h. Ok (False, st\<lparr>st_completed := True\<rparr>, h, w))
      else if want_write then
        and_then (send_frames L self (st_call st) sent h w) (\<lambda>(rv, h, w).
          if rv \<noteq> 0 then and_then (streaming_broke L self rv st h w) (\<lambda>r. Ok (False, r)) else Ok (True, st, h, w))
      else Ok (True, st, h, w))))" if d: "drives L self h h1" for h1 w1
  proof (rule safe_and_then [OF read_drives [OF rst drives_steered [OF st d]]], clarify)
    fix nread h2 w2 assume "drives L self h1 h2"
    then have "drives L self h h2" by (rule drives_trans [OF d])
    then show "safe ?post (if nread \<le> 0 then and_then (streaming_read_failed L self cancel nread st h2 w2) (\<lambda>r. Ok (False, r))
      else and_then (feed_session L G self (st_call st) received h2) (\<lambda>(rv, h).
      if rv < 0 then and_then (kill_connection L self rv h) (\<lambda>h. Ok (False, st\<lparr>st_completed := True\<rparr>, h, w2))
      else if want_write then
        and_then (send_frames L self (st_call st) sent h w2) (\<lambda>(rv, h, w).
          if rv \<noteq> 0 then and_then (streaming_broke L self rv st h w) (\<lambda>r. Ok (False, r)) else Ok (True, st, h, w))
      else Ok (True, st, h, w2)))" using failed fed by simp
  qed
  show ?thesis unfolding streaming_round_def round prod.case
    by (rule safe_and_then [OF send_drives [OF laws st sc(1)]]) (use broke reading in auto)
qed

abbreviation held ::
    "'ss lib \<Rightarrow> call_id \<Rightarrow> conn_id option \<Rightarrow> call_store \<Rightarrow> 'ss heap \<Rightarrow> server_streaming_call_state \<times> 'ss heap \<times> io_world \<Rightarrow> bool" where
  "held L k p calls0 h0 r \<equiv> (case r of (st', h', w') \<Rightarrow> st_call st' = k \<and> holding L k p calls0 h0 h')"

definition named_connection :: "conn_id option \<Rightarrow> 'ss heap \<Rightarrow> 'ss h2_connection option" where
  "named_connection p h = (case p of None \<Rightarrow> None | Some self \<Rightarrow> hp_conns h self)"

lemma call_connection_ok:
  assumes "holding L k p calls0 h0 h" "hp_calls h k = Some call"
  shows "call_connection call h = Ok (named_connection p h)" "connection call = p"
proof -
  obtain c0 where c: "hp_calls h k = Some c0" "connection c0 = p" "\<And>self. p = Some self \<Longrightarrow> hp_conns h self \<noteq> None"
    using assms(1) by (elim holdingE) blast
  show con: "connection call = p" using c(1,2) assms(2) by simp
  show "call_connection call h = Ok (named_connection p h)"
  proof (cases p)
    case (Some self)
    then obtain x where "hp_conns h self = Some x" using c(3) by auto
    then show ?thesis using Some con by (simp add: call_connection_def named_connection_def)
  qed (simp add: call_connection_def named_connection_def con)
qed

lemma turn_held:
  assumes ho: "holding L k p calls0 h0 h" and co: "connection_io_allowed (named_connection p h)"
  obtains self where "p = Some self" "steered L {} {} self k h" "holding L k (Some self) calls0 h0 h"
    "\<And>r. turned L self k h r \<Longrightarrow> held L k p calls0 h0 r"
proof -
  obtain self where self: "p = Some self" using co by (cases p) (simp_all add: named_connection_def connection_io_allowed_def)
  then obtain c where c: "hp_conns h self = Some c" "connection_io_allowed (Some c)"
    using co by (cases "hp_conns h self") (simp_all add: named_connection_def connection_io_allowed_def)
  have ho': "holding L k (Some self) calls0 h0 h" using ho self by simp
  have "held L k p calls0 h0 r" if "turned L self k h r" for r using that holding_drives [OF ho'] self by (cases r) auto
  then show ?thesis using that [OF self holding_steered [OF ho' c] ho'] by blast
qed

lemma note_broken_held:
  assumes "holding L k p calls0 h0 h" "st_call st = k"
  shows "safe (held L k p calls0 h0) (and_then (update_call k (grpc_call_note_connection_broken co) h) (\<lambda>h. Ok (st\<lparr>st_completed := True\<rparr>, h, w)))"
  by (rule safe_and_then [OF returns_safe [OF holding_update [OF assms(1)]]]) (use assms(2) in simp_all)

lemma timed_out_held:
  assumes laws: "session_laws L" and ho: "holding L (st_call st) p calls0 h0 h" and co: "connection_io_allowed (named_connection p h)"
    and s: "script_ok L p calls0 cancel"
  shows "safe (held L (st_call st) p calls0 h0) (streaming_timed_out L cancel st h w)"
proof -
  obtain self where self: "p = Some self" "steered L {} {} self (st_call st) h" "holding L (st_call st) (Some self) calls0 h0 h"
    "\<And>r. turned L self (st_call st) h r \<Longrightarrow> held L (st_call st) p calls0 h0 r" using turn_held [OF ho co] by blast
  have "send_script_ok L self cancel (hp_calls h)" using holding_script [OF self(3)] s self(1) by simp
  from timed_out_turned [OF laws self(2) this] show ?thesis by (rule safe_mono) (rule self(4))
qed

lemma loop_held:
  assumes laws: "session_laws L" and cancel: "script_ok L p calls0 cancel"
  shows "holding L (st_call st) p calls0 h0 h \<Longrightarrow> \<forall>self. p = Some self \<longrightarrow> (\<forall>r \<in> set rounds. stream_round_ok L self calls0 r) \<Longrightarrow>
    safe (held L (st_call st) p calls0 h0) (streaming_loop L G cancel rounds st h w)"
proof (induction rounds arbitrary: st h w)
  case Nil
  obtain call where call: "hp_calls h (st_call st) = Some call" using Nil.prems(1) by (elim holdingE)
  show ?case
    unfolding streaming_loop.simps [of L G cancel "[]"] on_call_Some [of "hp_calls h" "st_call st" call, OF call]
      call_connection_ok [OF Nil.prems(1) call] Stream_Registry.and_then.simps list.case
    using note_broken_held [OF Nil.prems(1) refl] timed_out_held [OF laws Nil.prems(1) _ cancel] Nil.prems(1) by (auto split: option.split)
next
  case (Cons round rounds)
  obtain call where call: "hp_calls h (st_call st) = Some call" using Cons.prems(1) by (elim holdingE)
  note co = call_connection_ok [OF Cons.prems(1) call]
  have turn: "safe (held L (st_call st) p calls0 h0) (and_then (streaming_round L G (the p) cancel round st h w1) (\<lambda>(go_on, st, h, w).
      if go_on then streaming_loop L G cancel rounds st h w else Ok (st, h, w)))"
    if io: "connection_io_allowed (named_connection p h)" for w1
  proof -
    obtain self where self: "p = Some self" "steered L {} {} self (st_call st) h" "holding L (st_call st) (Some self) calls0 h0 h"
      "\<And>r. turned L self (st_call st) h r \<Longrightarrow> held L (st_call st) p calls0 h0 r" using turn_held [OF Cons.prems(1) io] by blast
    have sl: "same_links self calls0 (hp_calls h)" using self(3) by (simp add: holding_def)
    have s: "send_script_ok L self cancel (hp_calls h)" using holding_script [OF self(3)] cancel self(1) by simp
    have "stream_round_ok L self calls0 round" using Cons.prems(2) self(1) by simp
    then have r: "stream_round_ok L self (hp_calls h) round"
      using send_script_ok_links [OF _ sl] by (auto simp: stream_round_ok_def split: prod.splits)
    have d: "safe (\<lambda>(go_on, r). held L (st_call st) p calls0 h0 r) (streaming_round L G self cancel round st h w1)"
      by (rule safe_mono [OF round_turned [OF laws self(2) s r]]) (use self(1) holding_drives [OF self(3)] in auto)
    have more: "safe (held L (st_call st) p calls0 h0) (if go_on then streaming_loop L G cancel rounds st1 h1 w1 else Ok (st1, h1, w1))"
      if "held L (st_call st) p calls0 h0 (st1, h1, w1)" for go_on st1 h1 w1
      using Cons.IH [of st1 h1 w1] Cons.prems(2) that by simp
    have "safe (held L (st_call st) p calls0 h0) (and_then (streaming_round L G self cancel round st h w1) (\<lambda>(go_on, st, h, w).
      if go_on then streaming_loop L G cancel rounds st h w else Ok (st, h, w)))"
      by (rule safe_and_then [OF d], clarify, rule more, simp)
    then show ?thesis by (simp add: self(1))
  qed
  show ?case
    unfolding streaming_loop.simps [of L G cancel "round # rounds"] on_call_Some [of "hp_calls h" "st_call st" call, OF call]
      co Stream_Registry.and_then.simps list.case
    using note_broken_held [OF Cons.prems(1) refl] timed_out_held [OF laws Cons.prems(1) _ cancel] turn Cons.prems(1) by (auto split: option.split)
qed

section \<open>Terminating, finishing, cancelling\<close>

lemma free_queued_core [simp]: "call_core (free_queued_response_payloads call) = call_core call"
  by (simp add: free_queued_response_payloads_def call_core_def call_fixed_def)

lemma truncated_stream_core [simp]: "call_core (note_truncated_stream call) = call_core call"
  by (simp add: note_truncated_stream_def)

lemma take_response_core [simp]: "call_core (take_response rest payload call) = call_core call"
  by (simp add: take_response_def call_core_def call_fixed_def)

lemma cancel_and_detach_holding:
  assumes "session_laws L" "holding L k p calls0 h0 h" "script_ok L p calls0 s"
  shows "safe (\<lambda>(h', w'). holding L k p calls0 h0 h') (and_then (cancel_grpc_call_stream L s e k h w) (\<lambda>(h, w).
    and_then (detach_call_if_unusable k h) (\<lambda>h. Ok (h, w))))"
  by (rule safe_and_then [OF holding_cancel [OF assms]]) (auto intro: returns_and_then returns_safe [OF returns_and_then] dest: holding_detach)

lemma terminate_state:
  assumes laws: "session_laws L" and ho: "holding L (st_call st) p calls0 h0 h" and s: "script_ok L p calls0 cancel"
  shows "safe (\<lambda>(st', h', w'). st' = st\<lparr>st_completed := True\<rparr> \<and> holding L (st_call st) p calls0 h0 h') (server_streaming_call_terminate_with_cancel L cancel st h w)"
  unfolding server_streaming_call_terminate_with_cancel_def
proof (rule safe_and_then [OF returns_safe [OF holding_update [OF ho]]], simp)
  fix h1 assume ho1: "holding L (st_call st) p calls0 h0 h1"
  obtain call where call: "hp_calls h1 (st_call st) = Some call" using ho1 by (elim holdingE)
  show "safe (\<lambda>(st', h', w'). st' = st\<lparr>st_completed := True\<rparr> \<and> holding L (st_call st) p calls0 h0 h') (on_call (hp_calls h1) (st_call st) (\<lambda>call.
     and_then (if connection call \<noteq> None
        then and_then (cancel_grpc_call_stream L cancel NGHTTP2_CANCEL (st_call st) h1 w) (\<lambda>(h, w).
               and_then (detach_call_if_unusable (st_call st) h) (\<lambda>h. Ok (h, w)))
        else Ok (h1, w)) (\<lambda>(h, w). Ok (st\<lparr>st_completed := True\<rparr>, h, w))))"
    unfolding on_call_Some [of "hp_calls h1" "st_call st" call, OF call]
    by (rule safe_and_then [of "\<lambda>(h', w'). holding L (st_call st) p calls0 h0 h'"])
       (use cancel_and_detach_holding [OF laws ho1 s] ho1 in auto)
qed

lemma terminate_held:
  assumes "session_laws L" "holding L (st_call st) p calls0 h0 h" "script_ok L p calls0 cancel"
  shows "safe (held L (st_call st) p calls0 h0) (server_streaming_call_terminate_with_cancel L cancel st h w)"
  by (rule safe_mono [OF terminate_state [OF assms]]) auto

lemma reject_held:
  assumes laws: "session_laws L" and ho: "holding L (st_call st) p calls0 h0 h" and s: "script_ok L p calls0 cancel"
  shows "safe (held L (st_call st) p calls0 h0) (reject_failed_response L cancel st h w)"
proof -
  obtain call where call: "hp_calls h (st_call st) = Some call" using ho by (elim holdingE)
  have "safe (held L (st_call st) p calls0 h0) (and_then (server_streaming_call_terminate_with_cancel L cancel st h w) (\<lambda>(st, h, w).
         and_then (detach_call_if_unusable (st_call st) h) (\<lambda>h. Ok (st, h, w))))"
    by (rule safe_and_then [OF terminate_held [OF assms]]) (auto intro!: returns_safe [OF returns_and_then] dest: holding_detach)
  then show ?thesis unfolding reject_failed_response_def on_call_Some [of "hp_calls h" "st_call st" call, OF call] using ho by simp
qed

text \<open>The call has given up its connection.\<close>

definition let_go :: "'ss lib \<Rightarrow> call_id \<Rightarrow> conn_id option \<Rightarrow> 'ss heap \<Rightarrow> 'ss heap \<Rightarrow> bool" where
  "let_go L k p h0 h \<longleftrightarrow> heap_inv L {} {} h \<and> (\<exists>call. hp_calls h k = Some call \<and> connection call = None)
     \<and> (\<forall>j. j \<noteq> k \<longrightarrow> map_option call_fixed (hp_calls h j) = map_option call_fixed (hp_calls h0 j))
     \<and> (\<forall>j. p \<noteq> Some j \<longrightarrow> hp_conns h j = hp_conns h0 j)"

lemma clear_let_go:
  assumes laws: "session_laws L" and ho: "holding L k p calls0 h0 h"
  shows "returns (let_go L k p h0) (clear_connection_server_streaming_call_state_owner L k h)"
proof (cases p)
  case None
  obtain call where "hp_calls h k = Some call" "connection call = p" using ho by (elim holdingE)
  then show ?thesis using None ho by (simp add: clear_connection_server_streaming_call_state_owner_def let_go_def holding_def)
next
  case (Some self)
  obtain call where call: "heap_inv L {} {} h" "hp_calls h k = Some call" "connection call = Some self" "connection_owned call"
    using ho Some by (elim holdingE) simp
  have "user_data_laws L" using laws by (simp add: session_laws_def)
  from clear_streaming_inv [OF call(1) this call(2-4)] obtain h' where
    "clear_connection_server_streaming_call_state_owner L k h = Ok h'" "heap_inv L {} {} h'" "released k self h h'" by blast
  then show ?thesis using ho Some by (auto simp: let_go_def released_def holding_def)
qed

text \<open>Only a first attempt is offered for a retry.\<close>

definition first_attempt :: "conn_id option \<Rightarrow> call_store \<Rightarrow> call_id \<Rightarrow> bool" where
  "first_attempt p calls0 k \<longleftrightarrow> (\<forall>self call0. p = Some self \<longrightarrow> calls0 k = Some call0 \<longrightarrow> connection call0 = Some self \<longrightarrow> retry_attempt call0 = 0)"

lemma holding_first:
  assumes "holding L k p calls0 h0 h" "hp_calls h k = Some call" "retry_attempt call = 0"
  shows "first_attempt p calls0 k"
  unfolding first_attempt_def
proof (intro allI impI)
  fix self call0 assume a: "p = Some self" "calls0 k = Some call0" "connection call0 = Some self"
  have "same_links self calls0 (hp_calls h)" using assms(1) a(1) by (simp add: holding_def)
  then obtain c where "hp_calls h k = Some c" "retry_attempt c = retry_attempt call0" using a(2,3) unfolding same_links_def by blast
  then show "retry_attempt call0 = 0" using assms(2,3) by simp
qed

lemma finish_let_go:
  assumes laws: "session_laws L" and ho: "holding L (st_call st) p calls0 h0 h"
  shows "returns (\<lambda>(r, st', h'). (\<exists>s i t a. r = NextDone s i t a \<and> (transparent_retryable_unprocessed a \<longrightarrow> first_attempt p calls0 (st_call st)))
      \<and> st' = st\<lparr>st_completed := True\<rparr> \<and> let_go L (st_call st) p h0 h')
    (finish_stream L dec st h)"
  unfolding finish_stream_def
proof (rule returns_and_then [OF holding_update [OF ho]], simp)
  fix h1 assume ho1: "holding L (st_call st) p calls0 h0 h1"
  obtain call where call: "hp_calls h1 (st_call st) = Some call" using ho1 by (elim holdingE)
  show "returns (\<lambda>(r, st', h'). (\<exists>s i t a. r = NextDone s i t a \<and> (transparent_retryable_unprocessed a \<longrightarrow> first_attempt p calls0 (st_call st)))
      \<and> st' = st\<lparr>st_completed := True\<rparr> \<and> let_go L (st_call st) p h0 h')
    (on_call (hp_calls h1) (st_call st) (\<lambda>call. and_then (call_connection call h1) (\<lambda>co.
       (let st = st\<lparr>st_completed := True\<rparr>; r = server_streaming_call_fill_status_result dec co call st
        in and_then (clear_connection_server_streaming_call_state_owner L (st_call st) h1) (\<lambda>h. Ok (r, st, h))))))"
    unfolding on_call_Some [of "hp_calls h1" "st_call st" call, OF call] call_connection_ok [OF ho1 call] Stream_Registry.and_then.simps Let_def
    by (rule returns_and_then [of "let_go L (st_call st) p h0"])
       (use clear_let_go [OF laws ho1] holding_first [OF ho1 call] in
         \<open>simp_all add: server_streaming_call_fill_status_result_def grpc_lite_attempt_outcome_from_call_def Let_def\<close>)
qed

definition pulled ::
    "'ss lib \<Rightarrow> call_id \<Rightarrow> conn_id option \<Rightarrow> call_store \<Rightarrow> 'ss heap \<Rightarrow> streaming_next_result \<times> server_streaming_call_state \<times> 'ss heap \<times> io_world \<Rightarrow> bool" where
  "pulled L k p calls0 h0 r \<longleftrightarrow> (case r of (res, st', h', w') \<Rightarrow> st_call st' = k
     \<and> (case res of NextMessage m i \<Rightarrow> holding L k p calls0 h0 h' | NextDone s i t a \<Rightarrow> st_completed st' \<and> let_go L k p h0 h' \<and> (transparent_retryable_unprocessed a \<longrightarrow> first_attempt p calls0 k)))"

lemma next_pulled:
  assumes laws: "session_laws L" and ho: "holding L (st_call st) p calls0 h0 h"
    and s: "script_ok L p calls0 cancel" "script_ok L p calls0 reject" "\<forall>self. p = Some self \<longrightarrow> (\<forall>r \<in> set rounds. stream_round_ok L self calls0 r)"
  shows "safe (pulled L (st_call st) p calls0 h0) (server_streaming_call_next_resource_core L G dec (rounds, cancel, reject) st h w)"
  unfolding server_streaming_call_next_resource_core_def prod.case
proof (rule safe_and_then [OF loop_held [OF laws s(1) ho s(3)]], clarify)
  fix st1 :: server_streaming_call_state and h1 w1 assume 1: "st_call st1 = st_call st" "holding L (st_call st) p calls0 h0 h1"
  have ho1: "holding L (st_call st1) p calls0 h0 h1" using 1 by simp
  show "safe (pulled L (st_call st) p calls0 h0) (and_then (reject_failed_response L reject st1 h1 w1) (\<lambda>(st, h, w).
      on_call (hp_calls h) (st_call st) (\<lambda>call. case response_queue call of
          [] \<Rightarrow> and_then (finish_stream L dec st h) (\<lambda>(r, st, h). Ok (r, st, h, w))
        | payload # rest \<Rightarrow> (case deliver_message dec payload rest call st h of (r, st, h) \<Rightarrow> Ok (r, st, h, w)))))"
  proof (rule safe_and_then [OF reject_held [OF laws ho1 s(2)]], clarify)
    fix st2 :: server_streaming_call_state and h2 w2 assume 2: "st_call st2 = st_call st1" "holding L (st_call st1) p calls0 h0 h2"
    have k: "st_call st2 = st_call st" using 1 2 by simp
    have ho2: "holding L (st_call st2) p calls0 h0 h2" using 2 by simp
    obtain call where call: "hp_calls h2 (st_call st2) = Some call" using ho2 by (elim holdingE)
    have "safe (pulled L (st_call st) p calls0 h0) (and_then (finish_stream L dec st2 h2) (\<lambda>(r, st, h). Ok (r, st, h, w2)))"
      by (rule safe_and_then [OF returns_safe [OF finish_let_go [OF laws ho2]]]) (use k in \<open>auto simp: pulled_def\<close>)
    moreover have "holding L (st_call st2) p calls0 h0 (put_call (st_call st2) (take_response rest payload call) h2)" for rest payload
      using holding_update [OF ho2, of "take_response rest payload"] call by (simp add: update_call_def)
    ultimately show "safe (pulled L (st_call st) p calls0 h0) (on_call (hp_calls h2) (st_call st2) (\<lambda>call. case response_queue call of
          [] \<Rightarrow> and_then (finish_stream L dec st2 h2) (\<lambda>(r, st, h). Ok (r, st, h, w2))
        | payload # rest \<Rightarrow> (case deliver_message dec payload rest call st2 h2 of (r, st, h) \<Rightarrow> Ok (r, st, h, w2))))"
      unfolding on_call_Some [of "hp_calls h2" "st_call st2" call, OF call]
      using k by (cases "response_queue call") (simp_all add: deliver_message_def Let_def pulled_def)
  qed
qed

lemma cancel_resource_held:
  assumes laws: "session_laws L" and ho: "holding L (st_call st) p calls0 h0 h" and s: "script_ok L p calls0 script"
  shows "safe (\<lambda>(st', h', w'). st_call st' = st_call st \<and> (if (st', h', w') = (st, h, w) then True
      else st_completed st' \<and> st_cancelled st' \<and> let_go L (st_call st) p h0 h'))
    (server_streaming_call_cancel_resource L script st h w)"
proof -
  let ?post = "\<lambda>(st', h', w'). st_call st' = st_call st \<and> (if (st', h', w') = (st, h, w) then True
      else st_completed st' \<and> st_cancelled st' \<and> let_go L (st_call st) p h0 h')"
  have terminate: "safe ?post (and_then (server_streaming_call_terminate_with_cancel L script (st\<lparr>st_cancelled := True\<rparr>) h1 w) (\<lambda>(st, h, w).
      and_then (clear_connection_server_streaming_call_state_owner L (st_call st) h) (\<lambda>h. Ok (st, h, w))))"
    if h1: "holding L (st_call st) p calls0 h0 h1" for h1
  proof -
    have ho1: "holding L (st_call (st\<lparr>st_cancelled := True\<rparr>)) p calls0 h0 h1" using h1 by simp
    have t: "safe (\<lambda>(st', h', w'). st' = st\<lparr>st_cancelled := True, st_completed := True\<rparr> \<and> holding L (st_call st) p calls0 h0 h')
        (server_streaming_call_terminate_with_cancel L script (st\<lparr>st_cancelled := True\<rparr>) h1 w)"
      by (rule safe_mono [OF terminate_state [OF laws ho1 s]]) auto
    show ?thesis
      by (rule safe_and_then [OF t], clarify, rule safe_and_then [OF returns_safe [OF clear_let_go [OF laws]]]) auto
  qed
  obtain call where call: "hp_calls h (st_call st) = Some call" using ho by (elim holdingE)
  have "safe ?post (and_then (update_call (st_call st) (\<lambda>call. call\<lparr>grpc_status := GRPC_STATUS_CANCELLED\<rparr>) h) (\<lambda>h.
         and_then (server_streaming_call_terminate_with_cancel L script (st\<lparr>st_cancelled := True\<rparr>) h w) (\<lambda>(st, h, w).
         and_then (clear_connection_server_streaming_call_state_owner L (st_call st) h) (\<lambda>h. Ok (st, h, w)))))"
    by (rule safe_and_then [OF returns_safe [OF holding_update [OF ho]]], simp, rule terminate)
  then show ?thesis
    unfolding server_streaming_call_cancel_resource_def on_call_Some [of "hp_calls h" "st_call st" call, OF call]
      call_connection_ok [OF ho call] Stream_Registry.and_then.simps by simp
qed

section \<open>Destroying a state\<close>

definition gone :: "'ss lib \<Rightarrow> call_id \<Rightarrow> conn_id option \<Rightarrow> 'ss heap \<Rightarrow> 'ss heap \<Rightarrow> bool" where
  "gone L k p h0 h \<longleftrightarrow> heap_inv L {} {} h \<and> hp_calls h k = None
     \<and> (\<forall>j. j \<noteq> k \<longrightarrow> map_option call_fixed (hp_calls h j) = map_option call_fixed (hp_calls h0 j))
     \<and> (\<forall>j. p \<noteq> Some j \<longrightarrow> hp_conns h j = hp_conns h0 j)"

lemma free_let_go:
  assumes "let_go L k p h0 h"
  shows "returns (gone L k p h0) (free_call k h)"
proof -
  obtain call where call: "heap_inv L {} {} h" "hp_calls h k = Some call" "connection call = None" using assms by (auto simp: let_go_def)
  have nl: "\<not> listed j call" for j using call(3) by (simp add: listed_def)
  have "links_ok {} h" using call(1) by (simp add: heap_inv_def heap_ok_def)
  then have no: "\<not> connection_owned call" using call(2,3) unfolding links_ok_def by (metis option.distinct(1))
  have "heap_inv L {k} {} h" using call(1) by (rule heap_inv_mono) simp_all
  from unlinked_call_inv [OF this call(2) no nl, of None] have "heap_inv L {} {} (h\<lparr>hp_calls := (hp_calls h)(k := None)\<rparr>)" by simp
  then show ?thesis using assms call(2) by (auto simp: free_call_def gone_def let_go_def)
qed

lemma release_and_free:
  assumes "returns (let_go L k p h0) (clear_connection_server_streaming_call_state_owner L k h)"
  shows "returns (\<lambda>(h', w'). gone L k p h0 h') (and_then (clear_connection_server_streaming_call_state_owner L k h) (\<lambda>h.
    and_then (free_call k h) (\<lambda>h. Ok (h, w))))"
  by (rule returns_and_then [OF assms], rule returns_and_then [OF free_let_go]) auto

lemma destroy_held:
  assumes laws: "session_laws L" and ho: "holding L (st_call st) p calls0 h0 h" and s: "script_ok L p calls0 script"
  shows "safe (\<lambda>(h', w'). gone L (st_call st) p h0 h') (destroy_server_streaming_call_state L script st h w)"
proof -
  obtain call where call: "hp_calls h (st_call st) = Some call" using ho by (elim holdingE)
  have c: "safe (\<lambda>(h', w'). holding L (st_call st) p calls0 h0 h') (if b
      then and_then (cancel_active_server_streaming_call_state L script NGHTTP2_CANCEL st h w) (\<lambda>(h, w).
             and_then (detach_call_if_unusable (st_call st) h) (\<lambda>h. Ok (h, w)))
      else Ok (h, w))" for b
  proof -
    have "safe (\<lambda>(h', w'). holding L (st_call st) p calls0 h0 h') (and_then (detach_call_if_unusable (st_call st) h) (\<lambda>h. Ok (h, w)))"
      by (rule safe_and_then [OF returns_safe [OF holding_detach [OF ho]]]) simp
    then have "safe (\<lambda>(h', w'). holding L (st_call st) p calls0 h0 h')
      (and_then (cancel_active_server_streaming_call_state L script NGHTTP2_CANCEL st h w) (\<lambda>(h, w).
             and_then (detach_call_if_unusable (st_call st) h) (\<lambda>h. Ok (h, w))))"
      unfolding cancel_active_server_streaming_call_state_def on_call_Some [of "hp_calls h" "st_call st" call, OF call]
      using cancel_and_detach_holding [OF laws ho s] by simp
    then show ?thesis using ho by simp
  qed
  show ?thesis
    unfolding destroy_server_streaming_call_state_def on_call_Some [of "hp_calls h" "st_call st" call, OF call]
      call_connection_ok [OF ho call] Stream_Registry.and_then.simps
    by (rule safe_and_then [OF c], clarify, rule returns_safe [OF release_and_free [OF clear_let_go [OF laws]]])
qed

text \<open>A state whose stream was never registered.\<close>

lemma detach_uncached:
  assumes "\<not> cached h self"
  shows "detach_persistent_connection_by_ptr self h = Ok h"
proof (cases "entry_of_connection self (hp_cache h)")
  case (Some r)
  obtain key e where "r = (key, e)" by fastforce
  then show ?thesis using entry_of_connection_Some [of self "hp_cache h" key e] Some assms unfolding cached_def by blast
qed (simp add: detach_persistent_connection_by_ptr_def)

lemma kept_alive_cached: "kept_alive {self} h \<Longrightarrow> cached h self \<Longrightarrow> kept_alive {} h"
  unfolding kept_alive_def by blast

lemma detach_pending:
  assumes inv: "heap_inv L X {self} h" and c: "hp_conns h self = Some c" "cached h self \<or> h2_detached_from_cache c"
  shows "\<exists>h' c'. detach_if_unusable self h = Ok h' \<and> heap_inv L X {self} h' \<and> hp_calls h' = hp_calls h
    \<and> hp_conns h' = (hp_conns h)(self \<mapsto> c') \<and> (cached h' self \<or> h2_detached_from_cache c')"
proof (cases "cached h self")
  case True
  have "heap_inv L X {} h" using inv kept_alive_cached [OF _ True] by (simp add: heap_inv_def)
  from detach_if_unusable_inv [OF this c(1)] show ?thesis by blast
next
  case False
  then have "detach_if_unusable self h = Ok h" using detach_uncached [OF False] c(1) by (simp add: detach_if_unusable_def)
  then show ?thesis using inv c by (auto intro!: exI [of _ c] simp: fun_upd_idem)
qed

lemma clear_unlinked:
  assumes inv: "heap_inv L {k} {self} h" and k: "hp_calls h k = Some call" "connection call = Some self" "unlinked call"
    and c: "hp_conns h self = Some c" "cached h self \<or> h2_detached_from_cache c"
  shows "returns (let_go L k (Some self) h) (clear_connection_server_streaming_call_state_owner L k h)"
proof -
  obtain h1 c1 where h1: "detach_if_unusable self h = Ok h1" "heap_inv L {k} {self} h1" "hp_calls h1 = hp_calls h"
    "hp_conns h1 = (hp_conns h)(self \<mapsto> c1)" "cached h1 self \<or> h2_detached_from_cache c1" using detach_pending [OF inv c] by blast
  have k1: "hp_calls h1 k = Some call" and c1: "hp_conns h1 self = Some c1" using h1(3,4) k(1) by simp_all
  have no: "\<not> connection_owned call" "\<And>j. \<not> listed j call" using k(3) unlinked_not_listed by (auto simp: unlinked_def)
  define h2 where "h2 = put_call k (call\<lparr>connection := None\<rparr>) h1"
  have h2: "forget_connection k h1 = Ok h2" "heap_inv L {} {self} h2" using forget_inv [OF h1(2) k1 no] by (simp_all add: h2_def)
  have c2: "hp_conns h2 self = Some c1" "cached h2 self \<or> h2_detached_from_cache c1" using c1 h1(5) by (simp_all add: h2_def cached_def)
  obtain h3 where h3: "destroy_detached_connection_if_unowned self h2 = Ok h3" "heap_inv L {} {} h3" "hp_calls h3 = hp_calls h2"
    "\<forall>j. j \<noteq> self \<longrightarrow> hp_conns h3 j = hp_conns h2 j" using destroy_if_unowned_inv [OF h2(2) c2] by auto
  have "clear_connection_server_streaming_call_state_owner L k h = Ok h3"
    using clear_streaming_split [OF k(1,2) c(1) h1(1) k1, of L] end_unlinked(2) [OF h1(2) k1 k(2,3) c1 h1(5)] h2(1) h3(1) by simp
  moreover have "let_go L k (Some self) h h3" using h3 h1(3,4) by (auto simp: let_go_def h2_def)
  ultimately show ?thesis by simp
qed

lemma destroy_unlinked:
  assumes inv: "heap_inv L {st_call st} {self} h" and k: "hp_calls h (st_call st) = Some call" "connection call = Some self" "unlinked call"
    and c: "hp_conns h self = Some c" "cached h self \<or> h2_detached_from_cache c"
    and quiet: "connection_io_allowed (Some c) \<Longrightarrow> stream_id call \<le> 0"
  shows "returns (\<lambda>(h', w'). gone L (st_call st) (Some self) h h') (destroy_server_streaming_call_state L script st h w)"
proof -
  have "call_connection call h = Ok (Some c)" using k(2) c(1) by (simp add: call_connection_def)
  then show ?thesis
    unfolding destroy_server_streaming_call_state_def on_call_Some [of "hp_calls h" "st_call st" call, OF k(1)]
    using release_and_free [OF clear_unlinked [OF inv k c], of w] quiet by (auto simp: not_less)
qed

section \<open>Opening is safe\<close>

definition opened :: "'ss lib \<Rightarrow> call_id \<Rightarrow> nat \<Rightarrow> 'ss heap \<Rightarrow> open_result \<times> 'ss heap \<times> io_world \<Rightarrow> bool" where
  "opened L k n h0 r \<longleftrightarrow> (case r of (res, h', w') \<Rightarrow> heap_inv L {} {} h'
     \<and> (\<forall>j. j \<noteq> k \<longrightarrow> map_option call_fixed (hp_calls h' j) = map_option call_fixed (hp_calls h0 j))
     \<and> (case res of
          Opened st \<Rightarrow> st = \<lparr>st_call = k, st_delivered_messages = 0, st_completed = False, st_cancelled = False\<rparr>
            \<and> (\<exists>call self. hp_calls h' k = Some call \<and> connection call = Some self \<and> connection_io_allowed (hp_conns h' self)
                \<and> retry_attempt call = n)
        | SetupFailed e \<Rightarrow> hp_calls h' k = None
        | OpenThrew e \<Rightarrow> hp_calls h' k = None))"

definition refusal :: "open_result \<Rightarrow> bool" where
  "refusal r \<longleftrightarrow> (\<forall>st. r \<noteq> Opened st)"

lemma refusals [simp]: "refusal (setup_failed sf code m)" "refusal (OpenThrew e)"
  by (simp_all add: refusal_def setup_failed_def)

lemma gone_opened:
  assumes "gone L k p h h'" "\<forall>j. j \<noteq> k \<longrightarrow> map_option call_fixed (hp_calls h j) = map_option call_fixed (hp_calls h0 j)" "refusal r"
  shows "opened L k n h0 (r, h', w')"
  using assms by (cases r) (auto simp: opened_def gone_def refusal_def)

lemma open_failed_opened:
  assumes "safe (\<lambda>(h', w'). gone L k p h h') (destroy_server_streaming_call_state L script st h w)"
    and "\<forall>j. j \<noteq> k \<longrightarrow> map_option call_fixed (hp_calls h j) = map_option call_fixed (hp_calls h0 j)" "refusal r"
  shows "safe (opened L k n h0) (open_failed L script st r h w)"
  unfolding open_failed_def
proof (rule safe_and_then [OF assms(1)], clarify)
  fix h' w' assume "gone L k p h h'"
  from gone_opened [OF this assms(2,3)] show "safe (opened L k n h0) (Ok (r, h', w'))" by simp
qed

lemma open_failed_unlinked:
  assumes inv: "heap_inv L {k} {self} h" and k: "hp_calls h k = Some call" "connection call = Some self" "unlinked call"
    and c: "hp_conns h self = Some c" "cached h self \<or> h2_detached_from_cache c"
    and quiet: "connection_io_allowed (Some c) \<Longrightarrow> stream_id call \<le> 0" and st: "st_call st = k"
    and fr: "framed self k h0 h" and r: "refusal r"
  shows "safe (opened L k n h0) (open_failed L script st r h w)"
proof -
  have "returns (\<lambda>(h', w'). gone L k (Some self) h h') (destroy_server_streaming_call_state L script st h w)"
    using destroy_unlinked [of L st self h call c script w] assms by simp
  then show ?thesis using fr by (intro open_failed_opened [OF returns_safe _ r]) (auto simp: framed_def)
qed

lemma open_failed_pending:
  assumes p: "pending L self k h0 h" and st: "st_call st = k" and r: "refusal r"
    and quiet: "\<And>call. hp_calls h k = Some call \<Longrightarrow> connection_io_allowed (hp_conns h self) \<Longrightarrow> stream_id call \<le> 0"
  shows "safe (opened L k n h0) (open_failed L script st r h w)"
proof -
  obtain c call where pe: "heap_inv L {k} {} h" "hp_conns h self = Some c" "hp_calls h k = Some call"
    "connection call = Some self" "unlinked call" "cached h self" "framed self k h0 h" using p by (elim pendingE)
  have i: "heap_inv L {k} {self} h" using pe(1) by (rule heap_inv_mono) simp_all
  show ?thesis by (rule open_failed_unlinked [OF i pe(3-5,2) _ _ st pe(7) r]) (use pe quiet in auto)
qed

lemma drop_pending:
  assumes p: "pending L self k h0 h" and st: "st_call st = k" and r: "refusal r"
    and quiet: "\<not> connection_io_allowed (hp_conns h self)"
  shows "safe (opened L k n h0) (and_then (detach_persistent_connection_by_ptr self h) (\<lambda>h. open_failed L script st r h w))"
proof -
  obtain c call where pe: "heap_inv L {k} {} h" "hp_conns h self = Some c" "hp_calls h k = Some call"
    "connection call = Some self" "unlinked call" "cached h self" "framed self k h0 h" using p by (elim pendingE)
  obtain h1 where h1: "detach_persistent_connection_by_ptr self h = Ok h1" "heap_inv L {k} {self} h1" "hp_calls h1 = hp_calls h"
    "hp_conns h1 = (hp_conns h)(self \<mapsto> c\<lparr>h2_detached_from_cache := True\<rparr>)" "set (hp_cache h1) \<subseteq> set (hp_cache h)" using detach_inv [OF pe(1,2)] by auto
  define c1 where "c1 = c\<lparr>h2_detached_from_cache := True\<rparr>"
  have fr: "framed self k h0 h1" using pe(7) h1(3-5) by (auto simp: framed_def)
  have k1: "hp_calls h1 k = Some call" "hp_conns h1 self = Some c1" using h1(3,4) pe(3) by (simp_all add: c1_def)
  have d1: "h2_detached_from_cache c1" "\<not> connection_io_allowed (Some c1)" using quiet pe(2) by (simp_all add: connection_io_allowed_def c1_def)
  have "safe (opened L k n h0) (open_failed L script st r h1 w)"
    by (rule open_failed_unlinked [OF h1(2) k1(1) pe(4,5) k1(2) _ _ st fr r]) (use d1 in simp_all)
  then show ?thesis using h1(1) by simp
qed

lemma going_holding:
  assumes "going L self k calls0 h0 h"
  shows "holding L k (Some self) calls0 h h"
  using assms by (auto simp: holding_def going_def steered_def)

lemma going_retry:
  assumes p: "pending L self k h0 h" and n: "\<And>call. hp_calls h k = Some call \<Longrightarrow> retry_attempt call = n"
    and g: "going L self k (hp_calls h) h0 h'" and k: "hp_calls h' k = Some call'"
  shows "retry_attempt call' = n"
proof -
  obtain call where call: "hp_calls h k = Some call" "connection call = Some self" using p by (elim pendingE)
  have "same_links self (hp_calls h) (hp_calls h')" using g by (simp add: going_def)
  then obtain c' where "hp_calls h' k = Some c'" "retry_attempt c' = retry_attempt call" using call unfolding same_links_def by blast
  then show ?thesis using n [OF call(1)] k by simp
qed

lemma streaming_submit_safe:
  assumes laws: "session_laws L" "submit_laws L" and p: "pending L self k h0 h" and us: "connection_usable (hp_conns h self)"
    and s: "send_script_ok L self (os_initial script self) (hp_calls h)" "send_script_ok L self (os_cancel script self) (hp_calls h)"
    and st: "st = \<lparr>st_call = k, st_delivered_messages = 0, st_completed = False, st_cancelled = False\<rparr>"
    and n: "\<And>call. hp_calls h k = Some call \<Longrightarrow> retry_attempt call = n"
  shows "safe (opened L k n h0) (streaming_submit L sf script self nva st h w)"
  unfolding streaming_submit_def st server_streaming_call_state.simps
proof (rule safe_and_then [OF returns_safe [OF submit_pending [OF laws p us]]], unfold st [symmetric], clarify)
  fix h1 call assume p1: "pending L self k h0 h1" and l: "same_links self (hp_calls h) (hp_calls h1)" and call: "hp_calls h1 k = Some call"
  have k: "st_call st = k" using st by simp
  have fatal: "safe (opened L k n h0) (and_then (and_then (kill_connection L self sid h1) (detach_persistent_connection_by_ptr self))
      (\<lambda>h. open_failed L s st (setup_failed sf code m) h w))" for s sid code m
    unfolding and_then_assoc by (rule safe_and_then [OF returns_safe [OF kill_pending [OF laws(1) p1]]]) (elim conjE, rule drop_pending [OF _ k], simp_all)
  have plain: "safe (opened L k n h0) (open_failed L s st (setup_failed sf code m) h1 w)" if "stream_id call < 0" for s code m
    by (rule open_failed_pending [OF p1 k]) (use call that in simp_all)
  have killed: "safe (opened L k n h0) (and_then (kill_connection L self rv h2) (\<lambda>h. open_failed L (os_cancel script self) st r h w2))"
    if g: "going L self k (hp_calls h) h0 h2" and r: "refusal r" for h2 rv r w2
  proof (rule safe_and_then [OF returns_safe [OF kill_drives [OF going_steered [OF g]]]])
    show "rst_laws L" using laws by (simp add: session_laws_def)
    fix h3 assume "drives L self h2 h3"
    then have g3: "going L self k (hp_calls h) h0 h3" using g going_drives by blast
    have "holding L (st_call st) (Some self) (hp_calls h) h3 h3" using going_holding [OF g3] k by simp
    moreover have "script_ok L (Some self) (hp_calls h) (os_cancel script self)" using s by (simp add: script_ok_def)
    ultimately have "safe (\<lambda>(h', w'). gone L k (Some self) h3 h') (destroy_server_streaming_call_state L (os_cancel script self) st h3 w2)"
      using destroy_held [OF laws(1)] k by blast
    then show "safe (opened L k n h0) (open_failed L (os_cancel script self) st r h3 w2)"
      by (rule open_failed_opened [OF _ _ r]) (use g3 in \<open>simp add: going_def framed_def\<close>)
  qed
  have sent: "safe (opened L k n h0) (and_then (send_frames L self k (os_initial script self) h2 w) (\<lambda>(rv, h, w).
      if rv \<noteq> 0 then
        on_call (hp_calls h) k (\<lambda>call. and_then (kill_connection L self rv h) (\<lambda>h.
          open_failed L (os_cancel script self) st (if timed_out call then setup_failed sf a m else setup_failed sf b m2) h w))
      else Ok (Opened st, h, w)))" if g: "going L self k (hp_calls h) h0 h2" for h2 a b m m2
  proof (rule safe_and_then [OF send_drives [OF laws(1) going_steered [OF g] going_script [OF g s(1)]]], clarify)
    fix rv :: int and h3 w3 assume d: "drives L self h2 h3" "(rv = 0) = connection_io_allowed (hp_conns h3 self)"
    have g3: "going L self k (hp_calls h) h0 h3" using going_drives [OF g d(1)] .
    then obtain call3 where call3: "heap_inv L {} {} h3" "hp_calls h3 k = Some call3" "connection call3 = Some self" "framed self k h0 h3" by (elim goingE)
    have "retry_attempt call3 = n" by (rule going_retry [OF p n g3 call3(2)])
    then have "opened L k n h0 (Opened st, h3, w3)" if "rv = 0" using that d(2) call3 st by (auto simp: opened_def framed_def)
    then show "safe (opened L k n h0) (if rv \<noteq> 0 then
        on_call (hp_calls h3) k (\<lambda>call. and_then (kill_connection L self rv h3) (\<lambda>h.
          open_failed L (os_cancel script self) st (if timed_out call then setup_failed sf a m else setup_failed sf b m2) h w3))
      else Ok (Opened st, h3, w3))" using killed [OF g3] call3(2) by simp
  qed
  have unregistered: "safe (opened L k n h0) (open_failed L s st (setup_failed sf code m) h2 w)"
    if "pending L self k h0 h2" "\<not> connection_io_allowed (hp_conns h2 self)" for s code m h2
    by (rule open_failed_pending [OF that(1) k]) (use that(2) in simp_all)
  have reg: "safe (opened L k n h0) (and_then (register_call L self k h1) (\<lambda>(ok, h).
     if \<not> ok then open_failed L (os_cancel script self) st (setup_failed sf GRPC_STATUS_UNAVAILABLE ''failed to register HTTP/2 stream'') h w
     else and_then (send_frames L self k (os_initial script self) h w) (\<lambda>(rv, h, w).
     if rv \<noteq> 0 then
       on_call (hp_calls h) k (\<lambda>call. and_then (kill_connection L self rv h) (\<lambda>h. open_failed L (os_cancel script self) st
         (if timed_out call then setup_failed sf GRPC_STATUS_DEADLINE_EXCEEDED ''HTTP/2 transport deadline exceeded''
          else setup_failed sf GRPC_STATUS_UNAVAILABLE ''nghttp2_session_send failed'') h w))
     else Ok (Opened st, h, w))))"
    by (rule safe_and_then [OF returns_safe [OF register_pending [OF laws(1) p1 l]]], clarify)
       (use sent unregistered in \<open>simp split: if_splits\<close>)
  show "safe (opened L k n h0) (if stream_id call < 0 then
       and_then (if nghttp2_is_fatal L (stream_id call)
                 then and_then (kill_connection L self (stream_id call) h1) (detach_persistent_connection_by_ptr self) else Ok h1) (\<lambda>h.
       open_failed L (os_cancel script self) st (setup_failed sf GRPC_STATUS_UNAVAILABLE ''nghttp2_submit_request failed'') h w)
     else and_then (register_call L self k h1) (\<lambda>(ok, h).
     if \<not> ok then open_failed L (os_cancel script self) st (setup_failed sf GRPC_STATUS_UNAVAILABLE ''failed to register HTTP/2 stream'') h w
     else and_then (send_frames L self k (os_initial script self) h w) (\<lambda>(rv, h, w).
     if rv \<noteq> 0 then
       on_call (hp_calls h) k (\<lambda>call. and_then (kill_connection L self rv h) (\<lambda>h. open_failed L (os_cancel script self) st
         (if timed_out call then setup_failed sf GRPC_STATUS_DEADLINE_EXCEEDED ''HTTP/2 transport deadline exceeded''
          else setup_failed sf GRPC_STATUS_UNAVAILABLE ''nghttp2_session_send failed'') h w))
     else Ok (Opened st, h, w))))"
    using fatal plain reg by (cases "nghttp2_is_fatal L (stream_id call)") simp_all
qed

lemma open_on_connection_safe:
  assumes laws: "session_laws L" "submit_laws L" and inv: "heap_inv L {} {} h" and k: "hp_calls h k = None"
    and c: "hp_conns h self = Some c" "connection_usable (Some c)" "\<not> h2_detached_from_cache c"
    and s: "send_script_ok L self (os_initial script self) ((hp_calls h)(k \<mapsto> new_call self 0 R))"
      "send_script_ok L self (os_cancel script self) ((hp_calls h)(k \<mapsto> new_call self 0 R))"
  shows "safe (opened L k (rq_retry_attempt R) h) (open_on_connection L enc sf script self k R h w)"
proof -
  define h1 where "h1 = put_call k (new_call self 0 R) h"
  define st where "st = \<lparr>st_call = k, st_delivered_messages = 0, st_completed = False, st_cancelled = False\<rparr>"
  have p: "pending L self k h h1"
    using new_call_steered [OF inv c(1,2) k, of "new_call self 0 R"] new_call_wf [of self 0 R] c(1,3)
    by (simp add: pending_def h1_def framed_def)
  have us: "connection_usable (hp_conns h1 self)" using c by (simp add: h1_def)
  have s1: "send_script_ok L self (os_initial script self) (hp_calls h1)" "send_script_ok L self (os_cancel script self) (hp_calls h1)"
    using s by (simp_all add: h1_def)
  have st': "st_call st = k" by (simp add: st_def)
  have n: "retry_attempt call = rq_retry_attempt R" if "hp_calls h1 k = Some call" for call using that by (auto simp: h1_def)
  have ab: "opened L k (rq_retry_attempt R) h (setup_failed sf code m, h, w1)" for code m w1
    using inv k by (simp add: opened_def setup_failed_def)
  have "stream_id (new_call self 0 R) = 0" by (simp add: new_call_def grpc_protocol_set_message_header_def grpc_call_zero_def)
  then have ref: "safe (opened L k (rq_retry_attempt R) h) (open_failed L s st r h1 w1)" if "refusal r" for r s w1
    by (intro open_failed_pending [OF p st' that]) (simp add: h1_def)
  have prep: "safe (opened L k (rq_retry_attempt R) h) (and_then (prepare_request enc R c w1) (\<lambda>(p, w).
      case p of
        PrepareTimedOut \<Rightarrow> open_failed L (os_cancel script self) st (setup_failed sf GRPC_STATUS_DEADLINE_EXCEEDED ''HTTP/2 transport deadline exceeded'') h1 w
      | PrepareRefused e \<Rightarrow> open_failed L (os_cancel script self) st (OpenThrew e) h1 w
      | Prepared nva \<Rightarrow> streaming_submit L sf script self nva st h1 w))" for w1
    by (rule safe_and_then [OF prepare_safe], clarify)
       (use ref streaming_submit_safe [OF laws p us s1 st_def, of "rq_retry_attempt R"] n in \<open>simp split: prepared.split\<close>)
  show ?thesis unfolding open_on_connection_def on_conn_Some [OF c(1)] Let_def h1_def [symmetric] st_def [symmetric]
    using ab prep by (simp split: option.split)
qed

lemma same_links_fixed:
  assumes "\<And>i. map_option call_fixed (calls' i) = map_option call_fixed (calls i)"
  shows "same_links j (calls(k \<mapsto> call)) (calls'(k \<mapsto> call))"
  unfolding same_links_def
proof (intro allI impI)
  fix i c assume "(calls(k \<mapsto> call)) i = Some c" "connection c = Some j"
  then show "\<exists>c'. (calls'(k \<mapsto> call)) i = Some c' \<and> connection c' = Some j \<and> retry_attempt c' = retry_attempt c"
    using assms [of i] by (cases "i = k"; cases "calls' i") (auto simp: call_fixed_def)
qed

lemma open_safe:
  assumes laws: "session_laws L" "submit_laws L" "setup_laws L (su_h2 S)" "su_preface S = (evs, adv, rv0)" "adv_ok L adv"
      "\<And>k f l p. SendData k f l p \<notin> set evs"
    and inv: "heap_inv L {} {} h" and fresh: "hp_conns h fresh = None" "hp_calls h k = None"
    and s: "\<And>e. cache_find key h = Some e \<Longrightarrow> \<forall>r \<in> set (os_preflight script). round_ok L (pe_connection e) (hp_calls h) r"
      "\<And>j. send_script_ok L j (os_initial script j) ((hp_calls h)(k \<mapsto> new_call j 0 R))"
      "\<And>j. send_script_ok L j (os_cancel script j) ((hp_calls h)(k \<mapsto> new_call j 0 R))"
  shows "safe (opened L k (rq_retry_attempt R) h) (server_streaming_call_open_resource L G enc S T key sf script fresh k R h w)"
proof -
  have threw: "opened L k (rq_retry_attempt R) h (OpenThrew e, h, w1)" for e w1 using inv fresh by (simp add: opened_def)
  let ?got = "\<lambda>(r, h, w). case r of
          Inr (self, reused) \<Rightarrow> open_on_connection L enc sf script self k R h w
        | Inl message \<Rightarrow>
            if \<not> sf then Ok (OpenThrew message, h, w)
            else case no_connection_code (rq_deadline_abs_us R) message w of
                   None \<Rightarrow> Blocked
                 | Some (code, w) \<Rightarrow> Ok (SetupFailed \<lparr>sr_code = code, sr_details = message\<rparr>, h, w)"
  have got: "safe (opened L k (rq_retry_attempt R) h) (?got r)" if ob: "obtained L key h r" for r
  proof -
    obtain res h1 w1 where r: "r = (res, h1, w1)" by (metis surj_pair)
    have o1: "heap_inv L {} {} h1" "\<And>i. map_option call_fixed (hp_calls h1 i) = map_option call_fixed (hp_calls h i)"
      using ob r by (auto simp: obtained_def)
    have k1: "hp_calls h1 k = None" using o1(2) [of k] fresh(2) by simp
    have failed: "opened L k (rq_retry_attempt R) h (OpenThrew e, h1, w2)" "opened L k (rq_retry_attempt R) h (SetupFailed f, h1, w2)" for e f w2
      using o1 k1 by (simp_all add: opened_def)
    show ?thesis
    proof (cases res)
      case (Inl message)
      then show ?thesis using r failed by (auto split: option.split)
    next
      case (Inr x)
      obtain j reused where x: "x = (j, reused)" by fastforce
      then obtain e c where c: "cache_find key h1 = Some e" "pe_connection e = j" "hp_conns h1 j = Some c" "connection_usable (Some c)"
        using ob r Inr by (auto simp: obtained_def)
      have "cache_ok h1" using o1(1) by (simp add: heap_inv_def heap_ok_def)
      then have nd: "\<not> h2_detached_from_cache c" using cached_live cache_find_entry(2) c(1-3) by fastforce
      note lk = send_script_ok_links [OF _ same_links_fixed [of "hp_calls h1" "hp_calls h" j k "new_call j 0 R", OF o1(2)]]
      have "safe (opened L k (rq_retry_attempt R) h1) (open_on_connection L enc sf script j k R h1 w1)"
        by (rule open_on_connection_safe [OF laws(1,2) o1(1) k1 c(3,4) nd lk [OF s(2)] lk [OF s(3)]])
      then have "safe (opened L k (rq_retry_attempt R) h) (open_on_connection L enc sf script j k R h1 w1)"
        by (rule safe_mono) (use o1(2) in \<open>auto simp: opened_def split: open_result.splits\<close>)
      then show ?thesis using r Inr x by simp
    qed
  qed
  have "safe (opened L k (rq_retry_attempt R) h) (and_then (get_persistent_connection L G S T key (rq_deadline_abs_us R) (os_preflight script) fresh h w) ?got)"
    by (rule safe_and_then [OF obtain_safe [OF laws(1,3-6) inv fresh(1) s(1)]], assumption) (rule got)
  then show ?thesis unfolding server_streaming_call_open_resource_def using threw by (simp split: option.split)
qed

section \<open>What a pull returns\<close>

text \<open>A call without the fields that tie it to its connection.\<close>

definition loose_view :: "grpc_call \<Rightarrow> grpc_call" where
  "loose_view call = call\<lparr>next_active_stream := None, stream_registered := False, connection_owned := False, connection := None\<rparr>"

lemma loose_view_simps [simp]:
  "grpc_lite_status_code_from_call (loose_view call) b = grpc_lite_status_code_from_call call b"
  "grpc_protocol_copy_metadata_map dec (loose_view call) b = grpc_protocol_copy_metadata_map dec call b"
  "grpc_lite_attempt_outcome_from_call (Some (loose_view call)) b = grpc_lite_attempt_outcome_from_call (Some call) b"
  "response_queue (loose_view call) = response_queue call"
  "note_truncated_stream (loose_view call) = loose_view (note_truncated_stream call)"
  by (simp_all add: loose_view_def grpc_lite_status_code_from_call_def grpc_protocol_copy_metadata_map_def
      grpc_lite_attempt_outcome_from_call_def grpc_lite_call_response_started_def grpc_lite_refused_kind_from_call_def note_truncated_stream_def)

lemma loose_view_eqD:
  assumes "loose_view a = loose_view b"
  shows "grpc_lite_status_code_from_call a x = grpc_lite_status_code_from_call b x"
    "grpc_protocol_copy_metadata_map dec a y = grpc_protocol_copy_metadata_map dec b y"
    "grpc_lite_attempt_outcome_from_call (Some a) z = grpc_lite_attempt_outcome_from_call (Some b) z"
    "response_queue a = response_queue b" "loose_view (note_truncated_stream a) = loose_view (note_truncated_stream b)"
  using loose_view_simps(1) [of a x] loose_view_simps(1) [of b x] loose_view_simps(2) [of dec a y] loose_view_simps(2) [of dec b y]
    loose_view_simps(3) [of a z] loose_view_simps(3) [of b z] loose_view_simps(4) [of a] loose_view_simps(4) [of b]
    loose_view_simps(5) [of a] loose_view_simps(5) [of b] assms by simp_all

lemma truncated_stream_idem [simp]: "note_truncated_stream (note_truncated_stream call) = note_truncated_stream call"
  by (simp add: note_truncated_stream_def)

lemma truncated_stream_queue [simp]: "response_queue (note_truncated_stream call) = response_queue call"
  by (simp add: note_truncated_stream_def)

lemma free_queued_simps [simp]:
  "grpc_lite_status_code_from_call (free_queued_response_payloads call) b = grpc_lite_status_code_from_call call b"
  "grpc_protocol_copy_metadata_map dec (free_queued_response_payloads call) b = grpc_protocol_copy_metadata_map dec call b"
  "response_queue call = [] \<Longrightarrow> grpc_lite_attempt_outcome_from_call (Some (free_queued_response_payloads call)) b
     = grpc_lite_attempt_outcome_from_call (Some call) b"
  "response_queue (free_queued_response_payloads call) = []" "connection (free_queued_response_payloads call) = connection call"
  "note_truncated_stream (free_queued_response_payloads call) = free_queued_response_payloads (note_truncated_stream call)"
  by (simp_all add: free_queued_response_payloads_def grpc_lite_status_code_from_call_def grpc_protocol_copy_metadata_map_def
      grpc_lite_attempt_outcome_from_call_def grpc_lite_call_response_started_def grpc_lite_refused_kind_from_call_def note_truncated_stream_def)

lemma detach_calls: "detach_if_unusable self h = Ok h' \<Longrightarrow> hp_calls h' = hp_calls h"
  by (auto simp: detach_if_unusable_def detach_persistent_connection_by_ptr_def destroy_persistent_connection_entry_def set_detached_def
      on_conn_def split: option.splits if_splits)

lemma clear_view:
  assumes "clear_connection_server_streaming_call_state_owner L k h = Ok h'" "hp_calls h k = Some call"
  shows "\<exists>call'. hp_calls h' k = Some call' \<and> loose_view call' = loose_view call"
proof (cases "connection call")
  case None
  then show ?thesis using assms by (simp add: clear_connection_server_streaming_call_state_owner_def)
next
  case (Some self)
  obtain h1 h2 h3 h4 where st: "detach_if_unusable self h = Ok h1" "unregister_call L self k h1 = Ok h2" "drop_owner self k h2 = Ok h3"
    "forget_connection k h3 = Ok h4" "destroy_detached_connection_if_unowned self h4 = Ok h'"
    using assms Some by (auto simp: clear_connection_server_streaming_call_state_owner_def Stream_Registry.and_then_Ok)
  obtain call2 where call2: "hp_calls h2 k = Some call2" "erase_link call2 = erase_link call"
  proof -
    obtain c1 c2 calls2 where u: "unregister_grpc_call_stream L self k c1 (hp_calls h1) = Ok (c2, calls2)" "h2 = put_streams self c2 calls2 h1"
      using st(2) by (auto simp: unregister_call_def on_conn_def Stream_Registry.and_then_Ok split: option.splits)
    have "map_option erase_link (calls2 k) = Some (erase_link call)"
      using unregister_Ok(2) [OF u(1)] detach_calls [OF st(1)] assms(2) by (simp add: same_calls_def)
    then show ?thesis using that u(2) by auto
  qed
  have h3: "hp_calls h3 k = Some (call2\<lparr>connection_owned := False\<rparr>)"
    using st(3) call2(1) by (auto simp: drop_owner_def on_conn_def split: option.splits if_splits)
  then have "hp_calls h4 k = Some (call2\<lparr>connection_owned := False, connection := None\<rparr>)" using st(4) by (auto simp: forget_connection_def)
  then have "hp_calls h' k = Some (call2\<lparr>connection_owned := False, connection := None\<rparr>)"
    using st(5) by (auto simp: destroy_detached_connection_if_unowned_def destroy_h2_connection_def on_conn_def split: option.splits if_splits)
  moreover have "loose_view call2 = loose_view call" using arg_cong [OF call2(2), of loose_view] by (simp add: loose_view_def erase_link_def)
  ultimately show ?thesis by (simp add: loose_view_def)
qed

lemma next_when_done:
  assumes call: "hp_calls h (st_call st) = Some call" "connection call = None" "response_queue call = []" and st: "st_completed st"
  defines "call' \<equiv> note_truncated_stream (if response_failed call then free_queued_response_payloads call else call)"
  shows "server_streaming_call_next_resource_core L G dec script st h w
    = Ok (server_streaming_call_fill_status_result dec (None :: 'ss h2_connection option) call' st, st, put_call (st_call st) call' (h :: 'ss heap), w)"
proof -
  obtain rounds cancel reject where script: "script = (rounds, cancel, reject)" by (metis surj_pair)
  have nw: "\<not> next_must_wait st call" using st by (simp add: next_must_wait_def)
  have st': "st\<lparr>st_completed := True\<rparr> = st" using st by simp
  have con: "connection (note_truncated_stream x) = connection x" for x by (simp add: note_truncated_stream_def)
  define h1 where "h1 = put_call (st_call st) (if response_failed call then free_queued_response_payloads call else call) h"
  have h1: "hp_calls h1 (st_call st) = Some (if response_failed call then free_queued_response_payloads call else call)" by (simp add: h1_def)
  have rej: "reject_failed_response L reject st h w = Ok (st, h1, w)"
    using call st' by (simp add: reject_failed_response_def server_streaming_call_terminate_with_cancel_def update_call_def
        detach_call_if_unusable_def h1_def put_call_def fun_upd_idem)
  have "finish_stream L dec st h1 = Ok (server_streaming_call_fill_status_result dec (None :: 'ss h2_connection option) call' st, st, put_call (st_call st) call' h)"
    using call st' con by (simp add: finish_stream_def update_call_def h1 call_connection_def Let_def
        clear_connection_server_streaming_call_state_owner_def call'_def h1_def put_call_def)
  then show ?thesis
    using call nw rej h1 by (simp add: server_streaming_call_next_resource_core_def script streaming_loop.simps [of L G cancel rounds])
qed

lemma next_done_shape:
  assumes "server_streaming_call_next_resource_core L G dec script st (h :: 'ss heap) w = Ok (NextDone s i t a, st', h', w')"
  obtains call and co :: "'ss h2_connection option" and h2 where "st_completed st'" "hp_calls h2 (st_call st') = Some call" "response_queue call = []" "note_truncated_stream call = call"
    "NextDone s i t a = server_streaming_call_fill_status_result dec co call st'"
    "clear_connection_server_streaming_call_state_owner L (st_call st') h2 = Ok h'"
proof -
  obtain rounds cancel reject where script: "script = (rounds, cancel, reject)" by (metis surj_pair)
  from assms obtain st1 h1 w1 call1 where c1: "hp_calls h1 (st_call st1) = Some call1" and r: "(case response_queue call1 of
        [] \<Rightarrow> and_then (finish_stream L dec st1 h1) (\<lambda>(r, st, h). Ok (r, st, h, w1))
      | payload # rest \<Rightarrow> (case deliver_message dec payload rest call1 st1 h1 of (r, st, h) \<Rightarrow> Ok (r, st, h, w1))) = Ok (NextDone s i t a, st', h', w')"
    by (auto simp: server_streaming_call_next_resource_core_def script Stream_Registry.and_then_Ok on_call_Ok)
  have q: "response_queue call1 = []" and f: "finish_stream L dec st1 h1 = Ok (NextDone s i t a, st', h')"
    using r by (auto simp: deliver_message_def Let_def Stream_Registry.and_then_Ok split: list.splits)
  define h2 where "h2 = put_call (st_call st1) (note_truncated_stream call1) h1"
  obtain co where co: "call_connection (note_truncated_stream call1) h2 = Ok co" "st' = st1\<lparr>st_completed := True\<rparr>"
    "NextDone s i t a = server_streaming_call_fill_status_result dec co (note_truncated_stream call1) st'"
    "clear_connection_server_streaming_call_state_owner L (st_call st1) h2 = Ok h'"
    using f c1 by (auto simp: finish_stream_def update_call_def h2_def Let_def Stream_Registry.and_then_Ok on_call_Ok)
  show ?thesis by (rule that [of h2 "note_truncated_stream call1" co]) (use co q in \<open>simp_all add: h2_def\<close>)
qed

lemma next_with_message:
  assumes "hp_calls h (st_call st) = Some call" "response_queue call = m # ms" "\<not> response_failed call"
  shows "server_streaming_call_next_resource_core L G dec script st h w
    = Ok (NextMessage m (if st_delivered_messages st = 0 then grpc_protocol_copy_metadata_map dec call False else []),
          st\<lparr>st_delivered_messages := st_delivered_messages st + 1\<rparr>, put_call (st_call st) (take_response ms m call) h, w)"
proof -
  obtain rounds cancel reject where script: "script = (rounds, cancel, reject)" by (metis surj_pair)
  have "\<not> next_must_wait st call" using assms(2) by (simp add: next_must_wait_def)
  moreover have "grpc_protocol_copy_metadata_map dec (take_response ms m call) False = grpc_protocol_copy_metadata_map dec call False"
    by (simp add: take_response_def grpc_protocol_copy_metadata_map_def)
  ultimately show ?thesis using assms
    by (simp add: server_streaming_call_next_resource_core_def script streaming_loop.simps [of L G cancel rounds] reject_failed_response_def
        deliver_message_def Let_def)
qed

lemma next_when_closed:
  assumes "hp_calls h (st_call st) = Some call" "response_queue call = []" "stream_closed call" "\<not> response_failed call"
  shows "server_streaming_call_next_resource_core L G dec script st h w
    = and_then (finish_stream L dec st h) (\<lambda>(r, st, h). Ok (r, st, h, w))"
proof -
  obtain rounds cancel reject where script: "script = (rounds, cancel, reject)" by (metis surj_pair)
  have "\<not> next_must_wait st call" using assms(3) by (simp add: next_must_wait_def)
  then show ?thesis using assms
    by (simp add: server_streaming_call_next_resource_core_def script streaming_loop.simps [of L G cancel rounds] reject_failed_response_def)
qed

text \<open>Consecutive pulls.\<close>

fun pulls ::
    "'ss lib \<Rightarrow> module_globals \<Rightarrow> (string \<Rightarrow> string option) \<Rightarrow> ('ss stream_round list \<times> 'ss send_script \<times> 'ss send_script) list
      \<Rightarrow> server_streaming_call_state \<Rightarrow> 'ss heap \<Rightarrow> io_world
      \<Rightarrow> (streaming_next_result list \<times> server_streaming_call_state \<times> 'ss heap \<times> io_world) res" where
  "pulls L G dec [] st h w = Ok ([], st, h, w)"
| "pulls L G dec (script # scripts) st h w =
     and_then (server_streaming_call_next_resource_core L G dec script st h w) (\<lambda>(r, st, h, w).
     and_then (pulls L G dec scripts st h w) (\<lambda>(rs, st, h, w). Ok (r # rs, st, h, w)))"

lemma pulls_deliver:
  assumes laws: "session_laws L"
  shows "holding L (st_call st) p calls0 h0 h \<Longrightarrow> hp_calls h (st_call st) = Some call \<Longrightarrow> response_queue call = ms \<Longrightarrow> stream_closed call
    \<Longrightarrow> \<not> response_failed call \<Longrightarrow> length scripts = length ms + 1 \<Longrightarrow>
    \<exists>mds s i t a st' h'. pulls L G dec scripts st h w = Ok (map2 NextMessage ms mds @ [NextDone s i t a], st', h', w)
      \<and> length mds = length ms \<and> st_delivered_messages st' = st_delivered_messages st + length ms \<and> st_completed st'
      \<and> sr_code s = grpc_lite_status_code_from_call (note_truncated_stream call) (st_cancelled st)
      \<and> let_go L (st_call st) p h0 h'"
proof (induction ms arbitrary: scripts st h call)
  case Nil
  obtain script where sc: "scripts = [script]" using Nil.prems(6) by (cases scripts) auto
  have "returns (\<lambda>(r, st', h'). (\<exists>s i t a. r = NextDone s i t a \<and> (transparent_retryable_unprocessed a \<longrightarrow> first_attempt p calls0 (st_call st)))
      \<and> st' = st\<lparr>st_completed := True\<rparr> \<and> let_go L (st_call st) p h0 h')
    (finish_stream L dec st h)" by (rule finish_let_go [OF laws Nil.prems(1)])
  then obtain s i t a h' where f: "finish_stream L dec st h = Ok (NextDone s i t a, st\<lparr>st_completed := True\<rparr>, h')" "let_go L (st_call st) p h0 h'"
    by (cases "finish_stream L dec st h") auto
  have "sr_code s = grpc_lite_status_code_from_call (note_truncated_stream call) (st_cancelled st)"
    using f(1) Nil.prems(2) by (auto simp: finish_stream_def update_call_def Let_def Stream_Registry.and_then_Ok on_call_Ok
        server_streaming_call_fill_status_result_def resolve_grpc_call_status_def)
  then show ?case using f sc next_when_closed [OF Nil.prems(2-5), of L G dec script w] by simp
next
  case (Cons m ms)
  obtain script scripts' where sc: "scripts = script # scripts'" "length scripts' = length ms + 1" using Cons.prems(6) by (cases scripts) auto
  define call1 where "call1 = take_response ms m call"
  define st1 where "st1 = st\<lparr>st_delivered_messages := st_delivered_messages st + 1\<rparr>"
  define h1 where "h1 = put_call (st_call st) call1 h"
  have ho: "holding L (st_call st1) p calls0 h0 h1"
    using holding_update [OF Cons.prems(1), of "take_response ms m"] Cons.prems(2) by (simp add: update_call_def h1_def call1_def st1_def)
  have c1: "hp_calls h1 (st_call st1) = Some call1" "response_queue call1 = ms" "stream_closed call1" "\<not> response_failed call1"
    using Cons.prems(4,5) by (simp_all add: h1_def st1_def call1_def take_response_def response_failed_def)
  have code: "grpc_lite_status_code_from_call (note_truncated_stream call1) b = grpc_lite_status_code_from_call (note_truncated_stream call) b" for b
    by (simp add: call1_def take_response_def note_truncated_stream_def grpc_lite_status_code_from_call_def)
  from Cons.IH [OF ho c1 sc(2)] obtain mds s i t a st' h' where
    ih: "pulls L G dec scripts' st1 h1 w = Ok (map2 NextMessage ms mds @ [NextDone s i t a], st', h', w)" "length mds = length ms"
    "st_delivered_messages st' = st_delivered_messages st1 + length ms" "st_completed st'"
    "sr_code s = grpc_lite_status_code_from_call (note_truncated_stream call1) (st_cancelled st1)" "let_go L (st_call st1) p h0 h'" by blast
  let ?md = "if st_delivered_messages st = 0 then grpc_protocol_copy_metadata_map dec call False else []"
  have run: "pulls L G dec scripts st h w = Ok (map2 NextMessage (m # ms) (?md # mds) @ [NextDone s i t a], st', h', w)"
    using next_with_message [OF Cons.prems(2,3,5), of L G dec script w] ih(1) by (simp add: sc(1) h1_def call1_def st1_def)
  show ?case using ih code
    by (intro exI [of _ "?md # mds"] exI [of _ s] exI [of _ i] exI [of _ t] exI [of _ a] exI [of _ st'] exI [of _ h'] conjI run) (simp_all add: st1_def)
qed

section \<open>Examples\<close>

definition table_state :: server_streaming_call_state where
  "table_state = \<lparr>st_call = 4, st_delivered_messages = 0, st_completed = False, st_cancelled = False\<rparr>"

definition closed_call :: "byte list list \<Rightarrow> grpc_call" where
  "closed_call ms = table_call\<lparr>response_queue := ms, response_queue_count := length ms, stream_closed := True, http_status := 200, grpc_status := 0\<rparr>"

definition closed_heap :: "byte list list \<Rightarrow> (int \<Rightarrow> call_id option) heap" where
  "closed_heap ms = put_call 4 (closed_call ms) table_heap"

abbreviation table_pull :: "(int \<Rightarrow> call_id option) stream_round list \<times> (int \<Rightarrow> call_id option) send_script \<times> (int \<Rightarrow> call_id option) send_script" where
  "table_pull \<equiv> ([], ([], id, 0), ([], id, 0))"

lemma closed_heap_ok:
  "heap_inv table_lib {} {} (closed_heap ms)" "hp_calls (closed_heap ms) (st_call table_state) = Some (closed_call ms)"
  "response_queue (closed_call ms) = ms" "stream_closed (closed_call ms)" "\<not> response_failed (closed_call ms)"
proof -
  have "hp_calls table_heap 4 = Some table_call" by (simp add: table_heap_def)
  from update_core_inv [OF table_heap_inv this, of "closed_call ms"] show "heap_inv table_lib {} {} (closed_heap ms)"
    by (simp add: closed_heap_def closed_call_def call_core_def call_fixed_def)
qed (simp_all add: closed_heap_def closed_call_def table_state_def table_call_def grpc_call_zero_def response_failed_def)

lemma table_script_ok: "script_ok table_lib p calls ([], id, 0)"
  using table_laws(2) by (simp add: script_ok_def send_script_ok_def sources_ok_def)

lemma closed_pull:
  "\<exists>s i t a st' h'. server_streaming_call_next_resource_core table_lib example_globals Some table_pull table_state (closed_heap []) idle_world
     = Ok (NextDone s i t a, st', h', idle_world)"
proof -
  have "\<exists>mds s i t a st' h'. pulls table_lib example_globals Some [table_pull] table_state (closed_heap []) idle_world
      = Ok (map2 NextMessage [] mds @ [NextDone s i t a], st', h', idle_world)"
    using pulls_deliver [OF table_laws(1) holding_start [OF closed_heap_ok(1,2)] closed_heap_ok(2-5), of "[table_pull]" "[]" example_globals Some idle_world]
    by fastforce
  then show ?thesis by (auto simp: Stream_Registry.and_then_Ok)
qed

section \<open>Properties\<close>





text \<open>
  C32.  The final status is final.  Once a pull has returned it, every later pull, whatever the environment does,
  returns at once with the same status code, the same metadata and the same retry outcome, performs no input or output and changes
  neither a connection nor the cache.  (The text of the details may differ: the connection's own error
  text is no longer at hand.)
\<close>

theorem done_is_final:
  assumes "session_laws L" "heap_inv L {} {} h" "hp_calls h (st_call st) = Some call"
    and "script_ok L (connection call) (hp_calls h) cancel" "script_ok L (connection call) (hp_calls h) reject"
    and "\<And>self. connection call = Some self \<Longrightarrow> \<forall>r \<in> set rounds. stream_round_ok L self (hp_calls h) r"
    and "server_streaming_call_next_resource_core L G dec (rounds, cancel, reject) st h w = Ok (NextDone s i t a, st', h', w')"
  shows "\<exists>s' h''. server_streaming_call_next_resource_core L G dec script st' h' w'' = Ok (NextDone s' i t a, st', h'', w'')
    \<and> sr_code s' = sr_code s \<and> hp_conns h'' = hp_conns h' \<and> hp_cache h'' = hp_cache h'"
proof -
  have "\<forall>self. connection call = Some self \<longrightarrow> (\<forall>r \<in> set rounds. stream_round_ok L self (hp_calls h) r)" using assms(6) by blast
  from safe_OkD [OF next_pulled [OF assms(1) holding_start [OF assms(2,3)] assms(4,5) this] assms(7)]
  obtain call1 where c1: "hp_calls h' (st_call st') = Some call1" "connection call1 = None" by (auto simp: pulled_def let_go_def)
  from assms(7) obtain call2 and co :: "'a h2_connection option" and h2 where st': "st_completed st'"
    and c2: "hp_calls h2 (st_call st') = Some call2" "response_queue call2 = []" "note_truncated_stream call2 = call2"
    and r: "NextDone s i t a = server_streaming_call_fill_status_result dec co call2 st'"
    and cl: "clear_connection_server_streaming_call_state_owner L (st_call st') h2 = Ok h'" by (rule next_done_shape)
  have v: "loose_view call1 = loose_view call2" using clear_view [OF cl c2(1)] c1(1) by auto
  have q: "response_queue call1 = []" using loose_view_eqD(4) [OF v] c2(2) by simp
  have "loose_view (note_truncated_stream call1) = loose_view call2" using loose_view_eqD(5) [OF v] c2(3) by simp
  note view' = loose_view_eqD(1-3) [OF this]
  have q': "response_queue (note_truncated_stream call1) = []" using q by simp
  have "server_streaming_call_fill_status_result dec (None :: 'a h2_connection option) (note_truncated_stream (if response_failed call1
      then free_queued_response_payloads call1 else call1)) st' = NextDone s' i t a \<and> sr_code s' = sr_code s"
    if "s' = resolve_grpc_call_status (None :: 'a h2_connection option) (note_truncated_stream (if response_failed call1
      then free_queued_response_payloads call1 else call1)) (st_cancelled st')" for s'
    using r that q' by (simp add: server_streaming_call_fill_status_result_def resolve_grpc_call_status_def Let_def view')
  then show ?thesis using next_when_done [OF c1 q st', of L G dec script w''] by (fastforce simp: put_call_def)
qed

theorem done_is_final_witness:
  "\<exists>s i t a st' h' s' h''. server_streaming_call_next_resource_core table_lib example_globals Some table_pull table_state (closed_heap []) idle_world
      = Ok (NextDone s i t a, st', h', idle_world)
    \<and> server_streaming_call_next_resource_core table_lib example_globals Some table_pull st' h' idle_world = Ok (NextDone s' i t a, st', h'', idle_world)
    \<and> sr_code s' = sr_code s"
proof -
  obtain s i t a st' h' where run: "server_streaming_call_next_resource_core table_lib example_globals Some table_pull table_state (closed_heap []) idle_world
      = Ok (NextDone s i t a, st', h', idle_world)" using closed_pull by blast
  from done_is_final [OF table_laws(1) closed_heap_ok(1,2) table_script_ok table_script_ok _ run, of table_pull idle_world] run
  show ?thesis by fastforce
qed

text \<open>
  C33.  Every queued message is delivered.  When the stream has closed with the messages \<open>ms\<close> still queued and no violation
  recorded, the next \<open>length ms\<close> pulls return exactly these messages in order and the one after them the
  final status, all without waiting for input or output.
\<close>

theorem queued_messages_delivered:
  assumes "session_laws L" "heap_inv L {} {} h" "hp_calls h (st_call st) = Some call" "response_queue call = ms"
    and "stream_closed call" "\<not> response_failed call" "length scripts = length ms + 1"
  shows "\<exists>mds s i t a st' h'. pulls L G dec scripts st h w = Ok (map2 NextMessage ms mds @ [NextDone s i t a], st', h', w)
    \<and> length mds = length ms \<and> st_delivered_messages st' = st_delivered_messages st + length ms \<and> st_completed st'
    \<and> sr_code s = grpc_lite_status_code_from_call (note_truncated_stream call) (st_cancelled st) \<and> heap_inv L {} {} h'"
  using pulls_deliver [OF assms(1) holding_start [OF assms(2,3)] assms(3-7), of G dec w] by (fastforce simp: let_go_def)

theorem queued_messages_delivered_witness:
  "\<exists>mds s i t a st' h'. pulls table_lib example_globals Some (replicate 3 table_pull) table_state (closed_heap [[1], [2, 3]]) idle_world
      = Ok (map2 NextMessage [[1], [2, 3]] mds @ [NextDone s i t a], st', h', idle_world)
    \<and> length mds = 2 \<and> st_delivered_messages st' = 2 \<and> sr_code s = 0"
proof -
  have code: "grpc_lite_status_code_from_call (note_truncated_stream (closed_call [[1], [2, 3]])) False = 0"
    by (simp add: grpc_lite_status_code_from_call_def note_truncated_stream_def closed_call_def table_call_def grpc_call_zero_def)
  have "length (replicate 3 table_pull) = length ([[1], [2, 3]] :: byte list list) + 1" by simp
  from queued_messages_delivered [OF table_laws(1) closed_heap_ok(1,2,3,4,5) this, of example_globals Some idle_world] code
  show ?thesis by (simp only: table_state_def) (fastforce simp: table_state_def)
qed

end
