(* ===== verification/Surface.thy ===== *)
theory Surface
  imports Connection_Preflight
begin

text \<open>
  The PHP classes (\<open>src/src/surface.c\<close>, \<open>src/src/surface.h\<close>): \<open>Timeval\<close> and its saturating arithmetic, channel
  credentials, parsing of a channel target, the key under which connections are shared, construction and closing of a
  channel.  PHP objects are records; an exception is its message.
\<close>

section \<open>Timeval\<close>

record timeval =
  tv_microseconds :: int

definition grpc_lite_saturating_add :: "int \<Rightarrow> int \<Rightarrow> int" where
  "grpc_lite_saturating_add left right =
     (if 0 < right \<and> ZEND_LONG_MAX - right < left then ZEND_LONG_MAX
      else if right < 0 \<and> left < ZEND_LONG_MIN - right then ZEND_LONG_MIN
      else left + right)"

definition grpc_lite_saturating_subtract :: "int \<Rightarrow> int \<Rightarrow> int" where
  "grpc_lite_saturating_subtract left right =
     (if right = ZEND_LONG_MIN then (if 0 \<le> left then ZEND_LONG_MAX else grpc_lite_saturating_add left ZEND_LONG_MAX)
      else grpc_lite_saturating_add left (- right))"

definition Timeval_construct :: "int \<Rightarrow> timeval" where
  "Timeval_construct microseconds = \<lparr>tv_microseconds = microseconds\<rparr>"

definition Timeval_now :: "io_world \<Rightarrow> (timeval \<times> io_world) option" where
  "Timeval_now w = map_option (\<lambda>(now, w). (\<lparr>tv_microseconds = int now\<rparr>, w)) (monotonic_us w)"

definition Timeval_infFuture :: timeval where "Timeval_infFuture = \<lparr>tv_microseconds = ZEND_LONG_MAX\<rparr>"

definition Timeval_infPast :: timeval where "Timeval_infPast = \<lparr>tv_microseconds = ZEND_LONG_MIN\<rparr>"

definition Timeval_zero :: timeval where "Timeval_zero = \<lparr>tv_microseconds = 0\<rparr>"

definition Timeval_add :: "timeval \<Rightarrow> timeval \<Rightarrow> timeval" where
  "Timeval_add this other = \<lparr>tv_microseconds = grpc_lite_saturating_add (tv_microseconds this) (tv_microseconds other)\<rparr>"

definition Timeval_subtract :: "timeval \<Rightarrow> timeval \<Rightarrow> timeval" where
  "Timeval_subtract this other = \<lparr>tv_microseconds = grpc_lite_saturating_subtract (tv_microseconds this) (tv_microseconds other)\<rparr>"

definition Timeval_compare :: "timeval \<Rightarrow> timeval \<Rightarrow> int" where
  "Timeval_compare this other =
     (if tv_microseconds this < tv_microseconds other then -1
      else if tv_microseconds other < tv_microseconds this then 1 else 0)"

definition Timeval_microtime :: "timeval \<Rightarrow> int" where
  "Timeval_microtime this = tv_microseconds this"

definition Timeval_sleepUntil :: "timeval \<Rightarrow> bool" where
  "Timeval_sleepUntil this = True"

section \<open>Credentials\<close>

datatype credentials_type = CredentialsInsecure | CredentialsSsl | CredentialsDefault

fun credentials_number :: "credentials_type \<Rightarrow> int" where
  "credentials_number CredentialsInsecure = 0"
| "credentials_number CredentialsSsl = 1"
| "credentials_number CredentialsDefault = 2"

record channel_credentials =
  cc_type :: credentials_type
  cc_root_certs :: "string option"
  cc_private_key :: "string option"
  cc_cert_chain :: "string option"

text \<open>\<open>default_roots\<close> is the module global \<open>default_roots_pem\<close>.\<close>

definition grpc_lite_channel_credentials_init ::
    "string option \<Rightarrow> credentials_type \<Rightarrow> string option \<Rightarrow> string option \<Rightarrow> string option \<Rightarrow> channel_credentials" where
  "grpc_lite_channel_credentials_init default_roots type root_certs private_key cert_chain =
     \<lparr>cc_type = type,
      cc_root_certs = (case root_certs of
          Some r \<Rightarrow> Some r
        | None \<Rightarrow> if type = CredentialsSsl \<or> type = CredentialsDefault then default_roots else None),
      cc_private_key = private_key, cc_cert_chain = cert_chain\<rparr>"

definition createInsecure :: "string option \<Rightarrow> channel_credentials" where
  "createInsecure roots = grpc_lite_channel_credentials_init roots CredentialsInsecure None None None"

definition createSsl :: "string option \<Rightarrow> string option \<Rightarrow> string option \<Rightarrow> string option \<Rightarrow> channel_credentials" where
  "createSsl roots root_certs private_key cert_chain =
     grpc_lite_channel_credentials_init roots CredentialsSsl root_certs private_key cert_chain"

definition createDefault :: "string option \<Rightarrow> channel_credentials" where
  "createDefault roots = grpc_lite_channel_credentials_init roots CredentialsDefault None None None"

definition setDefaultRootsPem :: "string \<Rightarrow> string option \<Rightarrow> string option" where
  "setDefaultRootsPem pem roots = Some pem"

definition isDefaultRootsPemSet :: "string option \<Rightarrow> bool" where
  "isDefaultRootsPemSet roots \<longleftrightarrow> roots \<noteq> None"

definition invalidateDefaultRootsPem :: "string option \<Rightarrow> string option" where
  "invalidateDefaultRootsPem roots = None"

section \<open>The target\<close>

fun parse_port_loop :: "int \<Rightarrow> string \<Rightarrow> int option" where
  "parse_port_loop parsed [] = (if parsed \<le> 0 then None else Some parsed)"
| "parse_port_loop parsed (c # cs) =
     (if uchar c < 48 \<or> 57 < uchar c then None
      else let parsed = parsed * 10 + (int (uchar c) - 48)
           in if 65535 < parsed then None else parse_port_loop parsed cs)"

definition parse_target_port :: "string \<Rightarrow> int option" where
  "parse_target_port value = (if value = [] then None else parse_port_loop 0 value)"

text \<open>The index of the last occurrence, as \<open>memrchr\<close> finds it.\<close>

definition memrchr :: "char \<Rightarrow> string \<Rightarrow> nat option" where
  "memrchr c s = (let tail = takeWhile (\<lambda>x. x \<noteq> c) (rev s)
     in if length tail = length s then None else Some (length s - length tail - 1))"

definition split_target_to_host_port :: "string \<Rightarrow> (string \<times> int) option" where
  "split_target_to_host_port target =
     (case memrchr CHR '':'' target of
        None \<Rightarrow> Some (target, 443)
      | Some colon \<Rightarrow>
          if colon = 0 \<or> colon = length target - 1 then Some (target, 443)
          else map_option (\<lambda>port. (take colon target, port)) (parse_target_port (drop (colon + 1) target)))"

section \<open>The connection key\<close>

definition hex_digit :: "nat \<Rightarrow> char" where
  "hex_digit n = ''0123456789abcdef'' ! n"

fun hex_bytes :: "byte list \<Rightarrow> string" where
  "hex_bytes [] = []"
| "hex_bytes (b # bs) = hex_digit (unat b div 16) # hex_digit (unat b mod 16) # hex_bytes bs"

definition grpc_lite_sha256_hex :: "(string \<Rightarrow> byte list) \<Rightarrow> string option \<Rightarrow> string" where
  "grpc_lite_sha256_hex sha value =
     (if value = None \<or> value = Some [] then ''0'' else hex_bytes (sha (the value)))"

definition opt_text :: "string option \<Rightarrow> string" where
  "opt_text v = (case v of None \<Rightarrow> [] | Some s \<Rightarrow> s)"

text \<open>\<open>%zu:%.*s\<close>: the precision bounds the text, which also ends at its first NUL.\<close>

definition sized_text :: "string \<Rightarrow> string" where
  "sized_text s = dec_nat (length s) @ '':'' @ take (length s) (c_str s)"

definition sized_digest :: "(string \<Rightarrow> byte list) \<Rightarrow> string option \<Rightarrow> string" where
  "sized_digest sha value = dec_nat (length (opt_text value)) @ '':'' @ grpc_lite_sha256_hex sha value"

definition canonical_key ::
    "(string \<Rightarrow> byte list) \<Rightarrow> string \<Rightarrow> int \<Rightarrow> string option \<Rightarrow> string option \<Rightarrow> int
      \<Rightarrow> string option \<Rightarrow> string option \<Rightarrow> string option \<Rightarrow> string" where
  "canonical_key sha host port authority tls_verify_name credentials_type root_certs cert_chain private_key =
     sized_text host @ ''|'' @ dec_int port @ ''|'' @ sized_text (opt_text authority) @ ''|''
     @ sized_text (opt_text tls_verify_name) @ ''|'' @ dec_int credentials_type @ ''|''
     @ sized_digest sha root_certs @ ''|'' @ sized_digest sha cert_chain @ ''|'' @ sized_digest sha private_key"

definition grpc_lite_build_connection_key ::
    "(string \<Rightarrow> byte list) \<Rightarrow> string \<Rightarrow> int \<Rightarrow> string option \<Rightarrow> string option \<Rightarrow> int
      \<Rightarrow> string option \<Rightarrow> string option \<Rightarrow> string option \<Rightarrow> string" where
  "grpc_lite_build_connection_key sha host port authority tls_verify_name credentials_type root_certs cert_chain private_key =
     ''sha256:'' @ hex_bytes (sha (canonical_key sha host port authority tls_verify_name credentials_type root_certs cert_chain private_key))"

section \<open>Channels\<close>

record channel_obj =
  ch_target :: "string option"
  ch_host :: "string option"
  ch_port :: int
  ch_authority :: "string option"
  ch_tls_verify_name :: "string option"
  ch_primary_user_agent :: "string option"
  ch_connection_key :: "string option"
  ch_max_receive_message_length :: int
  ch_max_response_metadata_bytes :: nat
  ch_credentials :: "channel_credentials option"
  ch_initialized :: bool

definition grpc_lite_channel_create_object :: channel_obj where
  "grpc_lite_channel_create_object =
     \<lparr>ch_target = None, ch_host = None, ch_port = 443, ch_authority = None, ch_tls_verify_name = None,
      ch_primary_user_agent = None, ch_connection_key = None, ch_max_receive_message_length = 0,
      ch_max_response_metadata_bytes = effective_max_response_metadata_bytes (-1) (-1),
      ch_credentials = None, ch_initialized = False\<rparr>"

definition grpc_lite_channel_clear_fields :: "channel_obj \<Rightarrow> channel_obj" where
  "grpc_lite_channel_clear_fields obj =
     obj\<lparr>ch_target := None, ch_host := None, ch_authority := None, ch_tls_verify_name := None,
         ch_primary_user_agent := None, ch_connection_key := None, ch_credentials := None, ch_port := 443,
         ch_max_receive_message_length := 0,
         ch_max_response_metadata_bytes := effective_max_response_metadata_bytes (-1) (-1), ch_initialized := False\<rparr>"

definition grpc_lite_build_channel_key :: "(string \<Rightarrow> byte list) \<Rightarrow> channel_obj \<Rightarrow> string" where
  "grpc_lite_build_channel_key sha channel =
     (let credentials = the (ch_credentials channel)
      in grpc_lite_build_connection_key sha (opt_text (ch_host channel)) (ch_port channel) (ch_authority channel)
           (ch_tls_verify_name channel) (credentials_number (cc_type credentials)) (cc_root_certs credentials)
           (cc_cert_chain credentials) (cc_private_key credentials))"

text \<open>Messages name the class with its namespace, \<^verbatim>\<open>Grpc\Channel\<close>.\<close>

definition class_error :: "string \<Rightarrow> string" where
  "class_error text = ''Grpc'' @ CHR 0x5C # text"

text \<open>The values of the options array.\<close>

datatype opt_value = OptCredentials channel_credentials | OptString string | OptLong int | OptOther

definition opt_string :: "string \<Rightarrow> (string \<times> opt_value) list \<Rightarrow> string option" where
  "opt_string name opts = (case map_of opts name of Some (OptString s) \<Rightarrow> Some s | _ \<Rightarrow> None)"

text \<open>An integer option: its error, or its value, or \<open>absent\<close> when it is not given.\<close>

definition opt_long :: "string \<Rightarrow> int \<Rightarrow> string \<Rightarrow> int \<Rightarrow> (string \<times> opt_value) list \<Rightarrow> string + int" where
  "opt_long name least message absent opts =
     (case map_of opts name of
        None \<Rightarrow> Inr absent
      | Some (OptLong n) \<Rightarrow> if n < least then Inl message else Inr n
      | Some _ \<Rightarrow> Inl message)"

text \<open>The integer options in the order they are checked.\<close>

definition channel_limits :: "(string \<times> opt_value) list \<Rightarrow> string + (int \<times> int \<times> int)" where
  "channel_limits opts =
     (case opt_long ''grpc.max_receive_message_length'' (-1) ''grpc.max_receive_message_length must be -1 or non-negative'' 0 opts of
        Inl e \<Rightarrow> Inl e
      | Inr receive \<Rightarrow>
      case opt_long ''grpc.max_metadata_size'' 0 ''grpc.max_metadata_size must be non-negative'' (-1) opts of
        Inl e \<Rightarrow> Inl e
      | Inr soft \<Rightarrow>
      case opt_long ''grpc.absolute_max_metadata_size'' 0 ''grpc.absolute_max_metadata_size must be non-negative'' (-1) opts of
        Inl e \<Rightarrow> Inl e
      | Inr hard \<Rightarrow>
          if 0 \<le> soft \<and> 0 \<le> hard \<and> hard < soft
          then Inl ''grpc.absolute_max_metadata_size must be greater than or equal to grpc.max_metadata_size''
          else Inr (receive, soft, hard))"

definition Channel_construct ::
    "(string \<Rightarrow> byte list) \<Rightarrow> string \<Rightarrow> (string \<times> opt_value) list \<Rightarrow> channel_obj \<Rightarrow> string option \<times> channel_obj" where
  "Channel_construct sha target opts obj =
     (if ch_initialized obj then (Some (class_error ''Channel is already initialized''), obj)
      else
        (let obj = grpc_lite_channel_clear_fields obj
         in case map_of opts ''credentials'' of
              Some (OptCredentials credentials) \<Rightarrow>
                (case split_target_to_host_port target of
                   None \<Rightarrow> (Some ''invalid gRPC target port'', grpc_lite_channel_clear_fields obj)
                 | Some (host, port) \<Rightarrow>
                     (case channel_limits opts of
                        Inl e \<Rightarrow> (Some e, grpc_lite_channel_clear_fields obj)
                      | Inr (receive, soft, hard) \<Rightarrow>
                          (let obj = obj\<lparr>ch_target := Some target, ch_host := Some host, ch_port := port,
                                 ch_credentials := Some credentials, ch_authority := opt_string ''grpc.default_authority'' opts,
                                 ch_tls_verify_name := opt_string ''grpc.ssl_target_name_override'' opts,
                                 ch_primary_user_agent := opt_string ''grpc.primary_user_agent'' opts,
                                 ch_max_receive_message_length := receive,
                                 ch_max_response_metadata_bytes := effective_max_response_metadata_bytes soft hard\<rparr>
                           in case validate_channel_inputs target host port (ch_authority obj) (ch_tls_verify_name obj) of
                                Some e \<Rightarrow> (Some e, grpc_lite_channel_clear_fields obj)
                              | None \<Rightarrow> (None, obj\<lparr>ch_connection_key := Some (grpc_lite_build_channel_key sha obj),
                                                   ch_initialized := True\<rparr>))))
            | _ \<Rightarrow> (Some ''Channel options must include a ChannelCredentials instance'', obj)))"

definition Channel_getTarget :: "channel_obj \<Rightarrow> string + string" where
  "Channel_getTarget obj =
     (if \<not> ch_initialized obj then Inl (class_error ''Channel is not initialized'') else Inr (opt_text (ch_target obj)))"

definition Channel_close :: "channel_obj \<Rightarrow> 'ss heap \<Rightarrow> (string option \<times> 'ss heap) res" where
  "Channel_close obj h =
     (if \<not> ch_initialized obj then Ok (Some (class_error ''Channel is not initialized''), h)
      else case ch_connection_key obj of
             None \<Rightarrow> Ok (Some (class_error ''Channel connection key is not initialized''), h)
           | Some key \<Rightarrow>
               (case cache_find key h of
                  None \<Rightarrow> Ok (None, h)
                | Some entry \<Rightarrow> and_then (discard_persistent_connection key (pe_connection entry) h) (\<lambda>h. Ok (None, h))))"

definition Channel_getConnectivityState :: "channel_obj \<Rightarrow> string + int" where
  "Channel_getConnectivityState obj = (if \<not> ch_initialized obj then Inl (class_error ''Channel is not initialized'') else Inr 2)"

definition Channel_watchConnectivityState :: "channel_obj \<Rightarrow> string + bool" where
  "Channel_watchConnectivityState obj = (if \<not> ch_initialized obj then Inl (class_error ''Channel is not initialized'') else Inr False)"

text \<open>What a channel passes to the transport when it asks for a connection.\<close>

definition channel_target_of :: "channel_obj \<Rightarrow> channel_target" where
  "channel_target_of channel =
     (let credentials = the (ch_credentials channel)
      in \<lparr>ct_host = opt_text (ch_host channel), ct_port = ch_port channel, ct_authority = ch_authority channel,
          ct_tls_verify_name = ch_tls_verify_name channel, ct_use_tls = (cc_type credentials \<noteq> CredentialsInsecure),
          ct_root_certs = cc_root_certs credentials, ct_cert_chain = cc_cert_chain credentials,
          ct_private_key = cc_private_key credentials\<rparr>)"

section \<open>Parsing a target\<close>

lemma memrchr_last: "c \<notin> set t \<Longrightarrow> memrchr c (s @ c # t) = Some (length s)"
proof -
  assume c: "c \<notin> set t"
  have "takeWhile (\<lambda>x. x \<noteq> c) (rev (s @ c # t)) = rev t"
    using c takeWhile_append_stop [of "\<lambda>x. x \<noteq> c" "rev t" c "rev s"] by (auto simp: list_all_iff)
  then show ?thesis by (simp add: memrchr_def)
qed

lemma memrchr_Some:
  assumes "memrchr c s = Some i"
  shows "i < length s" "s = take i s @ c # drop (i + 1) s" "c \<notin> set (drop (i + 1) s)"
proof -
  have "c \<in> set s"
  proof (rule ccontr)
    assume "c \<notin> set s"
    then have t: "takeWhile (\<lambda>x. x \<noteq> c) (rev s) = rev s" by (auto simp: takeWhile_eq_all_conv)
    show False using assms unfolding memrchr_def Let_def t by simp
  qed
  then obtain a b where "s = a @ c # b" "c \<notin> set b" using split_list_last by metis
  then show "i < length s" "s = take i s @ c # drop (i + 1) s" "c \<notin> set (drop (i + 1) s)" using memrchr_last assms by auto
qed

lemma digits_grow: "acc \<le> foldl (\<lambda>acc c. acc * 10 + digit_value c) acc s"
proof (induction s arbitrary: acc)
  case (Cons c s)
  show ?case using Cons.IH [of "acc * 10 + digit_value c"] by simp
qed simp

lemma parse_port_iff:
  "acc \<le> 65535 \<Longrightarrow> parse_port_loop (int acc) s = Some p \<longleftrightarrow>
     list_all is_digit s \<and> 0 < p \<and> p \<le> 65535 \<and> p = int (foldl (\<lambda>acc c. acc * 10 + digit_value c) acc s)"
proof (induction s arbitrary: acc)
  case (Cons c s)
  show ?case
  proof (cases "is_digit c")
    case True
    let ?acc = "acc * 10 + digit_value c"
    have v: "int acc * 10 + (int (uchar c) - 48) = int ?acc" using True by (simp add: is_digit_def digit_value_def of_nat_diff)
    show ?thesis
    proof (cases "?acc \<le> 65535")
      case small: True
      then show ?thesis using Cons.IH [of ?acc] True v by (simp add: is_digit_def Let_def not_less)
    next
      case False
      then have "65535 < foldl (\<lambda>acc c. acc * 10 + digit_value c) ?acc s" using digits_grow [of ?acc s] by linarith
      then show ?thesis using False True v by (auto simp: is_digit_def Let_def)
    qed
  qed (auto simp: is_digit_def)
qed auto

lemma parse_target_port_iff:
  "parse_target_port s = Some p \<longleftrightarrow> s \<noteq> [] \<and> list_all is_digit s \<and> 0 < p \<and> p \<le> 65535 \<and> p = int (dec_value s)"
  using parse_port_iff [of 0 s p] by (simp add: parse_target_port_def dec_value_def)

lemma split_target_join:
  assumes "host \<noteq> []" "0 < p" "p \<le> 65535"
  shows "split_target_to_host_port (host @ '':'' @ dec_int p) = Some (host, p)"
proof -
  have d: "dec_int p = dec_nat (nat p)" using assms(2) by (simp add: dec_int_def)
  have "CHR '':'' \<notin> set (dec_nat (nat p))" using dec_nat_digits [of "nat p"] by (auto simp: list_all_iff is_digit_def)
  then have m: "memrchr CHR '':'' (host @ CHR '':'' # dec_nat (nat p)) = Some (length host)" by (rule memrchr_last)
  have "parse_target_port (dec_nat (nat p)) = Some p"
    using parse_target_port_iff [of "dec_nat (nat p)" p] assms(2,3) dec_nat_digits dec_nat_nonempty dec_value_dec_nat by simp
  then show ?thesis using m assms(1) dec_nat_nonempty [of "nat p"] by (simp add: split_target_to_host_port_def d)
qed

lemma split_target_parts:
  assumes "split_target_to_host_port t = Some (host, p)"
  shows "0 < p \<and> p \<le> 65535 \<and> (host = t \<and> p = 443 \<or> host \<noteq> [] \<and> (\<exists>digits. t = host @ '':'' @ digits \<and> list_all is_digit digits \<and> int (dec_value digits) = p))"
proof (cases "memrchr CHR '':'' t")
  case None
  then show ?thesis using assms by (simp add: split_target_to_host_port_def)
next
  case (Some i)
  note m = memrchr_Some [OF Some]
  show ?thesis
  proof (cases "i = 0 \<or> i = length t - 1")
    case True
    then show ?thesis using assms Some by (simp add: split_target_to_host_port_def)
  next
    case False
    have h: "host = take i t" and pp: "parse_target_port (drop (i + 1) t) = Some p"
      using assms Some False by (auto simp: split_target_to_host_port_def)
    have "host \<noteq> []" using h False m(1) by auto
    moreover have "t = host @ '':'' @ drop (i + 1) t" using m(2) h by simp
    ultimately show ?thesis using pp parse_target_port_iff [of "drop (i + 1) t" p] by blast
  qed
qed

section \<open>Reading a key back\<close>

lemma split_at_char:
  assumes "x @ c # r = y @ c # s" "c \<notin> set x" "c \<notin> set y"
  shows "x = y" "r = s"
  using takeWhile_stop_unique [OF assms(1), of "\<lambda>d. d \<noteq> c"] assms(2,3) by (auto simp: list_all_iff)

lemma dec_nat_chars: "c \<in> set (dec_nat n) \<Longrightarrow> is_digit c"
  using dec_nat_digits [of n] by (auto simp: list_all_iff)

lemma no_bar [simp]: "CHR ''|'' \<notin> set (dec_nat n)" "CHR '':'' \<notin> set (dec_nat n)" "CHR ''|'' \<notin> set (dec_int i)"
proof -
  show n: "CHR ''|'' \<notin> set (dec_nat n)" "CHR '':'' \<notin> set (dec_nat n)" for n using dec_nat_chars [of _ n] by (fastforce simp: is_digit_def)+
  show "CHR ''|'' \<notin> set (dec_int i)" using n by (simp add: dec_int_def)
qed

lemma sized_text_eq: "no_nul s \<Longrightarrow> sized_text s = dec_nat (length s) @ CHR '':'' # s"
  by (simp add: sized_text_def c_str_id)

lemma sized_text_split:
  assumes "sized_text a @ CHR ''|'' # x = sized_text b @ CHR ''|'' # y" "no_nul a" "no_nul b"
  shows "a = b" "x = y"
proof -
  have e: "dec_nat (length a) @ CHR '':'' # (a @ CHR ''|'' # x) = dec_nat (length b) @ CHR '':'' # (b @ CHR ''|'' # y)"
    using assms by (simp add: sized_text_eq)
  have "length a = length b" using split_at_char(1) [OF e] by simp
  moreover have "a @ CHR ''|'' # x = b @ CHR ''|'' # y" using split_at_char(2) [OF e] by simp
  ultimately show "a = b" "x = y" by auto
qed

lemma dec_int_split: "dec_int i @ CHR ''|'' # x = dec_int j @ CHR ''|'' # y \<Longrightarrow> i = j \<and> x = y"
  using split_at_char [of "dec_int i" "CHR ''|''" x "dec_int j" y] dec_int_inject by simp

lemma hex_digit_cases: "n < 16 \<Longrightarrow> hex_digit n \<in> set ''0123456789abcdef''"
  unfolding hex_digit_def by (rule nth_mem) simp

lemma hex_digit_no_bar: "n < 16 \<Longrightarrow> hex_digit n \<noteq> CHR ''|''"
  using hex_digit_cases [of n] by fastforce

lemma unat_byte: "unat (b :: byte) < 256"
  using unsigned_less [of b] by simp

lemma hex_digit_inject: "m < 16 \<Longrightarrow> n < 16 \<Longrightarrow> hex_digit m = hex_digit n \<longleftrightarrow> m = n"
  unfolding hex_digit_def by (subst nth_eq_iff_index_eq) simp_all

lemma hex_bytes_no_bar [simp]: "CHR ''|'' \<notin> set (hex_bytes bs)"
proof (induction bs)
  case (Cons b bs)
  have "unat b < 256" by (rule unat_byte)
  then have "hex_digit (unat b div 16) \<noteq> CHR ''|''" "hex_digit (unat b mod 16) \<noteq> CHR ''|''"
    using hex_digit_no_bar by simp_all
  then show ?case using Cons by simp
qed simp

lemma hex_bytes_inject: "hex_bytes a = hex_bytes b \<Longrightarrow> a = b"
proof (induction a arbitrary: b)
  case Nil
  then show ?case by (cases b) simp_all
next
  case (Cons x a)
  then obtain y b' where b: "b = y # b'" by (cases b) simp_all
  have r: "unat x < 256" "unat y < 256" using unat_byte by auto
  have "unat x div 16 = unat y div 16" "unat x mod 16 = unat y mod 16"
    using Cons.prems b r hex_digit_inject [of "unat x div 16" "unat y div 16"] hex_digit_inject [of "unat x mod 16" "unat y mod 16"] by simp_all
  then have "unat x = unat y" by (metis div_mult_mod_eq)
  then have "x = y" by (rule unsigned_word_eqI)
  then show ?case using Cons b by simp
qed

lemma sized_digest_no_bar [simp]: "CHR ''|'' \<notin> set (sized_digest sha v)"
  by (simp add: sized_digest_def grpc_lite_sha256_hex_def)

lemma sized_digest_eq:
  assumes "sized_digest sha u = sized_digest sha v" "inj_on sha {opt_text u, opt_text v}"
  shows "opt_text u = opt_text v"
proof -
  have "dec_nat (length (opt_text u)) @ CHR '':'' # grpc_lite_sha256_hex sha u = dec_nat (length (opt_text v)) @ CHR '':'' # grpc_lite_sha256_hex sha v"
    using assms(1) by (simp add: sized_digest_def)
  from split_at_char [OF this] have e: "length (opt_text u) = length (opt_text v)" "grpc_lite_sha256_hex sha u = grpc_lite_sha256_hex sha v" by simp_all
  show ?thesis
  proof (cases "opt_text u = []")
    case True
    then show ?thesis using e(1) by simp
  next
    case False
    have h: "grpc_lite_sha256_hex sha w = hex_bytes (sha (opt_text w))" if "opt_text w \<noteq> []" for w
      using that by (cases w) (simp_all add: grpc_lite_sha256_hex_def opt_text_def)
    have "opt_text v \<noteq> []" using False e(1) by auto
    then have "hex_bytes (sha (opt_text u)) = hex_bytes (sha (opt_text v))" using e(2) h [of u] h [of v] False by simp
    then have "sha (opt_text u) = sha (opt_text v)" by (rule hex_bytes_inject)
    then show ?thesis by (rule inj_onD [OF assms(2)]) simp_all
  qed
qed

lemma canonical_key_inject:
  assumes "canonical_key sha host port auth name ty roots chain key = canonical_key sha host' port' auth' name' ty' roots' chain' key'"
    and "no_nul host" "no_nul host'" "no_nul (opt_text auth)" "no_nul (opt_text auth')" "no_nul (opt_text name)" "no_nul (opt_text name')"
    and "inj_on sha (set (map opt_text [roots, chain, key, roots', chain', key']))"
  shows "host = host' \<and> port = port' \<and> opt_text auth = opt_text auth' \<and> opt_text name = opt_text name' \<and> ty = ty'
    \<and> opt_text roots = opt_text roots' \<and> opt_text chain = opt_text chain' \<and> opt_text key = opt_text key'"
proof -
  note e = assms(1) [unfolded canonical_key_def append_Cons append_Nil]
  note h = sized_text_split [OF e assms(2,3)]
  note p = dec_int_split [OF h(2), THEN conjunct2]
  note a = sized_text_split [OF p assms(4,5)]
  note n = sized_text_split [OF a(2) assms(6,7)]
  note t = dec_int_split [OF n(2), THEN conjunct2]
  note r = split_at_char [OF t sized_digest_no_bar sized_digest_no_bar]
  note c = split_at_char [OF r(2) sized_digest_no_bar sized_digest_no_bar]
  have i: "inj_on sha {opt_text u, opt_text v}" if "u \<in> set [roots, chain, key, roots', chain', key']" "v \<in> set [roots, chain, key, roots', chain', key']" for u v
    using that by (intro inj_on_subset [OF assms(8)]) auto
  have "opt_text roots = opt_text roots'" "opt_text chain = opt_text chain'" "opt_text key = opt_text key'"
    using sized_digest_eq [OF r(1) i] sized_digest_eq [OF c(1) i] sized_digest_eq [OF c(2) i] by simp_all
  then show ?thesis using h(1) a(1) n(1) dec_int_split [OF h(2)] dec_int_split [OF n(2)] by simp
qed

text \<open>The texts a channel hashes for its key.\<close>

definition key_text :: "(string \<Rightarrow> byte list) \<Rightarrow> channel_obj \<Rightarrow> string" where
  "key_text sha c =
     (let credentials = the (ch_credentials c)
      in canonical_key sha (opt_text (ch_host c)) (ch_port c) (ch_authority c) (ch_tls_verify_name c)
           (credentials_number (cc_type credentials)) (cc_root_certs credentials) (cc_cert_chain credentials) (cc_private_key credentials))"

definition credential_texts :: "channel_obj \<Rightarrow> string list" where
  "credential_texts c =
     (let credentials = the (ch_credentials c)
      in map opt_text [cc_root_certs credentials, cc_cert_chain credentials, cc_private_key credentials])"

definition hashed_texts :: "(string \<Rightarrow> byte list) \<Rightarrow> channel_obj \<Rightarrow> string set" where
  "hashed_texts sha c = insert (key_text sha c) (set (credential_texts c))"

lemma build_channel_key_eq: "grpc_lite_build_channel_key sha c = ''sha256:'' @ hex_bytes (sha (key_text sha c))"
  by (simp add: grpc_lite_build_channel_key_def grpc_lite_build_connection_key_def key_text_def Let_def)

lemma credentials_number_inject: "credentials_number a = credentials_number b \<Longrightarrow> a = b"
  by (cases a; cases b) simp_all

lemma forbidden_no_nul: "\<not> contains_authority_forbidden_char s \<Longrightarrow> no_nul s"
  by (induction s) (auto split: if_splits)

lemma validated_names:
  assumes "validate_channel_inputs key host port auth tls_name = None"
  shows "no_nul (opt_text auth)" "no_nul (opt_text tls_name)"
  using assms by (auto simp: validate_channel_inputs_def opt_text_def Let_def forbidden_no_nul split: if_splits option.splits)

text \<open>What construction establishes.\<close>

definition channel_ready :: "(string \<Rightarrow> byte list) \<Rightarrow> channel_obj \<Rightarrow> bool" where
  "channel_ready sha c \<longleftrightarrow> ch_initialized c \<and> ch_credentials c \<noteq> None \<and> ch_target c \<noteq> None \<and> ch_host c \<noteq> None
     \<and> validate_channel_inputs (opt_text (ch_target c)) (opt_text (ch_host c)) (ch_port c) (ch_authority c) (ch_tls_verify_name c) = None
     \<and> ch_connection_key c = Some (grpc_lite_build_channel_key sha c)"

lemma build_channel_key_cong [simp]:
  "grpc_lite_build_channel_key sha (c\<lparr>ch_connection_key := k, ch_initialized := b\<rparr>) = grpc_lite_build_channel_key sha c"
  by (simp add: grpc_lite_build_channel_key_def)

lemma construct_ready:
  assumes "Channel_construct sha target opts obj = (None, c)"
  shows "channel_ready sha c"
  using assms
  by (auto simp: Channel_construct_def channel_ready_def opt_text_def Let_def split: if_splits option.splits opt_value.splits sum.splits prod.splits)

lemma construct_failed:
  assumes "Channel_construct sha target opts obj = (Some e, c)" "\<not> ch_initialized obj"
  shows "c = grpc_lite_channel_clear_fields obj"
  using assms
  by (auto simp: Channel_construct_def grpc_lite_channel_clear_fields_def Let_def split: if_splits option.splits opt_value.splits sum.splits prod.splits)

section \<open>Properties\<close>

text \<open>
  C34. \<open>Timeval\<close> arithmetic saturates: for two 64 bit values the sum is the exact sum clamped to the range of a 64 bit
  integer, and so is the difference, except that subtracting \<open>infPast\<close> from a negative value is one microsecond short.
  No intermediate value of either computation leaves the range.
\<close>

definition clamp64 :: "int \<Rightarrow> int" where
  "clamp64 x = max ZEND_LONG_MIN (min ZEND_LONG_MAX x)"

theorem timeval_saturates:
  assumes "int64 (tv_microseconds a)" "int64 (tv_microseconds b)"
  shows "tv_microseconds (Timeval_add a b) = clamp64 (tv_microseconds a + tv_microseconds b)
    \<and> tv_microseconds (Timeval_subtract a b) =
           clamp64 (tv_microseconds a - tv_microseconds b)
           - (if b = Timeval_infPast \<and> tv_microseconds a < 0 then 1 else 0)"
  using assms
  by (auto simp: Timeval_add_def Timeval_subtract_def Timeval_infPast_def grpc_lite_saturating_add_def
      grpc_lite_saturating_subtract_def clamp64_def int64_def max_def min_def)

theorem timeval_saturates_witness:
  "tv_microseconds (Timeval_add Timeval_infFuture (Timeval_construct 1)) = ZEND_LONG_MAX
   \<and> tv_microseconds (Timeval_subtract (Timeval_construct (-1)) Timeval_infPast) = ZEND_LONG_MAX - 1"
  using timeval_saturates [of Timeval_infFuture "Timeval_construct 1"]
    timeval_saturates [of "Timeval_construct (-1)" Timeval_infPast]
  by (simp add: Timeval_infFuture_def Timeval_infPast_def Timeval_construct_def int64_def clamp64_def)

text \<open>
  C35. Targets and ports: \<open>host:port\<close> with a port between 1 and 65535 splits back into exactly that host and that port,
  whatever colons the host contains; and every target that splits is either the host itself with the default port 443, or
  the host, a colon and decimal digits whose value is the port, which is never outside 1 to 65535.
\<close>

theorem target_round_trip:
  "(host \<noteq> [] \<and> 0 < p \<and> p \<le> 65535 \<longrightarrow> split_target_to_host_port (host @ '':'' @ dec_int p) = Some (host, p))
   \<and> (split_target_to_host_port t = Some (h, q) \<longrightarrow> 0 < q \<and> q \<le> 65535
      \<and> (h = t \<and> q = 443 \<or> h \<noteq> [] \<and> (\<exists>digits. t = h @ '':'' @ digits \<and> list_all is_digit digits \<and> int (dec_value digits) = q)))"
  using split_target_join [of host p] split_target_parts [of t h q] by blast

theorem target_round_trip_witness:
  "split_target_to_host_port (''[::1]'' @ '':'' @ dec_int 8080) = Some (''[::1]'', 8080)
   \<and> split_target_to_host_port ''example.com'' = Some (''example.com'', 443) \<and> (0 :: int) < 443"
proof -
  have e: "split_target_to_host_port ''example.com'' = Some (''example.com'', 443)"
    by (simp add: split_target_to_host_port_def memrchr_def)
  show ?thesis using target_round_trip [of "''[::1]''" 8080 "''example.com''" "''example.com''" 443] e by simp
qed

text \<open>
  C36. Two constructed channels whose connection keys are equal, and therefore share a connection, agree on host, port,
  authority, TLS name, kind of credentials, root certificates, certificate chain and private key (an absent text counting
  as the empty one), provided SHA-256 does not collide on the texts the two channels hash.
\<close>

theorem connection_key_identifies_channel:
  assumes "Channel_construct sha target opts obj = (None, c)" "Channel_construct sha target' opts' obj' = (None, d)"
    and "inj_on sha (hashed_texts sha c \<union> hashed_texts sha d)"
    and "ch_connection_key c = ch_connection_key d"
  shows "ch_host c = ch_host d \<and> ch_port c = ch_port d \<and> opt_text (ch_authority c) = opt_text (ch_authority d)
    \<and> opt_text (ch_tls_verify_name c) = opt_text (ch_tls_verify_name d)
    \<and> cc_type (the (ch_credentials c)) = cc_type (the (ch_credentials d)) \<and> credential_texts c = credential_texts d"
proof -
  have r: "channel_ready sha c" "channel_ready sha d" using assms(1,2) by (auto intro: construct_ready)
  have "hex_bytes (sha (key_text sha c)) = hex_bytes (sha (key_text sha d))"
    using r assms(4) by (simp add: channel_ready_def build_channel_key_eq)
  then have "sha (key_text sha c) = sha (key_text sha d)" by (rule hex_bytes_inject)
  then have e: "key_text sha c = key_text sha d" by (rule inj_onD [OF assms(3)]) (simp_all add: hashed_texts_def)
  note v = r [unfolded channel_ready_def]
  have n: "no_nul (opt_text (ch_host c))" "no_nul (opt_text (ch_host d))"
    using v validated_authority(1) by blast+
  have m: "no_nul (opt_text (ch_authority c))" "no_nul (opt_text (ch_authority d))"
    "no_nul (opt_text (ch_tls_verify_name c))" "no_nul (opt_text (ch_tls_verify_name d))"
    using v validated_names by blast+
  have i: "inj_on sha (set (credential_texts c @ credential_texts d))"
    by (rule inj_on_subset [OF assms(3)]) (auto simp: hashed_texts_def)
  note k = canonical_key_inject [OF e [unfolded key_text_def Let_def] n m]
  show ?thesis
    using k i v credentials_number_inject by (fastforce simp: credential_texts_def Let_def opt_text_def split: option.splits)
qed

text \<open>An instance: a digest that keeps its text, and two channels one of which spells out an empty authority.\<close>

definition text_bytes :: "string \<Rightarrow> byte list" where
  "text_bytes s = map (\<lambda>c. of_nat (uchar c)) s"

lemma text_bytes_inj: "inj text_bytes"
proof (rule injI)
  fix s t
  assume "text_bytes s = text_bytes t"
  moreover have "inj (\<lambda>c. of_nat (uchar c) :: byte)"
  proof (rule injI)
    fix c d
    assume "of_nat (uchar c) = (of_nat (uchar d) :: byte)"
    then have "unat (of_nat (uchar c) :: byte) = unat (of_nat (uchar d) :: byte)" by simp
    moreover have "uchar x < 256" for x by simp
    ultimately have "uchar c = uchar d" by (simp add: unat_of_nat)
    then show "c = d" by simp
  qed
  ultimately show "s = t" unfolding text_bytes_def by (simp add: inj_map_eq_map)
qed

definition plain_channel :: "string option \<times> channel_obj" where
  "plain_channel = Channel_construct text_bytes ''h:80'' [(''credentials'', OptCredentials (createInsecure None))] grpc_lite_channel_create_object"

definition named_channel :: "string option \<times> channel_obj" where
  "named_channel = Channel_construct text_bytes ''h:80''
     [(''credentials'', OptCredentials (createInsecure None)), (''grpc.default_authority'', OptString [])] grpc_lite_channel_create_object"

lemma split_h80: "split_target_to_host_port ''h:80'' = Some (''h'', 80)"
  by (simp add: split_target_to_host_port_def memrchr_def parse_target_port_def)

lemma example_channels_key:
  "fst plain_channel = None" "fst named_channel = None"
  "ch_connection_key (snd plain_channel) = ch_connection_key (snd named_channel)"
  "ch_authority (snd plain_channel) = None" "ch_authority (snd named_channel) = Some []"
  by (simp_all add: plain_channel_def named_channel_def Channel_construct_def Let_def split_h80 channel_limits_def opt_long_def
      opt_string_def grpc_lite_channel_create_object_def grpc_lite_channel_clear_fields_def validate_channel_inputs_def
      transport_consts dec_int_def dec_nat.simps createInsecure_def grpc_lite_channel_credentials_init_def build_channel_key_eq
      key_text_def canonical_key_def opt_text_def)

theorem connection_key_identifies_channel_witness:
  "fst plain_channel = None \<and> fst named_channel = None
   \<and> ch_connection_key (snd plain_channel) = ch_connection_key (snd named_channel)
   \<and> inj_on text_bytes (hashed_texts text_bytes (snd plain_channel) \<union> hashed_texts text_bytes (snd named_channel))
   \<and> opt_text (ch_authority (snd plain_channel)) = opt_text (ch_authority (snd named_channel))"
proof -
  note k = example_channels_key
  have i: "inj_on text_bytes A" for A using inj_on_subset [OF text_bytes_inj] by blast
  have "plain_channel = (None, snd plain_channel)" "named_channel = (None, snd named_channel)" using k(1,2) by (metis prod.collapse)+
  then have "opt_text (ch_authority (snd plain_channel)) = opt_text (ch_authority (snd named_channel))"
    using connection_key_identifies_channel [OF _ _ i k(3)] by (metis plain_channel_def named_channel_def)
  then show ?thesis using k i by simp
qed

end
