(* ===== verification/Call_Object.thy ===== *)
theory Call_Object
  imports Surface Server_Streaming_Call
begin

text \<open>
  The PHP class \<open>Call\<close> without its network operations (\<open>src/src/surface.c\<close>, \<open>src/src/surface.h\<close>,
  \<open>src/src/wrapper_adapter.c\<close>): construction, credentials, the merge of plugin metadata into the call's
  metadata, storing a send batch, the ways a call is marked as ended, the event a batch returns.
\<close>

section \<open>PHP arrays\<close>

text \<open>In insertion order; an integer key is \<open>None\<close>.  String keys occur once.\<close>

type_synonym php_array = "(string option \<times> php_value) list"

definition php_array_wf :: "php_array \<Rightarrow> bool" where
  "php_array_wf m \<longleftrightarrow> distinct (filter (\<lambda>k. k \<noteq> None) (map fst m))"

definition zend_hash_find :: "string \<Rightarrow> php_array \<Rightarrow> php_value option" where
  "zend_hash_find key m = map_of m (Some key)"

fun zend_hash_update :: "string \<Rightarrow> php_value \<Rightarrow> php_array \<Rightarrow> php_array" where
  "zend_hash_update key v [] = [(Some key, v)]"
| "zend_hash_update key v ((k, u) # m) = (if k = Some key then (k, v) # m else (k, u) # zend_hash_update key v m)"

section \<open>The object\<close>

text \<open>
  The plugin of call credentials is a PHP callable that gets the service URL and the method; it throws,
  or returns an array or something else.
\<close>

datatype plugin_result = PluginThrew string | PluginArray php_array | PluginOther

type_synonym plugin = "string \<Rightarrow> string \<Rightarrow> plugin_result"

record call_credentials =
  cr_callback :: "plugin option"

definition createFromPlugin :: "plugin option \<Rightarrow> string + call_credentials" where
  "createFromPlugin callback =
     (case callback of None \<Rightarrow> Inl ''CallCredentials plugin must be callable'' | Some f \<Rightarrow> Inr \<lparr>cr_callback = Some f\<rparr>)"

record status_obj =
  so_code :: int
  so_details :: string
  so_metadata :: metadata_map

record call_obj =
  cl_channel :: "channel_obj option"
  cl_method :: "string option"
  cl_deadline_us :: int
  cl_credentials :: "call_credentials option"
  cl_request_payload :: "byte list option"
  cl_unary_response_payload :: "byte list option"
  cl_metadata :: php_array
  cl_server_streaming_resource :: "server_streaming_call_state option"
  cl_initial_metadata :: metadata_map
  cl_trailing_metadata :: metadata_map
  cl_status :: "status_obj option"
  cl_unary_performed :: bool
  cl_server_streaming_opened :: bool
  cl_initial_metadata_ready :: bool
  cl_status_ready :: bool
  cl_cancelled :: bool
  cl_initialized :: bool

definition grpc_lite_call_create_object :: call_obj where
  "grpc_lite_call_create_object =
     \<lparr>cl_channel = None, cl_method = None, cl_deadline_us = 0, cl_credentials = None, cl_request_payload = None,
      cl_unary_response_payload = None, cl_metadata = [], cl_server_streaming_resource = None, cl_initial_metadata = [],
      cl_trailing_metadata = [], cl_status = None, cl_unary_performed = False, cl_server_streaming_opened = False,
      cl_initial_metadata_ready = False, cl_status_ready = False, cl_cancelled = False, cl_initialized = False\<rparr>"

definition Call_construct :: "channel_obj \<Rightarrow> string \<Rightarrow> timeval \<Rightarrow> call_obj \<Rightarrow> string option \<times> call_obj" where
  "Call_construct channel method deadline call =
     (if cl_initialized call then (Some (class_error ''Call is already initialized''), call)
      else if \<not> ch_initialized channel then (Some (class_error ''Channel is not initialized''), call)
      else case validate_grpc_path method of
             Some e \<Rightarrow> (Some e, call)
           | None \<Rightarrow> (None, call\<lparr>cl_channel := Some channel, cl_method := Some method,
                                cl_deadline_us := tv_microseconds deadline, cl_initialized := True\<rparr>))"

definition Call_setCredentials :: "call_credentials \<Rightarrow> call_obj \<Rightarrow> string option \<times> call_obj" where
  "Call_setCredentials credentials call =
     (if \<not> cl_initialized call then (Some (class_error ''Call is not initialized''), call)
      else (None, call\<lparr>cl_credentials := Some credentials\<rparr>))"

definition Call_getPeer :: "call_obj \<Rightarrow> string + string" where
  "Call_getPeer call =
     (case cl_channel call of
        Some channel \<Rightarrow>
          if \<not> cl_initialized call then Inl (class_error ''Call is not initialized'')
          else if \<not> ch_initialized channel then Inl (class_error ''Channel is not initialized'')
          else Inr (opt_text (ch_target channel))
      | None \<Rightarrow> Inl (class_error ''Call is not initialized''))"

definition grpc_lite_call_deadline_abs_us :: "call_obj \<Rightarrow> nat" where
  "grpc_lite_call_deadline_abs_us call =
     (if cl_deadline_us call \<le> 0 \<or> cl_deadline_us call = ZEND_LONG_MAX then 0 else nat (cl_deadline_us call))"

section \<open>Marking the end of a call\<close>

definition grpc_lite_make_status_object :: "int \<Rightarrow> string \<Rightarrow> metadata_map \<Rightarrow> status_obj" where
  "grpc_lite_make_status_object code details metadata = \<lparr>so_code = code, so_details = details, so_metadata = metadata\<rparr>"

definition grpc_lite_mark_call_failed :: "int \<Rightarrow> string \<Rightarrow> call_obj \<Rightarrow> call_obj" where
  "grpc_lite_mark_call_failed code details call =
     call\<lparr>cl_initial_metadata := [], cl_trailing_metadata := [],
          cl_status := Some (grpc_lite_make_status_object code details []),
          cl_initial_metadata_ready := True, cl_status_ready := True\<rparr>"

definition grpc_lite_mark_unary_failed :: "int \<Rightarrow> string \<Rightarrow> call_obj \<Rightarrow> call_obj" where
  "grpc_lite_mark_unary_failed code details call =
     (grpc_lite_mark_call_failed code details call)\<lparr>cl_unary_performed := True, cl_unary_response_payload := None\<rparr>"

definition grpc_lite_mark_call_cancelled :: "call_obj \<Rightarrow> call_obj" where
  "grpc_lite_mark_call_cancelled call =
     (if cl_status_ready call then call
      else call\<lparr>cl_initial_metadata := [], cl_trailing_metadata := [],
                cl_status := Some (grpc_lite_make_status_object GRPC_STATUS_CANCELLED ''Cancelled'' []),
                cl_initial_metadata_ready := True, cl_status_ready := True, cl_unary_performed := True\<rparr>)"

section \<open>Call credentials\<close>

definition grpc_lite_call_has_credentials_plugin :: "call_obj \<Rightarrow> bool" where
  "grpc_lite_call_has_credentials_plugin call \<longleftrightarrow>
     (case cl_credentials call of None \<Rightarrow> False | Some credentials \<Rightarrow> cr_callback credentials \<noteq> None)"

definition grpc_lite_channel_is_secure :: "channel_obj \<Rightarrow> bool" where
  "grpc_lite_channel_is_secure channel \<longleftrightarrow> cc_type (the (ch_credentials channel)) \<noteq> CredentialsInsecure"

definition grpc_lite_fail_if_call_credentials_require_secure_channel :: "call_obj \<Rightarrow> channel_obj \<Rightarrow> bool \<times> call_obj" where
  "grpc_lite_fail_if_call_credentials_require_secure_channel call channel =
     (if \<not> grpc_lite_call_has_credentials_plugin call \<or> grpc_lite_channel_is_secure channel then (False, call)
      else (True, grpc_lite_mark_call_failed GRPC_STATUS_UNAUTHENTICATED ''CallCredentials require a secure channel'' call))"

section \<open>Merging metadata\<close>

definition values_of :: "php_value \<Rightarrow> php_value list" where
  "values_of v = (case v of PhpArray vs \<Rightarrow> vs | _ \<Rightarrow> [v])"

definition grpc_lite_append_metadata_zval :: "string option \<Rightarrow> php_value \<Rightarrow> php_array \<Rightarrow> php_array" where
  "grpc_lite_append_metadata_zval key value metadata =
     (case key of
        None \<Rightarrow> metadata
      | Some key \<Rightarrow>
          (case zend_hash_find key metadata of
             None \<Rightarrow> zend_hash_update key value metadata
           | Some existing \<Rightarrow> zend_hash_update key (PhpArray (values_of existing @ values_of value)) metadata))"

text \<open>The buffer is \<open>None\<close> until something, perhaps an empty string, was appended to it.\<close>

definition grpc_lite_append_x_goog_api_client_part :: "php_value \<Rightarrow> string option \<Rightarrow> string option option" where
  "grpc_lite_append_x_goog_api_client_part value buffer =
     (case value of
        PhpString s \<Rightarrow>
          (let text = opt_text buffer in Some (Some ((if text \<noteq> [] then text @ '' '' else text) @ s)))
      | _ \<Rightarrow> None)"

fun append_parts :: "php_value list \<Rightarrow> string option \<Rightarrow> string option option" where
  "append_parts [] buffer = Some buffer"
| "append_parts (v # vs) buffer =
     (case grpc_lite_append_x_goog_api_client_part v buffer of None \<Rightarrow> None | Some buffer \<Rightarrow> append_parts vs buffer)"

definition grpc_lite_append_x_goog_api_client_parts :: "php_value \<Rightarrow> string option \<Rightarrow> string option option" where
  "grpc_lite_append_x_goog_api_client_parts value buffer =
     (case value of PhpArray vs \<Rightarrow> append_parts vs buffer | _ \<Rightarrow> grpc_lite_append_x_goog_api_client_part value buffer)"

text \<open>The metadata with the folded value, or \<open>None\<close> when it has to be appended unfolded.\<close>

definition grpc_lite_fold_x_goog_api_client :: "string option \<Rightarrow> php_value \<Rightarrow> php_array \<Rightarrow> php_array option" where
  "grpc_lite_fold_x_goog_api_client key value metadata =
     (if key \<noteq> Some ''x-goog-api-client'' then None
      else
        (let start = (case zend_hash_find ''x-goog-api-client'' metadata of
                        None \<Rightarrow> Some None
                      | Some existing \<Rightarrow> grpc_lite_append_x_goog_api_client_parts existing None)
         in case start of
              None \<Rightarrow> None
            | Some buffer \<Rightarrow>
                (case grpc_lite_append_x_goog_api_client_parts value buffer of
                   Some (Some text) \<Rightarrow> Some (zend_hash_update ''x-goog-api-client'' (PhpArray [PhpString text]) metadata)
                 | _ \<Rightarrow> None)))"

definition merge_entry :: "string option \<times> php_value \<Rightarrow> php_array \<Rightarrow> php_array" where
  "merge_entry entry metadata =
     (case entry of (key, value) \<Rightarrow>
        case grpc_lite_fold_x_goog_api_client key value metadata of
          Some metadata \<Rightarrow> metadata
        | None \<Rightarrow> grpc_lite_append_metadata_zval key value metadata)"

definition grpc_lite_merge_metadata_append_values :: "php_array \<Rightarrow> php_array \<Rightarrow> php_array" where
  "grpc_lite_merge_metadata_append_values metadata source = fold merge_entry source metadata"

definition service_url :: "channel_obj \<Rightarrow> string \<Rightarrow> string" where
  "service_url channel method =
     (let service_len = (case memrchr CHR ''/'' method of Some i \<Rightarrow> i | None \<Rightarrow> length method)
      in (if cc_type (the (ch_credentials channel)) = CredentialsInsecure then ''http'' else ''https'') @ ''://''
         @ c_str (opt_text (ch_target channel)) @ take service_len (c_str method))"

definition grpc_lite_merge_call_credentials_metadata :: "call_obj \<Rightarrow> channel_obj \<Rightarrow> string option \<times> call_obj" where
  "grpc_lite_merge_call_credentials_metadata call channel =
     (case cl_credentials call of
        None \<Rightarrow> (None, call)
      | Some credentials \<Rightarrow>
          (case cr_callback credentials of
             None \<Rightarrow> (None, call)
           | Some callback \<Rightarrow>
               (case callback (service_url channel (opt_text (cl_method call))) (opt_text (cl_method call)) of
                  PluginThrew e \<Rightarrow> (Some e, call)
                | PluginOther \<Rightarrow> (Some ''CallCredentials plugin must return an array'', call)
                | PluginArray retval \<Rightarrow>
                    (None, call\<lparr>cl_metadata := grpc_lite_merge_metadata_append_values (cl_metadata call) retval\<rparr>))))"

section \<open>Batches and events\<close>

abbreviation (input) GRPC_OP_SEND_INITIAL_METADATA :: int where "GRPC_OP_SEND_INITIAL_METADATA \<equiv> 0"
abbreviation (input) GRPC_OP_SEND_MESSAGE :: int where "GRPC_OP_SEND_MESSAGE \<equiv> 1"
abbreviation (input) GRPC_OP_SEND_CLOSE_FROM_CLIENT :: int where "GRPC_OP_SEND_CLOSE_FROM_CLIENT \<equiv> 2"
abbreviation (input) GRPC_OP_RECV_INITIAL_METADATA :: int where "GRPC_OP_RECV_INITIAL_METADATA \<equiv> 4"
abbreviation (input) GRPC_OP_RECV_MESSAGE :: int where "GRPC_OP_RECV_MESSAGE \<equiv> 5"
abbreviation (input) GRPC_OP_RECV_STATUS_ON_CLIENT :: int where "GRPC_OP_RECV_STATUS_ON_CLIENT \<equiv> 6"

datatype op_value = OpArray php_array | OpOther

type_synonym batch = "int \<rightharpoonup> op_value"

text \<open>The string of a PHP value as bytes.\<close>

definition store_send_message :: "op_value \<Rightarrow> call_obj \<Rightarrow> string option \<times> call_obj" where
  "store_send_message message call =
     (case message of
        OpOther \<Rightarrow> (Some ''OP_SEND_MESSAGE expects an array'', call)
      | OpArray entries \<Rightarrow>
          (case zend_hash_find ''message'' entries of
             Some (PhpString s) \<Rightarrow> (None, call\<lparr>cl_request_payload := Some (text_bytes s), cl_unary_response_payload := None\<rparr>)
           | _ \<Rightarrow> (Some ''OP_SEND_MESSAGE expects a string message'', call)))"

definition grpc_lite_store_send_batch :: "batch \<Rightarrow> call_obj \<Rightarrow> string option \<times> call_obj" where
  "grpc_lite_store_send_batch ops call =
     (let call = (case ops GRPC_OP_SEND_INITIAL_METADATA of
                    None \<Rightarrow> call
                  | Some (OpArray m) \<Rightarrow> call\<lparr>cl_metadata := m\<rparr>
                  | Some OpOther \<Rightarrow> call\<lparr>cl_metadata := []\<rparr>)
      in case ops GRPC_OP_SEND_MESSAGE of None \<Rightarrow> (None, call) | Some message \<Rightarrow> store_send_message message call)"

record event =
  ev_metadata :: "metadata_map option"
  ev_message :: "byte list option option"
  ev_status :: "status_obj option"

definition grpc_lite_add_event_metadata :: "metadata_map \<Rightarrow> event \<Rightarrow> event" where
  "grpc_lite_add_event_metadata metadata event = event\<lparr>ev_metadata := Some metadata\<rparr>"

definition grpc_lite_add_event_message :: "byte list option \<Rightarrow> event \<Rightarrow> event" where
  "grpc_lite_add_event_message message event = event\<lparr>ev_message := Some message\<rparr>"

definition grpc_lite_add_event_status :: "status_obj option \<Rightarrow> event \<Rightarrow> event" where
  "grpc_lite_add_event_status status event = (case status of Some s \<Rightarrow> event\<lparr>ev_status := Some s\<rparr> | None \<Rightarrow> event)"

text \<open>What a batch on a call that has ended returns: no message, the recorded metadata and status.\<close>

definition ended_event :: "batch \<Rightarrow> call_obj \<Rightarrow> event" where
  "ended_event ops call =
     (let event = \<lparr>ev_metadata = None, ev_message = None, ev_status = None\<rparr>;
          event = (if ops GRPC_OP_RECV_INITIAL_METADATA \<noteq> None then grpc_lite_add_event_metadata (cl_initial_metadata call) event else event);
          event = (if ops GRPC_OP_RECV_MESSAGE \<noteq> None then grpc_lite_add_event_message None event else event)
      in if ops GRPC_OP_RECV_STATUS_ON_CLIENT \<noteq> None then grpc_lite_add_event_status (cl_status call) event else event)"

section \<open>The merge keeps every value\<close>

definition metadata_values :: "php_array \<Rightarrow> string \<Rightarrow> php_value list" where
  "metadata_values m key = (case zend_hash_find key m of None \<Rightarrow> [] | Some v \<Rightarrow> values_of v)"

definition php_text :: "php_value \<Rightarrow> string" where
  "php_text v = (case v of PhpString s \<Rightarrow> s | _ \<Rightarrow> [])"

definition is_text :: "php_value \<Rightarrow> bool" where
  "is_text v \<longleftrightarrow> v = PhpString (php_text v)"

fun spaced :: "string list \<Rightarrow> string" where
  "spaced [] = []"
| "spaced [s] = s"
| "spaced (s # t # ss) = s @ '' '' @ spaced (t # ss)"

text \<open>Abstractly: the texts separated by blanks, leading empty ones left out.\<close>

definition folded_text :: "php_value list \<Rightarrow> string" where
  "folded_text vs = spaced (dropWhile (\<lambda>s. s = []) (map php_text vs))"

lemma find_update [simp]:
  "zend_hash_find k (zend_hash_update k' v m) = (if k = k' then Some v else zend_hash_find k m)"
  by (induction m rule: zend_hash_update.induct) (auto simp: zend_hash_find_def)

lemma update_keys [simp]:
  "map fst (zend_hash_update k v m) = (if zend_hash_find k m = None then map fst m @ [Some k] else map fst m)"
  by (induction m rule: zend_hash_update.induct) (auto simp: zend_hash_find_def)

lemma is_text_simps [simp]: "is_text (PhpString s)" "\<not> is_text (PhpArray vs)" "\<not> is_text PhpOther" "php_text (PhpString s) = s"
  by (simp_all add: is_text_def php_text_def)

lemma spaced_append: "spaced (ss @ [s]) = (if ss = [] then s else spaced ss @ '' '' @ s)"
  by (induction ss rule: spaced.induct) auto

lemma part_step:
  "buffer = (if seen = [] then None else Some (folded_text seen)) \<Longrightarrow>
   grpc_lite_append_x_goog_api_client_part v buffer = (if is_text v then Some (Some (folded_text (seen @ [v]))) else None)"
proof (cases v)
  case (PhpString s)
  assume b: "buffer = (if seen = [] then None else Some (folded_text seen))"
  have t: "opt_text buffer = folded_text seen" using b by (simp add: opt_text_def folded_text_def)
  have "folded_text seen = [] \<longleftrightarrow> (\<forall>x \<in> set seen. php_text x = [])"
  proof -
    have "spaced ss = [] \<longleftrightarrow> ss = [] \<or> ss = [[]]" for ss :: "string list" by (cases ss rule: spaced.cases) auto
    moreover have "dropWhile (\<lambda>s. s = []) ss \<noteq> [[]]" for ss :: "string list" by (induction ss) auto
    ultimately show ?thesis by (auto simp: folded_text_def)
  qed
  then have "folded_text (seen @ [v]) = (if folded_text seen \<noteq> [] then folded_text seen @ '' '' else folded_text seen) @ s"
    using PhpString by (auto simp: folded_text_def dropWhile_append spaced_append)
  then show ?thesis using PhpString t by (simp add: grpc_lite_append_x_goog_api_client_part_def Let_def)
qed (simp_all add: grpc_lite_append_x_goog_api_client_part_def)

definition folded_buffer :: "php_value list \<Rightarrow> string option" where
  "folded_buffer seen = (if seen = [] then None else Some (folded_text seen))"

lemma append_parts_eq:
  "append_parts vs (folded_buffer seen) = (if list_all is_text vs then Some (folded_buffer (seen @ vs)) else None)"
proof (induction vs arbitrary: seen)
  case (Cons v vs)
  show ?case using part_step [of "folded_buffer seen" seen v] Cons [of "seen @ [v]"] by (simp add: folded_buffer_def)
qed simp

lemma parts_eq:
  "grpc_lite_append_x_goog_api_client_parts v (folded_buffer seen)
     = (if list_all is_text (values_of v) then Some (folded_buffer (seen @ values_of v)) else None)"
proof (cases v)
  case (PhpArray vs)
  then show ?thesis by (simp add: grpc_lite_append_x_goog_api_client_parts_def values_of_def append_parts_eq)
qed (use part_step [of "folded_buffer seen" seen v] in
      \<open>simp_all add: grpc_lite_append_x_goog_api_client_parts_def values_of_def folded_buffer_def\<close>)

lemma fold_goog_eq:
  "grpc_lite_fold_x_goog_api_client (Some ''x-goog-api-client'') v m =
     (let vs = metadata_values m ''x-goog-api-client'' @ values_of v
      in if list_all is_text vs \<and> vs \<noteq> [] then Some (zend_hash_update ''x-goog-api-client'' (PhpArray [PhpString (folded_text vs)]) m) else None)"
proof -
  have start: "(case zend_hash_find ''x-goog-api-client'' m of None \<Rightarrow> Some None
      | Some existing \<Rightarrow> grpc_lite_append_x_goog_api_client_parts existing None)
    = (if list_all is_text (metadata_values m ''x-goog-api-client'') then Some (folded_buffer (metadata_values m ''x-goog-api-client'')) else None)"
    using parts_eq [of _ "[]"] by (cases "zend_hash_find ''x-goog-api-client'' m") (simp_all add: metadata_values_def folded_buffer_def)
  show ?thesis unfolding grpc_lite_fold_x_goog_api_client_def start by (simp add: Let_def parts_eq) (simp add: folded_buffer_def)
qed

definition merged_values :: "string \<Rightarrow> php_value list \<Rightarrow> php_value list \<Rightarrow> php_value list" where
  "merged_values key old new =
     (if key = ''x-goog-api-client'' \<and> list_all is_text (old @ new) \<and> old @ new \<noteq> [] then [PhpString (folded_text (old @ new))]
      else old @ new)"

lemma merge_entry_values:
  "metadata_values (merge_entry (k, v) m) key =
     (if k = Some key then merged_values key (metadata_values m key) (values_of v) else metadata_values m key)"
proof (cases k)
  case None
  then show ?thesis by (simp add: merge_entry_def grpc_lite_fold_x_goog_api_client_def grpc_lite_append_metadata_zval_def)
next
  case (Some k')
  have app: "metadata_values (grpc_lite_append_metadata_zval (Some k') v m) key =
      (if k' = key then metadata_values m key @ values_of v else metadata_values m key)"
    by (auto simp: grpc_lite_append_metadata_zval_def metadata_values_def values_of_def split: option.split)
  show ?thesis
  proof (cases "k' = ''x-goog-api-client''")
    case True
    then show ?thesis using Some app fold_goog_eq [of v m]
      by (auto simp: merge_entry_def merged_values_def Let_def metadata_values_def values_of_def)
  next
    case False
    then show ?thesis using Some app by (simp add: merge_entry_def merged_values_def grpc_lite_fold_x_goog_api_client_def)
  qed
qed

lemma merge_entry_keys:
  "map fst (merge_entry (k, v) m) = (if k = None \<or> k \<in> set (map fst m) then map fst m else map fst m @ [k])"
proof (cases k)
  case None
  then show ?thesis by (simp add: merge_entry_def grpc_lite_fold_x_goog_api_client_def grpc_lite_append_metadata_zval_def)
next
  case (Some k')
  have f: "zend_hash_find k' m = None \<longleftrightarrow> Some k' \<notin> set (map fst m)" by (simp add: zend_hash_find_def map_of_eq_None_iff)
  have "map fst (grpc_lite_append_metadata_zval (Some k') v m) = (if zend_hash_find k' m = None then map fst m @ [Some k'] else map fst m)"
    by (auto simp: grpc_lite_append_metadata_zval_def split: option.split)
  then show ?thesis using Some f fold_goog_eq [of v m]
    by (cases "k' = ''x-goog-api-client''") (auto simp: merge_entry_def Let_def grpc_lite_fold_x_goog_api_client_def)
qed

lemma metadata_Cons [simp]:
  "zend_hash_find key ((k, v) # s) = (if k = Some key then Some v else zend_hash_find key s)"
  "metadata_values ((k, v) # s) key = (if k = Some key then values_of v else metadata_values s key)"
  by (auto simp: metadata_values_def zend_hash_find_def)

lemma merge_values:
  assumes "distinct (filter (\<lambda>k. k \<noteq> None) (map fst s))"
  shows "metadata_values (fold merge_entry s m) key =
    (if zend_hash_find key s = None then metadata_values m key
     else merged_values key (metadata_values m key) (metadata_values s key))"
  using assms
proof (induction s arbitrary: m)
  case (Cons e s)
  obtain k v where e: "e = (k, v)" by fastforce
  have d: "distinct (filter (\<lambda>k. k \<noteq> None) (map fst s))" using Cons.prems by (cases "fst e = None") simp_all
  show ?case
  proof (cases "k = Some key")
    case True
    then have "zend_hash_find key s = None"
      using Cons.prems e by (force simp: zend_hash_find_def map_of_eq_None_iff)
    then show ?thesis using Cons.IH [OF d, of "merge_entry e m"] True e
      by (simp add: merge_entry_values)
  next
    case False
    then show ?thesis using Cons.IH [OF d, of "merge_entry e m"] e
      by (simp add: merge_entry_values)
  qed
qed (simp add: zend_hash_find_def)

lemma merge_keys:
  assumes "distinct (filter (\<lambda>k. k \<noteq> None) (map fst s))"
  shows "map fst (fold merge_entry s m) = map fst m @ filter (\<lambda>k. k \<noteq> None \<and> k \<notin> set (map fst m)) (map fst s)"
  using assms
proof (induction s arbitrary: m)
  case (Cons e s)
  obtain k v where e: "e = (k, v)" by fastforce
  have d: "distinct (filter (\<lambda>k. k \<noteq> None) (map fst s))" using Cons.prems by (cases "fst e = None") simp_all
  note keys = merge_entry_keys [of k v m]
  show ?case
  proof (cases "k = None \<or> k \<in> set (map fst m)")
    case True
    then show ?thesis using Cons.IH [OF d, of "merge_entry e m"] keys e by auto
  next
    case False
    have "k \<notin> set (map fst s)" using Cons.prems False e by auto
    then have "filter (\<lambda>j. j \<noteq> None \<and> j \<notin> set (map fst m @ [k])) (map fst s) = filter (\<lambda>j. j \<noteq> None \<and> j \<notin> set (map fst m)) (map fst s)"
      by (intro filter_cong) auto
    then show ?thesis using Cons.IH [OF d, of "merge_entry e m"] keys e False by simp
  qed
qed simp

section \<open>Properties\<close>

text \<open>
  C37. Metadata a credentials plugin returns is merged without loss.  For every key the values afterwards are the call's
  own values followed by the plugin's, in order; only for \<open>x-goog-api-client\<close>, when all its values are strings, they
  become one value, the texts separated by single blanks.  The call's keys keep their order, followed by the new ones.
\<close>

theorem plugin_metadata_merged:
  assumes "php_array_wf source"
  shows "metadata_values (grpc_lite_merge_metadata_append_values metadata source) key =
      (if zend_hash_find key source = None then metadata_values metadata key
       else merged_values key (metadata_values metadata key) (metadata_values source key))
    \<and> map fst (grpc_lite_merge_metadata_append_values metadata source)
      = map fst metadata @ filter (\<lambda>k. k \<noteq> None \<and> k \<notin> set (map fst metadata)) (map fst source)"
  using merge_values [of source metadata key] merge_keys [of source metadata] assms
  by (simp add: php_array_wf_def grpc_lite_merge_metadata_append_values_def)

theorem plugin_metadata_merged_witness:
  "php_array_wf [(Some ''x-goog-api-client'', PhpArray [PhpString ''b'']), (Some ''k'', PhpString ''2'')]
   \<and> metadata_values (grpc_lite_merge_metadata_append_values
        [(Some ''k'', PhpString ''1''), (Some ''x-goog-api-client'', PhpString ''a'')]
        [(Some ''x-goog-api-client'', PhpArray [PhpString ''b'']), (Some ''k'', PhpString ''2'')]) ''x-goog-api-client''
      = [PhpString ''a b'']"
proof -
  let ?s = "[(Some ''x-goog-api-client'', PhpArray [PhpString ''b'']), (Some ''k'', PhpString ''2'')]"
  have wf: "php_array_wf ?s" by (simp add: php_array_wf_def)
  show ?thesis
    using plugin_metadata_merged [OF wf, of "[(Some ''k'', PhpString ''1''), (Some ''x-goog-api-client'', PhpString ''a'')]" "''x-goog-api-client''"] wf
    by (simp add: metadata_values_def zend_hash_find_def merged_values_def values_of_def folded_text_def)
qed

end
