(* ===== verification/Wrapper_Adapter.thy ===== *)
theory Wrapper_Adapter
  imports Call_Object
begin

text \<open>
  The network operations of the PHP class \<open>Call\<close> (\<open>src/src/wrapper_adapter.c\<close>, \<open>src/src/surface.c\<close>): a unary call with
  its transparent retry, opening, retrying and pulling a server-streaming call, \<open>startBatch\<close>, cancelling, and freeing the
  object.  Trace output is left out.
\<close>

section \<open>The environment\<close>

text \<open>
  Everything a call takes from outside: nghttp2 and the configuration, the codec of binary metadata, what connecting
  finds, the addresses the allocator returns, and what nghttp2 will do on a connection.  Each answer may depend on
  the heap and on the state of the outside world at the time it is asked for.
\<close>

record ('ss, 'x) client_env =
  en_lib :: "'ss lib"
  en_globals :: module_globals
  en_enc :: "string \<Rightarrow> string"
  en_dec :: "string \<Rightarrow> string option"
  en_setup :: "'ss heap \<Rightarrow> io_world \<Rightarrow> ('ss, 'x) setup_env"
  en_conn :: "'ss heap \<Rightarrow> conn_id"
  en_call :: "'ss heap \<Rightarrow> call_id"
  en_preflight :: "'ss heap \<Rightarrow> io_world \<Rightarrow> string \<Rightarrow> 'ss round list"
  en_unary :: "'ss heap \<Rightarrow> io_world \<Rightarrow> conn_id \<Rightarrow> 'ss call_script"
  en_send :: "'ss heap \<Rightarrow> io_world \<Rightarrow> conn_id option \<Rightarrow> 'ss send_script"
  en_next :: "'ss heap \<Rightarrow> io_world \<Rightarrow> conn_id option \<Rightarrow> 'ss stream_round list \<times> 'ss send_script \<times> 'ss send_script"

section \<open>Unary calls\<close>

definition call_request_of :: "call_obj \<Rightarrow> channel_obj \<Rightarrow> nat \<Rightarrow> call_request" where
  "call_request_of call channel attempt =
     \<lparr>rq_path = opt_text (cl_method call), rq_request = the (cl_request_payload call), rq_headers = Some (cl_metadata call),
      rq_user_agent = ch_primary_user_agent channel, rq_deadline_abs_us = grpc_lite_call_deadline_abs_us call,
      rq_max_receive_message_length = ch_max_receive_message_length channel,
      rq_max_response_metadata_bytes = ch_max_response_metadata_bytes channel, rq_retry_attempt = attempt\<rparr>"

datatype attempt_result =
    AttemptThrew string
  | AttemptNoConnection int string
  | AttemptResult unary_result conn_id
  | AttemptNone

definition unary_attempt ::
    "('ss, 'x) client_env \<Rightarrow> channel_obj \<Rightarrow> string \<Rightarrow> call_obj \<Rightarrow> nat \<Rightarrow> 'ss heap \<Rightarrow> io_world
      \<Rightarrow> (attempt_result \<times> 'ss heap \<times> io_world) res" where
  "unary_attempt E channel key call attempt h w =
     (let R = call_request_of call channel attempt
      in and_then (get_persistent_connection (en_lib E) (en_globals E) (en_setup E h w) (channel_target_of channel) key
             (rq_deadline_abs_us R) (en_preflight E h w key) (en_conn E h) h w) (\<lambda>(r, h, w).
           case r of
             Inl message \<Rightarrow>
               (case no_connection_code (rq_deadline_abs_us R) message w of
                  None \<Rightarrow> Blocked
                | Some (code, w) \<Rightarrow> Ok (AttemptNoConnection code message, h, w))
           | Inr (self, persistent_reused) \<Rightarrow>
               (let k = en_call E h; script = en_unary E (put_call k (new_call self 1 R) h) w self
                in and_then (grpc_lite_unary_call_perform_core_on_connection (en_lib E) (en_globals E) (en_enc E) (en_dec E) self k R
                       script h w) (\<lambda>(res, h, w).
                     case res of
                       Inl e \<Rightarrow> Ok (AttemptThrew e, h, w)
                     | Inr u \<Rightarrow> Ok (AttemptResult u self, h, w)))))"

text \<open>The loop over \<open>retry_attempt\<close>; the list holds the attempts that are left.\<close>

fun unary_attempts ::
    "('ss, 'x) client_env \<Rightarrow> channel_obj \<Rightarrow> string \<Rightarrow> call_obj \<Rightarrow> nat list \<Rightarrow> 'ss heap \<Rightarrow> io_world
      \<Rightarrow> (attempt_result \<times> 'ss heap \<times> io_world) res" where
  "unary_attempts E channel key call [] h w = Ok (AttemptNone, h, w)"
| "unary_attempts E channel key call (attempt # attempts) h w =
     and_then (unary_attempt E channel key call attempt h w) (\<lambda>(r, h, w).
       case r of
         AttemptResult u self \<Rightarrow>
           if \<not> transparent_retryable_unprocessed (ur_outcome u) then Ok (r, h, w)
           else and_then (if refused_kind (ur_outcome u) = GRPC_LITE_REFUSED_GOAWAY
                          then remove_unusable_persistent_connection key self h else Ok h) (\<lambda>h.
                  unary_attempts E channel key call attempts h w)
       | _ \<Rightarrow> Ok (r, h, w))"

definition store_unary_result :: "unary_result \<Rightarrow> call_obj \<Rightarrow> call_obj" where
  "store_unary_result u call =
     call\<lparr>cl_initial_metadata := ur_initial_metadata u, cl_trailing_metadata := ur_trailing_metadata u,
          cl_status := Some (grpc_lite_make_status_object (sr_code (ur_status u)) (sr_details (ur_status u)) (ur_trailing_metadata u)),
          cl_initial_metadata_ready := True, cl_status_ready := True,
          cl_unary_response_payload := (if sr_code (ur_status u) = GRPC_STATUS_OK then ur_body u else None),
          cl_unary_performed := True\<rparr>"

datatype credentials_outcome = CredentialsApplied | CredentialsRefused | CredentialsThrew string

definition apply_call_credentials :: "call_obj \<Rightarrow> channel_obj \<Rightarrow> credentials_outcome \<times> call_obj" where
  "apply_call_credentials call channel =
     (case grpc_lite_fail_if_call_credentials_require_secure_channel call channel of
        (True, call) \<Rightarrow> (CredentialsRefused, call)
      | (False, call) \<Rightarrow>
          (case grpc_lite_merge_call_credentials_metadata call channel of
             (Some e, call) \<Rightarrow> (CredentialsThrew e, call)
           | (None, call) \<Rightarrow> (CredentialsApplied, call)))"

text \<open>
  \<open>Some\<close> is the exception.  Leaving the loop without a result would be a failure without exception, which PHP treats as an
  internal error; it is a \<open>Fault\<close> here and shown not to happen.
\<close>

definition grpc_lite_perform_call_unary ::
    "('ss, 'x) client_env \<Rightarrow> call_obj \<Rightarrow> 'ss heap \<Rightarrow> io_world \<Rightarrow> (string option \<times> call_obj \<times> 'ss heap \<times> io_world) res" where
  "grpc_lite_perform_call_unary E call h w =
     (case cl_channel call of
        None \<Rightarrow> Fault
      | Some channel \<Rightarrow>
      if cl_request_payload call = None then Ok (Some ''Call has no request message'', call, h, w)
      else case apply_call_credentials call channel of
        (CredentialsRefused, call) \<Rightarrow> Ok (None, call\<lparr>cl_unary_performed := True\<rparr>, h, w)
      | (CredentialsThrew e, call) \<Rightarrow> Ok (Some e, call, h, w)
      | (CredentialsApplied, call) \<Rightarrow>
          (case ch_connection_key channel of
             None \<Rightarrow> Ok (Some (class_error ''Channel connection key is not initialized''), call, h, w)
           | Some key \<Rightarrow>
               and_then (unary_attempts E channel key call [0, 1] h w) (\<lambda>(r, h, w).
                 case r of
                   AttemptThrew e \<Rightarrow> Ok (Some e, call, h, w)
                 | AttemptNone \<Rightarrow> Fault
                 | AttemptNoConnection code message \<Rightarrow> Ok (None, grpc_lite_mark_unary_failed code message call, h, w)
                 | AttemptResult u self \<Rightarrow>
                     on_conn h self (\<lambda>c.
                       and_then (if \<not> connection_usable (Some c) then remove_unusable_persistent_connection key self h else Ok h) (\<lambda>h.
                         Ok (None, store_unary_result u call, h, w))))))"

section \<open>Server-streaming calls\<close>

definition stream_connection :: "server_streaming_call_state \<Rightarrow> 'ss heap \<Rightarrow> conn_id option" where
  "stream_connection st h = (case hp_calls h (st_call st) of None \<Rightarrow> None | Some call \<Rightarrow> connection call)"

text \<open>Dropping the only reference to a streaming resource runs its destructor.\<close>

definition drop_streaming_resource ::
    "('ss, 'x) client_env \<Rightarrow> call_obj \<Rightarrow> 'ss heap \<Rightarrow> io_world \<Rightarrow> (call_obj \<times> 'ss heap \<times> io_world) res" where
  "drop_streaming_resource E call h w =
     (case cl_server_streaming_resource call of
        None \<Rightarrow> Ok (call, h, w)
      | Some st \<Rightarrow>
          and_then (destroy_server_streaming_call_state (en_lib E) (en_send E h w (stream_connection st h)) st h w) (\<lambda>(h, w).
            Ok (call\<lparr>cl_server_streaming_resource := None\<rparr>, h, w)))"

definition open_script_of :: "('ss, 'x) client_env \<Rightarrow> call_request \<Rightarrow> string \<Rightarrow> call_id \<Rightarrow> 'ss heap \<Rightarrow> io_world \<Rightarrow> 'ss open_script" where
  "open_script_of E R key k h w =
     \<lparr>os_preflight = en_preflight E h w key,
      os_initial = (\<lambda>self. en_send E (put_call k (new_call self 0 R) h) w (Some self)),
      os_cancel = (\<lambda>self. en_send E (put_call k (new_call self 0 R) h) w (Some self))\<rparr>"

definition open_stream ::
    "('ss, 'x) client_env \<Rightarrow> channel_obj \<Rightarrow> string \<Rightarrow> nat \<Rightarrow> call_obj \<Rightarrow> 'ss heap \<Rightarrow> io_world
      \<Rightarrow> (string option \<times> call_obj \<times> 'ss heap \<times> io_world) res" where
  "open_stream E channel key attempt call h w =
     (let R = call_request_of call channel attempt; k = en_call E h
      in and_then (server_streaming_call_open_resource (en_lib E) (en_globals E) (en_enc E) (en_setup E h w) (channel_target_of channel) key True
             (open_script_of E R key k h w) (en_conn E h) k R h w) (\<lambda>(r, h, w).
           case r of
             OpenThrew e \<Rightarrow> Ok (Some e, call, h, w)
           | Opened st \<Rightarrow> Ok (None, call\<lparr>cl_server_streaming_resource := Some st, cl_server_streaming_opened := True\<rparr>, h, w)
           | SetupFailed s \<Rightarrow>
               Ok (None, grpc_lite_mark_call_failed (sr_code s) (sr_details s) (call\<lparr>cl_server_streaming_opened := True\<rparr>), h, w)))"

definition grpc_lite_open_call_stream_attempt ::
    "('ss, 'x) client_env \<Rightarrow> nat \<Rightarrow> bool \<Rightarrow> call_obj \<Rightarrow> 'ss heap \<Rightarrow> io_world
      \<Rightarrow> (string option \<times> call_obj \<times> 'ss heap \<times> io_world) res" where
  "grpc_lite_open_call_stream_attempt E attempt prepare_metadata call h w =
     (case cl_channel call of
        None \<Rightarrow> Fault
      | Some channel \<Rightarrow>
      if cl_server_streaming_opened call then Ok (None, call, h, w)
      else if cl_request_payload call = None then Ok (Some ''Call has no request message'', call, h, w)
      else case (if prepare_metadata then apply_call_credentials call channel else (CredentialsApplied, call)) of
        (CredentialsRefused, call) \<Rightarrow> Ok (None, call, h, w)
      | (CredentialsThrew e, call) \<Rightarrow> Ok (Some e, call, h, w)
      | (CredentialsApplied, call) \<Rightarrow>
          (case ch_connection_key channel of
             None \<Rightarrow> Ok (Some (class_error ''Channel connection key is not initialized''), call, h, w)
           | Some key \<Rightarrow>
               and_then (drop_streaming_resource E call h w) (\<lambda>(call, h, w). open_stream E channel key attempt call h w)))"

definition grpc_lite_retry_call_stream ::
    "('ss, 'x) client_env \<Rightarrow> call_obj \<Rightarrow> 'ss heap \<Rightarrow> io_world \<Rightarrow> (string option \<times> call_obj \<times> 'ss heap \<times> io_world) res" where
  "grpc_lite_retry_call_stream E call h w =
     grpc_lite_open_call_stream_attempt E 1 False (call\<lparr>cl_server_streaming_opened := False\<rparr>) h w"

text \<open>The outcome of a message is all zero, as \<open>memset\<close> leaves it.\<close>

definition next_retryable :: "streaming_next_result \<Rightarrow> bool" where
  "next_retryable r = (case r of NextMessage m i \<Rightarrow> False | NextDone s i t a \<Rightarrow> transparent_retryable_unprocessed a)"

definition recorded_result :: "status_obj \<Rightarrow> call_obj \<Rightarrow> streaming_next_result" where
  "recorded_result s call =
     NextDone \<lparr>sr_code = so_code s, sr_details = so_details s\<rparr> (cl_initial_metadata call) (cl_trailing_metadata call)
       \<lparr>transparent_retryable_unprocessed = False, refused_kind = GRPC_LITE_REFUSED_NONE, response_started = False\<rparr>"

text \<open>The endless loop, with a bound on its iterations.\<close>

fun next_for_call ::
    "('ss, 'x) client_env \<Rightarrow> nat \<Rightarrow> call_obj \<Rightarrow> 'ss heap \<Rightarrow> io_world
      \<Rightarrow> ((string + streaming_next_result) \<times> call_obj \<times> 'ss heap \<times> io_world) res" where
  "next_for_call E 0 call h w = Blocked"
| "next_for_call E (Suc n) call h w =
     and_then (if \<not> cl_server_streaming_opened call then grpc_lite_open_call_stream_attempt E 0 True call h w
               else Ok (None, call, h, w)) (\<lambda>(e, call, h, w).
       case e of
         Some e \<Rightarrow> Ok (Inl e, call, h, w)
       | None \<Rightarrow>
           if cl_status_ready call then
             (case cl_status call of None \<Rightarrow> Fault | Some s \<Rightarrow> Ok (Inr (recorded_result s call), call, h, w))
           else
             (case cl_server_streaming_resource call of
                None \<Rightarrow> Fault
              | Some st \<Rightarrow>
                  and_then (server_streaming_call_next_resource_core (en_lib E) (en_globals E) (en_dec E)
                      (en_next E h w (stream_connection st h)) st h w) (\<lambda>(r, st, h, w).
                    (let call = call\<lparr>cl_server_streaming_resource := Some st\<rparr>
                     in if \<not> next_retryable r \<or> cl_initial_metadata_ready call \<or> cl_status_ready call then Ok (Inr r, call, h, w)
                        else and_then (grpc_lite_retry_call_stream E call h w) (\<lambda>(e, call, h, w).
                               case e of
                                 Some e \<Rightarrow> Ok (Inl e, call, h, w)
                               | None \<Rightarrow> next_for_call E n call h w)))))"

text \<open>Two iterations are enough: the second attempt is never offered for a retry.\<close>

definition grpc_lite_server_streaming_next_for_call ::
    "('ss, 'x) client_env \<Rightarrow> call_obj \<Rightarrow> 'ss heap \<Rightarrow> io_world
      \<Rightarrow> ((string + streaming_next_result) \<times> call_obj \<times> 'ss heap \<times> io_world) res" where
  "grpc_lite_server_streaming_next_for_call E call h w = next_for_call E 2 call h w"

section \<open>Batches\<close>

definition record_initial_metadata :: "metadata_map \<Rightarrow> call_obj \<Rightarrow> call_obj" where
  "record_initial_metadata i call =
     (if cl_initial_metadata_ready call then call
      else call\<lparr>cl_initial_metadata := i, cl_initial_metadata_ready := True\<rparr>)"

definition record_stream_end :: "grpc_lite_status_result \<Rightarrow> metadata_map \<Rightarrow> metadata_map \<Rightarrow> call_obj \<Rightarrow> call_obj" where
  "record_stream_end s i t call =
     (record_initial_metadata i call)\<lparr>cl_trailing_metadata := t,
        cl_status := Some (grpc_lite_make_status_object (sr_code s) (sr_details s) t), cl_status_ready := True\<rparr>"

text \<open>Pulling until the status is there; \<open>fuel\<close> bounds the number of messages that are skipped.\<close>

fun drain_stream ::
    "('ss, 'x) client_env \<Rightarrow> nat \<Rightarrow> call_obj \<Rightarrow> 'ss heap \<Rightarrow> io_world \<Rightarrow> (string option \<times> call_obj \<times> 'ss heap \<times> io_world) res" where
  "drain_stream E 0 call h w = Blocked"
| "drain_stream E (Suc fuel) call h w =
     and_then (grpc_lite_server_streaming_next_for_call E call h w) (\<lambda>(r, call, h, w).
       case r of
         Inl e \<Rightarrow> Ok (Some e, call, h, w)
       | Inr (NextDone s i t a) \<Rightarrow> Ok (None, record_stream_end s i t call, h, w)
       | Inr (NextMessage m i) \<Rightarrow>
           if cl_status_ready call then Ok (None, call, h, w) else drain_stream E fuel call h w)"

definition batch_receive ::
    "('ss, 'x) client_env \<Rightarrow> nat \<Rightarrow> batch \<Rightarrow> call_obj \<Rightarrow> 'ss heap \<Rightarrow> io_world
      \<Rightarrow> (string option \<times> byte list option option \<times> call_obj \<times> 'ss heap \<times> io_world) res" where
  "batch_receive E fuel ops call h w =
     (let wants_message = (ops GRPC_OP_RECV_MESSAGE \<noteq> None);
          wants_status = (ops GRPC_OP_RECV_STATUS_ON_CLIENT \<noteq> None);
          unary = and_then (grpc_lite_perform_call_unary E call h w) (\<lambda>(e, call, h, w). Ok (e, None, call, h, w))
      in if wants_status then
           if \<not> cl_unary_performed call \<and> \<not> cl_server_streaming_opened call then unary
           else if cl_server_streaming_opened call \<and> \<not> cl_status_ready call then
             and_then (drain_stream E fuel call h w) (\<lambda>(e, call, h, w). Ok (e, None, call, h, w))
           else Ok (None, None, call, h, w)
         else if wants_message \<and> \<not> cl_unary_performed call then
           if cl_server_streaming_opened call \<or> \<not> wants_status then
             and_then (grpc_lite_server_streaming_next_for_call E call h w) (\<lambda>(r, call, h, w).
               case r of
                 Inl e \<Rightarrow> Ok (Some e, None, call, h, w)
               | Inr (NextDone s i t a) \<Rightarrow> Ok (None, Some None, record_stream_end s i t call, h, w)
               | Inr (NextMessage m i) \<Rightarrow> Ok (None, Some (Some m), record_initial_metadata i call, h, w))
           else unary
         else Ok (None, None, call, h, w))"

definition batch_event :: "batch \<Rightarrow> byte list option option \<Rightarrow> call_obj \<Rightarrow> event" where
  "batch_event ops message call =
     (let wants_message = (ops GRPC_OP_RECV_MESSAGE \<noteq> None);
          event = \<lparr>ev_metadata = None, ev_message = message, ev_status = None\<rparr>;
          event = (if ops GRPC_OP_RECV_INITIAL_METADATA \<noteq> None then grpc_lite_add_event_metadata (cl_initial_metadata call) event else event);
          event = (if wants_message \<and> cl_unary_performed call then grpc_lite_add_event_message (cl_unary_response_payload call) event
                   else if wants_message \<and> ev_message event = None then grpc_lite_add_event_message None event else event)
      in if ops GRPC_OP_RECV_STATUS_ON_CLIENT \<noteq> None then grpc_lite_add_event_status (cl_status call) event else event)"

definition Call_startBatch ::
    "('ss, 'x) client_env \<Rightarrow> nat \<Rightarrow> batch \<Rightarrow> call_obj \<Rightarrow> 'ss heap \<Rightarrow> io_world
      \<Rightarrow> ((string + event) \<times> call_obj \<times> 'ss heap \<times> io_world) res" where
  "Call_startBatch E fuel ops call h w =
     (if \<not> cl_initialized call then Ok (Inl (class_error ''Call is not initialized''), call, h, w)
      else case (if ops GRPC_OP_SEND_INITIAL_METADATA \<noteq> None \<or> ops GRPC_OP_SEND_MESSAGE \<noteq> None \<or> ops GRPC_OP_SEND_CLOSE_FROM_CLIENT \<noteq> None
                 then grpc_lite_store_send_batch ops call else (None, call)) of
        (Some e, call) \<Rightarrow> Ok (Inl e, call, h, w)
      | (None, call) \<Rightarrow>
          if cl_cancelled call then
            (let call = grpc_lite_mark_call_cancelled call in Ok (Inr (ended_event ops call), call, h, w))
          else if cl_status_ready call then Ok (Inr (ended_event ops call), call, h, w)
          else and_then (batch_receive E fuel ops call h w) (\<lambda>(e, message, call, h, w).
                 case e of
                   Some e \<Rightarrow> Ok (Inl e, call, h, w)
                 | None \<Rightarrow> Ok (Inr (batch_event ops message call), call, h, w)))"

section \<open>Cancelling and freeing\<close>

definition Call_cancel ::
    "('ss, 'x) client_env \<Rightarrow> call_obj \<Rightarrow> 'ss heap \<Rightarrow> io_world \<Rightarrow> (string option \<times> call_obj \<times> 'ss heap \<times> io_world) res" where
  "Call_cancel E call h w =
     (if \<not> cl_initialized call then Ok (Some (class_error ''Call is not initialized''), call, h, w)
      else
        (let call = call\<lparr>cl_cancelled := True\<rparr>
         in case (cl_server_streaming_opened call, cl_server_streaming_resource call) of
              (True, Some st) \<Rightarrow>
                and_then (server_streaming_call_cancel_resource (en_lib E) (en_send E h w (stream_connection st h)) st h w) (\<lambda>(st, h, w).
                  Ok (None, call\<lparr>cl_server_streaming_resource := Some st\<rparr>, h, w))
            | _ \<Rightarrow> Ok (None, call, h, w)))"

definition grpc_lite_call_free_object ::
    "('ss, 'x) client_env \<Rightarrow> call_obj \<Rightarrow> 'ss heap \<Rightarrow> io_world \<Rightarrow> ('ss heap \<times> io_world) res" where
  "grpc_lite_call_free_object E call h w = and_then (drop_streaming_resource E call h w) (\<lambda>(call, h, w). Ok (h, w))"

end
