(* ===== verification/Call_Safety.thy ===== *)
theory Call_Safety
  imports Wrapper_Adapter
begin

text \<open>
  Safety of the operations of a \<open>Call\<close> object: what they rely on from their environment, the well-formedness of the
  object, and that each operation keeps it together with the invariant of the heap and the other calls.
\<close>

section \<open>Decomposing steps\<close>

lemma safe2: "safe Q r \<Longrightarrow> (\<And>a b. Q (a, b) \<Longrightarrow> safe P (f (a, b))) \<Longrightarrow> safe P (and_then r f)"
  by (erule safe_and_then) auto

lemma safe3: "safe Q r \<Longrightarrow> (\<And>a b c. Q (a, b, c) \<Longrightarrow> safe P (f (a, b, c))) \<Longrightarrow> safe P (and_then r f)"
  by (erule safe_and_then) auto

lemma safe4: "safe Q r \<Longrightarrow> (\<And>a b c d. Q (a, b, c, d) \<Longrightarrow> safe P (f (a, b, c, d))) \<Longrightarrow> safe P (and_then r f)"
  by (erule safe_and_then) auto

section \<open>The environment\<close>

definition setup_ok :: "'ss lib \<Rightarrow> ('ss, 'x) setup_env \<Rightarrow> bool" where
  "setup_ok L S \<longleftrightarrow> setup_laws L (su_h2 S)
     \<and> (case su_preface S of (evs, adv, rv) \<Rightarrow> adv_ok L adv \<and> (\<forall>k f l p. SendData k f l p \<notin> set evs))"

text \<open>
  The allocator returns addresses that are not in use; nghttp2 keeps its promises and reads request bodies
  only of calls of the connection it drives.
\<close>

definition allocator_ok :: "('ss, 'x) client_env \<Rightarrow> bool" where
  "allocator_ok E \<longleftrightarrow> (\<forall>h. finite (dom (hp_conns h)) \<longrightarrow> hp_conns h (en_conn E h) = None)
     \<and> (\<forall>h. finite (dom (hp_calls h)) \<longrightarrow> hp_calls h (en_call E h) = None)"

definition scripts_ok :: "('ss, 'x) client_env \<Rightarrow> bool" where
  "scripts_ok E \<longleftrightarrow>
     (\<forall>h w key e. cache_find key h = Some e \<longrightarrow> (\<forall>r \<in> set (en_preflight E h w key). round_ok (en_lib E) (pe_connection e) (hp_calls h) r))
     \<and> (\<forall>h w self. call_script_ok (en_lib E) self (hp_calls h) (en_unary E h w self))
     \<and> (\<forall>h w p. script_ok (en_lib E) p (hp_calls h) (en_send E h w p))
     \<and> (\<forall>h w p. case en_next E h w p of (rounds, cancel, reject) \<Rightarrow>
          script_ok (en_lib E) p (hp_calls h) cancel \<and> script_ok (en_lib E) p (hp_calls h) reject
          \<and> (\<forall>self. p = Some self \<longrightarrow> (\<forall>r \<in> set rounds. stream_round_ok (en_lib E) self (hp_calls h) r)))"

definition env_ok :: "('ss, 'x) client_env \<Rightarrow> bool" where
  "env_ok E \<longleftrightarrow> session_laws (en_lib E) \<and> submit_laws (en_lib E) \<and> (\<forall>h w. setup_ok (en_lib E) (en_setup E h w))
     \<and> allocator_ok E \<and> scripts_ok E"

lemma finite_conns:
  assumes inv: "heap_inv L X {} h"
  shows "finite (dom (hp_conns h))"
proof (rule finite_subset)
  let ?cached = "(\<lambda>(key, e). pe_connection e) ` set (hp_cache h)"
  let ?owned = "(\<lambda>k. the (connection (the (hp_calls h k)))) ` dom (hp_calls h)"
  show "dom (hp_conns h) \<subseteq> ?cached \<union> ?owned"
  proof
    fix j assume "j \<in> dom (hp_conns h)"
    then obtain c where c: "hp_conns h j = Some c" by blast
    show "j \<in> ?cached \<union> ?owned"
    proof (cases "cached h j")
      case True
      then show ?thesis by (force simp: cached_def)
    next
      case False
      then have "0 < h2_stream_owner_count c" using kept_aliveD [of "{}" h j c] inv c by (auto simp: heap_inv_def)
      then obtain k where "k \<in> owners (hp_calls h) j" using heap_inv_conn(2,3) [OF inv c] by (metis card_gt_0_iff ex_in_conv)
      then show ?thesis by (force simp: owners_def)
    qed
  qed
  show "finite (?cached \<union> ?owned)" using inv by (simp add: heap_defs)
qed

lemma env_fresh:
  assumes "env_ok E" "heap_inv L {} {} h"
  shows "hp_conns h (en_conn E h) = None" "hp_calls h (en_call E h) = None"
  using assms finite_conns [OF assms(2)] by (auto simp: env_ok_def allocator_ok_def heap_defs)

lemma env_laws:
  assumes "env_ok E"
  shows "session_laws (en_lib E)" "submit_laws (en_lib E)"
    "cache_find key h = Some e \<Longrightarrow> \<forall>r \<in> set (en_preflight E h w key). round_ok (en_lib E) (pe_connection e) (hp_calls h) r"
    "call_script_ok (en_lib E) self (hp_calls h) (en_unary E h w self)"
    "script_ok (en_lib E) p (hp_calls h) (en_send E h w p)"
  using assms by (simp_all add: env_ok_def scripts_ok_def)

lemma env_setup:
  assumes "env_ok E"
  obtains evs adv rv where "setup_laws (en_lib E) (su_h2 (en_setup E h w))" "su_preface (en_setup E h w) = (evs, adv, rv)"
    "adv_ok (en_lib E) adv" "\<And>k f l p. SendData k f l p \<notin> set evs"
proof -
  obtain evs adv rv where e: "su_preface (en_setup E h w) = (evs, adv, rv)" by (metis surj_pair)
  have "setup_ok (en_lib E) (en_setup E h w)" using assms by (simp add: env_ok_def)
  then show ?thesis using that [OF _ e] e by (simp add: setup_ok_def)
qed

section \<open>Other calls\<close>

text \<open>The identity of every call of the heap but \<open>own\<close>; an address that is not in use has none.\<close>

definition rest :: "call_id option \<Rightarrow> 'ss heap \<Rightarrow> call_id \<Rightarrow> _ option" where
  "rest own h = (\<lambda>j. if own = Some j then None else map_option call_fixed (hp_calls h j))"

lemma rest_fixed: "(\<And>j. map_option call_fixed (hp_calls h' j) = map_option call_fixed (hp_calls h j)) \<Longrightarrow> rest own h' = rest own h"
  by (simp add: rest_def fun_eq_iff)

lemma rest_calls: "hp_calls h' = hp_calls h \<Longrightarrow> rest own h' = rest own h"
  by (auto simp: rest_def)

lemma rest_but:
  assumes "\<And>j. j \<noteq> k \<Longrightarrow> map_option call_fixed (hp_calls h' j) = map_option call_fixed (hp_calls h j)"
  shows "rest (Some k) h' = rest (Some k) h"
  using assms by (auto simp: rest_def)

lemma rest_free: "hp_calls h k = None \<Longrightarrow> rest (Some k) h = rest None h"
  by (auto simp: rest_def)

lemma rest_None: "rest None h' = rest None h \<Longrightarrow> rest own h' = rest own h \<and> (hp_calls h' j = None \<longleftrightarrow> hp_calls h j = None)"
  by (auto simp: rest_def fun_eq_iff) (metis option.map_disc_iff)+

section \<open>Unary attempts\<close>

definition attempted :: "('ss, 'x) client_env \<Rightarrow> string \<Rightarrow> nat \<Rightarrow> 'ss heap \<Rightarrow> attempt_result \<times> 'ss heap \<times> io_world \<Rightarrow> bool" where
  "attempted E key n h r \<longleftrightarrow> (case r of (res, h', w') \<Rightarrow> heap_inv (en_lib E) {} {} h' \<and> rest None h' = rest None h
     \<and> (case res of
          AttemptResult u self \<Rightarrow> hp_conns h' self \<noteq> None \<and> keyed key self h' \<and> (transparent_retryable_unprocessed (ur_outcome u) \<longrightarrow> n = 0)
        | AttemptNone \<Rightarrow> False | _ \<Rightarrow> True))"

lemma unary_attempt_safe:
  assumes env: "env_ok E" and inv: "heap_inv (en_lib E) {} {} h"
  shows "safe (attempted E key n h) (unary_attempt E channel key call n h w)"
proof -
  define R where "R = call_request_of call channel n"
  have n: "rq_retry_attempt R = n" by (simp add: R_def call_request_of_def)
  obtain evs adv rv where s: "setup_laws (en_lib E) (su_h2 (en_setup E h w))" "su_preface (en_setup E h w) = (evs, adv, rv)"
    "adv_ok (en_lib E) adv" "\<And>k f l p. SendData k f l p \<notin> set evs" using env_setup [OF env] by blast
  have got: "safe (obtained (en_lib E) key h) (get_persistent_connection (en_lib E) G (en_setup E h w) T key d (en_preflight E h w key) (en_conn E h) h w)" for G T d
    by (rule obtain_safe [OF env_laws(1) [OF env] s inv env_fresh(1) [OF env inv]]) (rule env_laws(3) [OF env])
  have perform: "safe (attempted E key n h) (and_then (grpc_lite_unary_call_perform_core_on_connection (en_lib E) (en_globals E) (en_enc E) (en_dec E)
        self k R script h1 w1) (\<lambda>(res, h, w). case res of Inl e \<Rightarrow> Ok (AttemptThrew e, h, w) | Inr u \<Rightarrow> Ok (AttemptResult u self, h, w)))"
    if o: "obtained (en_lib E) key h (Inr (self, reused), h1, w1)" and k: "k = en_call E h1"
      and sc: "script = en_unary E (put_call k (new_call self 1 R) h1) w1 self" for self k script h1 w1 reused
  proof -
    have i1: "heap_inv (en_lib E) {} {} h1" and fx: "\<And>k. map_option call_fixed (hp_calls h1 k) = map_option call_fixed (hp_calls h k)"
      using o by (simp_all add: obtained_def)
    obtain e c where e: "cache_find key h1 = Some e" "pe_connection e = self" "hp_conns h1 self = Some c" "connection_usable (Some c)"
      using o by (auto simp: obtained_def)
    have ok: "cache_ok h1" using i1 by (simp add: heap_defs)
    have nd: "\<not> h2_detached_from_cache c" using cached_live [OF ok cache_find_entry(2) [OF ok e(1)]] e by simp
    have key: "keyed key self h1" using keyed_found [OF ok e(1)] e(2) by simp
    have free: "hp_calls h1 k = None" using env_fresh(2) [OF env i1] k by simp
    have sk: "call_script_ok (en_lib E) self ((hp_calls h1)(k \<mapsto> new_call self 1 R)) script"
      using env_laws(4) [OF env, of self "put_call k (new_call self 1 R) h1" w1] sc by simp
    note u = unary_core_safe [OF env_laws(1,2) [OF env] i1 free e(3,4) nd sk]
    have fr: "heap_inv (en_lib E) {} {} h2 \<Longrightarrow> framed self k h1 h2 \<Longrightarrow> hp_calls h2 k = None \<Longrightarrow> rest None h2 = rest None h \<and> keyed key self h2" for h2
    proof -
      assume f: "framed self k h1 h2" "hp_calls h2 k = None"
      have "map_option call_fixed (hp_calls h2 j) = map_option call_fixed (hp_calls h j)" for j
        using f free fx [of j] by (cases "j = k") (simp_all add: framed_def)
      moreover have "keyed key self h2" using key f(1) by (auto simp: keyed_def framed_def)
      ultimately show ?thesis by (intro conjI rest_fixed)
    qed
    show ?thesis
    proof (rule safe3 [OF u], goal_cases)
      case (1 res h2 w2)
      then show ?case using fr [of h2] n by (cases res) (auto simp: performed_def served_def abandoned_def attempted_def)
    qed
  qed
  show ?thesis unfolding unary_attempt_def Let_def R_def [symmetric]
  proof (rule safe3 [OF got], goal_cases)
    case (1 r h1 w1)
    show ?case
    proof (cases r)
      case (Inl m)
      then show ?thesis using 1 by (auto simp: obtained_def attempted_def intro!: rest_fixed split: option.split)
    next
      case (Inr p)
      obtain self reused where "p = (self, reused)" by fastforce
      then show ?thesis using perform [of self reused h1 w1] 1 Inr by simp
    qed
  qed
qed

lemma remove_unusable_safe:
  assumes inv: "heap_inv L {} {} h" and c: "hp_conns h self \<noteq> None" and key: "keyed key self h"
  shows "returns (\<lambda>h'. heap_inv L {} {} h' \<and> hp_calls h' = hp_calls h) (remove_unusable_persistent_connection key self h)"
proof -
  obtain c where c: "hp_conns h self = Some c" using c by blast
  have inv': "heap_inv L {} (insert self {}) h" using inv by (rule heap_inv_mono) simp_all
  from discard_inv [OF inv' c key] obtain h' where "discard_persistent_connection key self h = Ok h'" "heap_inv L {} {} h'" "hp_calls h' = hp_calls h"
    by (auto simp: discarded_def)
  then show ?thesis using c inv by (simp add: remove_unusable_persistent_connection_def)
qed

text \<open>The loop over the attempts ends with a result, an error or an exception.\<close>

definition concluded :: "('ss, 'x) client_env \<Rightarrow> string \<Rightarrow> 'ss heap \<Rightarrow> attempt_result \<times> 'ss heap \<times> io_world \<Rightarrow> bool" where
  "concluded E key h r \<longleftrightarrow> (case r of (res, h', w') \<Rightarrow> heap_inv (en_lib E) {} {} h' \<and> rest None h' = rest None h \<and> res \<noteq> AttemptNone
     \<and> (\<forall>u self. res = AttemptResult u self \<longrightarrow> hp_conns h' self \<noteq> None \<and> keyed key self h'))"

lemma attempted_concluded:
  "attempted E key n h (r, h', w') \<Longrightarrow> concluded E key h (r, h', w')"
  by (auto simp: attempted_def concluded_def split: attempt_result.splits)

lemma last_attempt_safe:
  assumes env: "env_ok E" and inv: "heap_inv (en_lib E) {} {} h"
  shows "safe (concluded E key h) (unary_attempts E channel key call [1] h w)"
  unfolding unary_attempts.simps
proof (rule safe3 [OF unary_attempt_safe [OF env inv]], goal_cases)
  case (1 r h1 w1)
  then show ?case using attempted_concluded [OF 1] by (cases r) (auto simp: attempted_def)
qed

lemma unary_attempts_safe:
  assumes env: "env_ok E" and inv: "heap_inv (en_lib E) {} {} h"
  shows "safe (concluded E key h) (unary_attempts E channel key call [0, 1] h w)"
  unfolding unary_attempts.simps(2) [of _ _ _ _ 0]
proof (rule safe3 [OF unary_attempt_safe [OF env inv]], goal_cases)
  case (1 r h1 w1)
  show ?case
  proof (cases r)
    case (AttemptResult u self)
    have a: "heap_inv (en_lib E) {} {} h1" "rest None h1 = rest None h" "hp_conns h1 self \<noteq> None" "keyed key self h1"
      using 1 AttemptResult by (simp_all add: attempted_def)
    have again: "safe (concluded E key h) (unary_attempts E channel key call [1] h2 w1)"
      if "heap_inv (en_lib E) {} {} h2 \<and> hp_calls h2 = hp_calls h1" for h2
    proof (rule safe_mono [OF last_attempt_safe [OF env]])
      show "heap_inv (en_lib E) {} {} h2" using that by blast
      have "rest None h2 = rest None h" using that a(2) rest_calls [of h2 h1] by simp
      then show "concluded E key h2 x \<Longrightarrow> concluded E key h x" for x
        by (auto simp: concluded_def)
    qed
    have "safe (concluded E key h) (and_then (remove_unusable_persistent_connection key self h1) (\<lambda>h. unary_attempts E channel key call [1] h w1))"
      by (rule safe_and_then [OF returns_safe [OF remove_unusable_safe [OF a(1,3,4)]]]) (rule again)
    then show ?thesis using AttemptResult attempted_concluded [OF 1] again [of h1] a(1) by (simp del: unary_attempts.simps)
  qed (use 1 attempted_concluded [OF 1] in \<open>auto simp: attempted_def\<close>)
qed

section \<open>The call object\<close>

text \<open>What construction and every operation establish: a constructed call has a usable channel and a valid
  path; a call with a status has it recorded together with its metadata; a stream that was opened and has not
  ended has its resource.\<close>

definition call_wf :: "(string \<Rightarrow> byte list) \<Rightarrow> call_obj \<Rightarrow> bool" where
  "call_wf sha call \<longleftrightarrow>
     (cl_initialized call \<longrightarrow> (\<exists>channel method. cl_channel call = Some channel \<and> channel_ready sha channel
        \<and> cl_method call = Some method \<and> validate_grpc_path method = None))
     \<and> (cl_status_ready call \<longrightarrow> cl_initial_metadata_ready call \<and> (\<exists>s. cl_status call = Some s \<and> so_metadata s = cl_trailing_metadata call))
     \<and> (cl_unary_performed call \<longrightarrow> cl_status_ready call)
     \<and> (cl_server_streaming_opened call \<longrightarrow> \<not> cl_status_ready call \<longrightarrow> cl_server_streaming_resource call \<noteq> None)"

definition resource_id :: "call_obj \<Rightarrow> call_id option" where
  "resource_id call = map_option st_call (cl_server_streaming_resource call)"

definition call_inv :: "(string \<Rightarrow> byte list) \<Rightarrow> 'ss lib \<Rightarrow> call_obj \<Rightarrow> 'ss heap \<Rightarrow> bool" where
  "call_inv sha L call h \<longleftrightarrow> heap_inv L {} {} h \<and> call_wf sha call \<and> (\<forall>k. resource_id call = Some k \<longrightarrow> hp_calls h k \<noteq> None)"

text \<open>An operation on the object: the invariant holds again, other calls are kept, and a new resource is a new call.\<close>

definition kept_call :: "call_obj \<Rightarrow> call_obj \<Rightarrow> bool" where
  "kept_call call call' \<longleftrightarrow> cl_channel call' = cl_channel call \<and> cl_method call' = cl_method call
     \<and> cl_initialized call' = cl_initialized call \<and> cl_deadline_us call' = cl_deadline_us call"

definition moved :: "(string \<Rightarrow> byte list) \<Rightarrow> 'ss lib \<Rightarrow> call_obj \<Rightarrow> 'ss heap \<Rightarrow> call_obj \<Rightarrow> 'ss heap \<Rightarrow> bool" where
  "moved sha L call h call' h' \<longleftrightarrow> call_inv sha L call' h' \<and> kept_call call call' \<and> rest (resource_id call') h' = rest (resource_id call) h"

lemma moved_trans: "moved sha L call h call1 h1 \<Longrightarrow> moved sha L call1 h1 call2 h2 \<Longrightarrow> moved sha L call h call2 h2"
  by (simp add: moved_def kept_call_def)

lemma moved_refl: "call_inv sha L call h \<Longrightarrow> moved sha L call h call h"
  by (simp add: moved_def kept_call_def)

text \<open>A change of the object that leaves its stream alone.\<close>

lemma moved_local:
  assumes "call_inv sha L call h" "call_wf sha call'" "kept_call call call'" "cl_server_streaming_resource call' = cl_server_streaming_resource call"
  shows "moved sha L call h call' h"
  using assms by (simp add: moved_def call_inv_def resource_id_def)

lemma apply_credentials_cases:
  assumes "apply_call_credentials call channel = (result, call')"
  shows "if result = CredentialsRefused then call' = grpc_lite_mark_call_failed GRPC_STATUS_UNAUTHENTICATED ''CallCredentials require a secure channel'' call
    else \<exists>m. call' = call\<lparr>cl_metadata := m\<rparr>"
proof -
  have refl: "\<exists>m. c = c\<lparr>cl_metadata := m\<rparr>" for c :: call_obj by (rule exI [of _ "cl_metadata c"]) simp
  show ?thesis using assms refl
    by (auto simp: apply_call_credentials_def grpc_lite_fail_if_call_credentials_require_secure_channel_def
        grpc_lite_merge_call_credentials_metadata_def split: if_splits option.splits plugin_result.splits)
qed

lemma mark_failed_wf: "call_wf sha call \<Longrightarrow> call_wf sha (grpc_lite_mark_call_failed code details call)"
  by (simp add: call_wf_def grpc_lite_mark_call_failed_def grpc_lite_make_status_object_def)

lemma mark_failed_fields [simp]:
  "cl_server_streaming_resource (grpc_lite_mark_call_failed code details call) = cl_server_streaming_resource call"
  "cl_status_ready (grpc_lite_mark_call_failed code details call)" "kept_call call (grpc_lite_mark_call_failed code details call)"
  "cl_server_streaming_opened (grpc_lite_mark_call_failed code details call) = cl_server_streaming_opened call"
  by (simp_all add: grpc_lite_mark_call_failed_def kept_call_def)

lemma update_wf [simp]:
  "call_wf sha (call\<lparr>cl_metadata := m\<rparr>) = call_wf sha call"
  "cl_status_ready call \<Longrightarrow> call_wf sha (call\<lparr>cl_unary_performed := True\<rparr>) = call_wf sha call"
  "call_wf sha (call\<lparr>cl_cancelled := b\<rparr>) = call_wf sha call"
  by (auto simp: call_wf_def)

lemma kept_updates [simp]:
  "kept_call call call" "kept_call call (call\<lparr>cl_metadata := m\<rparr>)" "kept_call call (call\<lparr>cl_unary_performed := b\<rparr>)"
  "kept_call call (call\<lparr>cl_cancelled := b\<rparr>)" "kept_call call (call\<lparr>cl_server_streaming_opened := b\<rparr>)"
  "kept_call call (call\<lparr>cl_server_streaming_resource := r\<rparr>)" "kept_call call (store_unary_result u call)"
  "kept_call call (grpc_lite_mark_unary_failed code details call)"
  by (simp_all add: kept_call_def store_unary_result_def grpc_lite_mark_unary_failed_def grpc_lite_mark_call_failed_def)

lemma store_unary_fields [simp]:
  "cl_server_streaming_resource (store_unary_result u call) = cl_server_streaming_resource call"
  "cl_status_ready (store_unary_result u call)" "cl_unary_performed (store_unary_result u call)"
  "cl_server_streaming_resource (grpc_lite_mark_unary_failed code details call) = cl_server_streaming_resource call"
  "cl_status_ready (grpc_lite_mark_unary_failed code details call)" "cl_unary_performed (grpc_lite_mark_unary_failed code details call)"
  by (simp_all add: store_unary_result_def grpc_lite_mark_unary_failed_def)

lemma store_unary_wf: "call_wf sha call \<Longrightarrow> call_wf sha (store_unary_result u call)"
  by (simp add: call_wf_def store_unary_result_def grpc_lite_make_status_object_def)

lemma mark_unary_failed_wf: "call_wf sha call \<Longrightarrow> call_wf sha (grpc_lite_mark_unary_failed code details call)"
  by (simp add: call_wf_def grpc_lite_mark_unary_failed_def grpc_lite_mark_call_failed_def grpc_lite_make_status_object_def)

lemma credentials_moved:
  assumes inv: "call_inv sha L call h" and a: "apply_call_credentials call channel = (result, call')"
  shows "moved sha L call h call' h" "result = CredentialsRefused \<Longrightarrow> cl_status_ready call'"
    "result \<noteq> CredentialsRefused \<Longrightarrow> \<exists>m. call' = call\<lparr>cl_metadata := m\<rparr>"
proof -
  note c = apply_credentials_cases [OF a]
  have wf: "call_wf sha call" using inv by (simp add: call_inv_def)
  show "moved sha L call h call' h"
    by (rule moved_local [OF inv]) (use c wf mark_failed_wf in \<open>auto split: if_splits\<close>)
  show "result = CredentialsRefused \<Longrightarrow> cl_status_ready call'" "result \<noteq> CredentialsRefused \<Longrightarrow> \<exists>m. call' = call\<lparr>cl_metadata := m\<rparr>"
    using c by simp_all
qed

definition unary_ended :: "(string \<Rightarrow> byte list) \<Rightarrow> 'ss lib \<Rightarrow> call_obj \<Rightarrow> 'ss heap \<Rightarrow> string option \<times> call_obj \<times> 'ss heap \<times> io_world \<Rightarrow> bool" where
  "unary_ended sha L call h r \<longleftrightarrow> (case r of (e, call', h', w') \<Rightarrow> moved sha L call h call' h'
     \<and> (e = None \<longrightarrow> cl_status_ready call' \<and> cl_unary_performed call'))"

lemma unary_ended_from:
  "moved sha L call h call1 h1 \<Longrightarrow> unary_ended sha L call1 h1 r \<Longrightarrow> unary_ended sha L call h r"
  by (auto simp: unary_ended_def intro: moved_trans)

text \<open>The heap has moved on; the object is changed at its end.\<close>

lemma moved_heap:
  assumes "call_inv sha L call h" "heap_inv L {} {} h'" "rest None h' = rest None h" "call_wf sha call'" "kept_call call call'"
    "cl_server_streaming_resource call' = cl_server_streaming_resource call"
  shows "moved sha L call h call' h'"
  using assms rest_None [OF assms(3)] by (auto simp: moved_def call_inv_def resource_id_def)

lemma attempts_stored:
  assumes env: "env_ok E" and inv: "call_inv sha (en_lib E) call h"
  shows "safe (unary_ended sha (en_lib E) call h) (and_then (unary_attempts E channel key call [0, 1] h w) (\<lambda>(r, h, w).
       case r of
         AttemptThrew e \<Rightarrow> Ok (Some e, call, h, w)
       | AttemptNone \<Rightarrow> Fault
       | AttemptNoConnection code message \<Rightarrow> Ok (None, grpc_lite_mark_unary_failed code message call, h, w)
       | AttemptResult u self \<Rightarrow>
           on_conn h self (\<lambda>c.
             and_then (if \<not> connection_usable (Some c) then remove_unusable_persistent_connection key self h else Ok h) (\<lambda>h.
               Ok (None, store_unary_result u call, h, w)))))"
proof (rule safe3 [OF unary_attempts_safe [OF env]], goal_cases)
  case 1
  show ?case using inv by (simp add: call_inv_def)
next
  case (2 r h1 w1)
  have wf: "call_wf sha call" using inv by (simp add: call_inv_def)
  have h1: "heap_inv (en_lib E) {} {} h1" "rest None h1 = rest None h" using 2 by (simp_all add: concluded_def)
  have failed: "moved sha (en_lib E) call h (grpc_lite_mark_unary_failed code message call) h1" for code message
    by (rule moved_heap [OF inv h1 mark_unary_failed_wf [OF wf]])
       simp_all
  have threw: "moved sha (en_lib E) call h call h1" by (rule moved_heap [OF inv h1 wf]) simp_all
  have stored: "unary_ended sha (en_lib E) call h (None, store_unary_result u call, h2, w2)"
    if "heap_inv (en_lib E) {} {} h2" "hp_calls h2 = hp_calls h1" for u h2 w2
  proof -
    have "rest None h2 = rest None h" using h1(2) rest_calls [OF that(2), of None] by simp
    from moved_heap [OF inv that(1) this store_unary_wf [OF wf]] show ?thesis by (simp add: unary_ended_def)
  qed
  show ?case
  proof (cases r)
    case (AttemptResult u self)
    then have s: "hp_conns h1 self \<noteq> None" "keyed key self h1" using 2 by (simp_all add: concluded_def)
    have "safe (unary_ended sha (en_lib E) call h) (and_then (remove_unusable_persistent_connection key self h1) (\<lambda>h. Ok (None, store_unary_result u call, h, w1)))"
      by (rule safe_and_then [OF returns_safe [OF remove_unusable_safe [OF h1(1) s]]]) (use stored in auto)
    then show ?thesis using AttemptResult s(1) stored [OF h1(1)] by auto
  qed (use 2 threw failed in \<open>auto simp: concluded_def unary_ended_def\<close>)
qed

lemma perform_unary_safe:
  assumes env: "env_ok E" and inv: "call_inv sha (en_lib E) call h" and init: "cl_initialized call"
  shows "safe (unary_ended sha (en_lib E) call h) (grpc_lite_perform_call_unary E call h w)"
proof -
  obtain channel where ch: "cl_channel call = Some channel" using inv init by (auto simp: call_inv_def call_wf_def)
  obtain result call1 where a: "apply_call_credentials call channel = (result, call1)" by fastforce
  note m = credentials_moved [OF inv a]
  have inv1: "call_inv sha (en_lib E) call1 h" using m(1) by (simp add: moved_def)
  have refused: "moved sha (en_lib E) call h (call1\<lparr>cl_unary_performed := True\<rparr>) h" if "result = CredentialsRefused"
    by (rule moved_trans [OF m(1)], rule moved_local [OF inv1])
       (use m(2) [OF that] inv1 in \<open>simp_all add: call_inv_def\<close>)
  have att: "safe (unary_ended sha (en_lib E) call h) (and_then (unary_attempts E channel key call1 [0, 1] h w) (\<lambda>(r, h, w).
       case r of
         AttemptThrew e \<Rightarrow> Ok (Some e, call1, h, w)
       | AttemptNone \<Rightarrow> Fault
       | AttemptNoConnection code message \<Rightarrow> Ok (None, grpc_lite_mark_unary_failed code message call1, h, w)
       | AttemptResult u self \<Rightarrow>
           on_conn h self (\<lambda>c.
             and_then (if \<not> connection_usable (Some c) then remove_unusable_persistent_connection key self h else Ok h) (\<lambda>h.
               Ok (None, store_unary_result u call1, h, w)))))" for key
    by (rule safe_mono [OF attempts_stored [OF env inv1]]) (rule unary_ended_from [OF m(1)])
  have threw: "unary_ended sha (en_lib E) call h (Some e, call, h, w)" for e using moved_refl [OF inv] by (simp add: unary_ended_def)
  have keyless: "unary_ended sha (en_lib E) call h (Some e, call1, h, w)" for e using m(1) by (simp add: unary_ended_def)
  have none: "unary_ended sha (en_lib E) call h (None, call1\<lparr>cl_unary_performed := True\<rparr>, h, w)" if "result = CredentialsRefused"
    using refused [OF that] m(2) [OF that] by (simp add: unary_ended_def)
  show ?thesis
    unfolding grpc_lite_perform_call_unary_def ch option.case a prod.case
    using threw none att keyless by (cases result; cases "ch_connection_key channel") (simp_all del: unary_attempts.simps)
qed

section \<open>Streams\<close>

lemma stream_live:
  assumes inv: "call_inv sha L call h" and st: "cl_server_streaming_resource call = Some st"
  obtains c where "hp_calls h (st_call st) = Some c" "stream_connection st h = connection c" "heap_inv L {} {} h"
    "holding L (st_call st) (connection c) (hp_calls h) h h"
proof -
  have i: "heap_inv L {} {} h" using inv by (simp add: call_inv_def)
  obtain c where c: "hp_calls h (st_call st) = Some c" using inv st by (auto simp: call_inv_def resource_id_def)
  show ?thesis by (rule that [OF c _ i holding_start [OF i c]]) (simp add: stream_connection_def c)
qed

lemma drop_resource_safe:
  assumes env: "env_ok E" and inv: "call_inv sha (en_lib E) call h"
    and o: "\<not> cl_server_streaming_opened call \<or> cl_status_ready call"
  shows "safe (\<lambda>(call', h', w'). moved sha (en_lib E) call h call' h' \<and> call' = call\<lparr>cl_server_streaming_resource := None\<rparr>)
    (drop_streaming_resource E call h w)"
proof (cases "cl_server_streaming_resource call")
  case None
  then have "call = call\<lparr>cl_server_streaming_resource := None\<rparr>" by simp
  then show ?thesis using None moved_refl [OF inv] by (simp add: drop_streaming_resource_def)
next
  case (Some st)
  let ?call = "call\<lparr>cl_server_streaming_resource := None\<rparr>"
  obtain c where c: "hp_calls h (st_call st) = Some c" "stream_connection st h = connection c"
    "holding (en_lib E) (st_call st) (connection c) (hp_calls h) h h" using stream_live [OF inv Some] by metis
  have s: "script_ok (en_lib E) (connection c) (hp_calls h) (en_send E h w (stream_connection st h))"
    using env_laws(5) [OF env, of "connection c" h w] c(2) by simp
  have wf: "call_wf sha ?call" using inv o by (auto simp: call_inv_def call_wf_def)
  have "moved sha (en_lib E) call h ?call h'" if "gone (en_lib E) (st_call st) (connection c) h h'" for h'
    using that wf Some rest_but [of "st_call st" h' h] rest_free [of h' "st_call st"]
    by (simp add: moved_def call_inv_def gone_def resource_id_def)
  then show ?thesis unfolding drop_streaming_resource_def Some option.case
    by (intro safe2 [OF destroy_held [OF env_laws(1) [OF env] c(3) s]]) simp
qed

text \<open>A stream that was just opened, at its attempt \<open>n\<close>.\<close>

definition fresh_stream :: "nat \<Rightarrow> call_obj \<Rightarrow> 'ss heap \<Rightarrow> bool" where
  "fresh_stream n call h \<longleftrightarrow> cl_server_streaming_opened call \<and> (\<exists>st c self. cl_server_streaming_resource call = Some st
     \<and> hp_calls h (st_call st) = Some c \<and> connection c = Some self \<and> retry_attempt c = n)"

definition stream_ready ::
    "(string \<Rightarrow> byte list) \<Rightarrow> 'ss lib \<Rightarrow> nat \<Rightarrow> bool \<Rightarrow> call_obj \<Rightarrow> 'ss heap \<Rightarrow> string option \<times> call_obj \<times> 'ss heap \<times> io_world \<Rightarrow> bool" where
  "stream_ready sha L n b call h r \<longleftrightarrow> (case r of (e, call', h', w') \<Rightarrow> moved sha L call h call' h'
     \<and> (e = None \<longrightarrow> (cl_status_ready call' \<or> fresh_stream n call' h') \<and> (cl_server_streaming_opened call' \<or> b)))"

lemma stream_ready_from: "moved sha L call h call1 h1 \<Longrightarrow> stream_ready sha L n b call1 h1 r \<Longrightarrow> stream_ready sha L n b call h r"
  by (auto simp: stream_ready_def intro: moved_trans)

lemma open_stream_safe:
  assumes env: "env_ok E" and inv: "call_inv sha (en_lib E) call h" and no: "cl_server_streaming_resource call = None"
  shows "safe (stream_ready sha (en_lib E) n b call h) (open_stream E channel key n call h w)"
proof -
  define R where "R = call_request_of call channel n"
  define k where "k = en_call E h"
  have n: "rq_retry_attempt R = n" by (simp add: R_def call_request_of_def)
  have i: "heap_inv (en_lib E) {} {} h" and wf: "call_wf sha call" using inv by (simp_all add: call_inv_def)
  have k: "hp_calls h k = None" using env_fresh(2) [OF env i] by (simp add: k_def)
  obtain evs adv rv where s: "setup_laws (en_lib E) (su_h2 (en_setup E h w))" "su_preface (en_setup E h w) = (evs, adv, rv)"
    "adv_ok (en_lib E) adv" "\<And>k f l p. SendData k f l p \<notin> set evs" using env_setup [OF env] by blast
  have sc: "send_script_ok (en_lib E) j (en_send E (put_call k (new_call j 0 R) h) w (Some j)) ((hp_calls h)(k \<mapsto> new_call j 0 R))" for j
    using env_laws(5) [OF env, of "Some j" "put_call k (new_call j 0 R) h" w] by (simp add: script_ok_def)
  have run: "safe (opened (en_lib E) k n h) (server_streaming_call_open_resource (en_lib E) (en_globals E) (en_enc E) (en_setup E h w)
      (channel_target_of channel) key True (open_script_of E R key k h w) (en_conn E h) k R h w)"
    unfolding n [symmetric]
    by (rule open_safe [OF env_laws(1,2) [OF env] s i env_fresh(1) [OF env i] k])
       (use env_laws(3) [OF env] sc in \<open>auto simp: open_script_of_def\<close>)
  show ?thesis unfolding open_stream_def Let_def R_def [symmetric] k_def [symmetric]
  proof (rule safe3 [OF run], goal_cases)
    case (1 r h1 w1)
    have h1: "heap_inv (en_lib E) {} {} h1" "rest (Some k) h1 = rest None h"
      using 1 rest_but [of k h1 h] rest_free [OF k] by (simp_all add: opened_def)
    show ?case
    proof (cases r)
      case (Opened st)
      then obtain c self where c: "st_call st = k" "hp_calls h1 k = Some c" "connection c = Some self" "retry_attempt c = n"
        using 1 by (auto simp: opened_def)
      let ?call = "call\<lparr>cl_server_streaming_resource := Some st, cl_server_streaming_opened := True\<rparr>"
      have "call_wf sha ?call" using wf by (simp add: call_wf_def)
      then have "moved sha (en_lib E) call h ?call h1"
        using h1 c no by (simp add: moved_def call_inv_def resource_id_def kept_call_def)
      then show ?thesis using Opened c by (auto simp: stream_ready_def fresh_stream_def)
    next
      case (SetupFailed s)
      let ?call = "grpc_lite_mark_call_failed (sr_code s) (sr_details s) (call\<lparr>cl_server_streaming_opened := True\<rparr>)"
      have "call_wf sha ?call"
        using wf by (simp add: call_wf_def grpc_lite_mark_call_failed_def grpc_lite_make_status_object_def)
      moreover have "rest None h1 = rest None h" using h1(2) rest_free [of h1 k] 1 SetupFailed by (simp add: opened_def)
      ultimately have "moved sha (en_lib E) call h ?call h1"
        by (intro moved_heap [OF inv h1(1)]) (simp_all add: kept_call_def grpc_lite_mark_call_failed_def)
      then show ?thesis using SetupFailed by (simp add: stream_ready_def)
    next
      case (OpenThrew e)
      then have "rest None h1 = rest None h" using h1(2) rest_free [of h1 k] 1 by (simp add: opened_def)
      then show ?thesis using OpenThrew moved_heap [OF inv h1(1) _ wf] by (simp add: stream_ready_def)
    qed
  qed
qed

lemma open_attempt_safe:
  assumes env: "env_ok E" and inv: "call_inv sha (en_lib E) call h" and init: "cl_initialized call" and o: "\<not> cl_server_streaming_opened call"
  shows "safe (stream_ready sha (en_lib E) n prepare call h) (grpc_lite_open_call_stream_attempt E n prepare call h w)"
proof -
  obtain channel where ch: "cl_channel call = Some channel" using inv init by (auto simp: call_inv_def call_wf_def)
  obtain result call1 where a: "(if prepare then apply_call_credentials call channel else (CredentialsApplied, call)) = (result, call1)" by fastforce
  have m: "moved sha (en_lib E) call h call1 h" "result = CredentialsRefused \<Longrightarrow> cl_status_ready call1"
      "result = CredentialsRefused \<Longrightarrow> prepare" "result \<noteq> CredentialsRefused \<Longrightarrow> cl_server_streaming_opened call1 = cl_server_streaming_opened call"
    using credentials_moved [OF inv, of channel result call1] moved_refl [OF inv] a by (auto split: if_splits)
  have inv1: "call_inv sha (en_lib E) call1 h" using m(1) by (simp add: moved_def)
  have go: "safe (stream_ready sha (en_lib E) n prepare call h) (and_then (drop_streaming_resource E call1 h w) (\<lambda>(call, h, w). open_stream E channel key n call h w))"
    if "result \<noteq> CredentialsRefused" for key
  proof (rule safe3 [OF drop_resource_safe [OF env inv1]], goal_cases)
    case 1
    then show ?case using m(4) [OF that] o by simp
  next
    case (2 call2 h2 w2)
    then have d: "moved sha (en_lib E) call1 h call2 h2" "cl_server_streaming_resource call2 = None" by auto
    then have "call_inv sha (en_lib E) call2 h2" by (simp add: moved_def)
    from open_stream_safe [OF env this d(2)] show ?case unfolding prod.case
      by (rule safe_mono) (rule stream_ready_from [OF moved_trans [OF m(1) d(1)]])
  qed
  have threw: "stream_ready sha (en_lib E) n prepare call h (Some e, call1, h, w)" "stream_ready sha (en_lib E) n prepare call h (Some e, call, h, w)" for e
    using m(1) moved_refl [OF inv] by (simp_all add: stream_ready_def)
  have refused: "stream_ready sha (en_lib E) n prepare call h (None, call1, h, w)" if "result = CredentialsRefused"
    using m(1) m(2,3) [OF that] by (simp add: stream_ready_def)
  show ?thesis
    unfolding grpc_lite_open_call_stream_attempt_def ch option.case a prod.case
    using o threw refused go by (cases result; cases "ch_connection_key channel") simp_all
qed

section \<open>The next message\<close>

lemma pulled_rest:
  assumes "pulled L k p (hp_calls h) h (r, st', h', w')"
  shows "heap_inv L {} {} h' \<and> st_call st' = k \<and> hp_calls h' k \<noteq> None \<and> rest (Some k) h' = rest (Some k) h"
proof (cases r)
  case (NextMessage m i)
  then have "holding L k p (hp_calls h) h h'" "st_call st' = k" using assms by (simp_all add: pulled_def)
  then show ?thesis using rest_but [of k h' h] by (auto simp: holding_def)
next
  case (NextDone s i t a)
  then have "let_go L k p h h'" "st_call st' = k" using assms by (simp_all add: pulled_def)
  then show ?thesis using rest_but [of k h' h] by (auto simp: let_go_def)
qed

lemma next_moved:
  assumes env: "env_ok E" and inv: "call_inv sha (en_lib E) call h" and st: "cl_server_streaming_resource call = Some st"
  shows "safe (\<lambda>(r, st', h', w'). moved sha (en_lib E) call h (call\<lparr>cl_server_streaming_resource := Some st'\<rparr>) h'
      \<and> (next_retryable r \<longrightarrow> \<not> fresh_stream 1 call h))
    (server_streaming_call_next_resource_core (en_lib E) G dec (en_next E h w (stream_connection st h)) st h w)"
proof -
  obtain c where c: "hp_calls h (st_call st) = Some c" "stream_connection st h = connection c"
    "holding (en_lib E) (st_call st) (connection c) (hp_calls h) h h" using stream_live [OF inv st] by metis
  obtain rounds cancel reject where sc: "en_next E h w (stream_connection st h) = (rounds, cancel, reject)" by (metis surj_pair)
  have s: "script_ok (en_lib E) (connection c) (hp_calls h) cancel" "script_ok (en_lib E) (connection c) (hp_calls h) reject"
    "\<forall>self. connection c = Some self \<longrightarrow> (\<forall>r \<in> set rounds. stream_round_ok (en_lib E) self (hp_calls h) r)"
  proof -
    have "case en_next E h w (connection c) of (rounds, cancel, reject) \<Rightarrow>
          script_ok (en_lib E) (connection c) (hp_calls h) cancel \<and> script_ok (en_lib E) (connection c) (hp_calls h) reject
          \<and> (\<forall>self. connection c = Some self \<longrightarrow> (\<forall>r \<in> set rounds. stream_round_ok (en_lib E) self (hp_calls h) r))"
      using env by (simp only: env_ok_def scripts_ok_def)
    then show "script_ok (en_lib E) (connection c) (hp_calls h) cancel" "script_ok (en_lib E) (connection c) (hp_calls h) reject"
      "\<forall>self. connection c = Some self \<longrightarrow> (\<forall>r \<in> set rounds. stream_round_ok (en_lib E) self (hp_calls h) r)" using sc c(2) by simp_all
  qed
  have wf: "call_wf sha (call\<lparr>cl_server_streaming_resource := Some st'\<rparr>)" for st' using inv by (simp add: call_inv_def call_wf_def)
  show ?thesis unfolding sc
  proof (rule safe_mono [OF next_pulled [OF env_laws(1) [OF env] c(3) s]], clarify)
    fix r st' h' w' assume p: "pulled (en_lib E) (st_call st) (connection c) (hp_calls h) h (r, st', h', w')"
    have h': "heap_inv (en_lib E) {} {} h'" "st_call st' = st_call st" "hp_calls h' (st_call st) \<noteq> None" "rest (Some (st_call st)) h' = rest (Some (st_call st)) h"
      using pulled_rest [OF p] by simp_all
    then have "moved sha (en_lib E) call h (call\<lparr>cl_server_streaming_resource := Some st'\<rparr>) h'"
      using h'(1-3) wf st by (simp add: moved_def call_inv_def resource_id_def)
    moreover have "\<not> fresh_stream 1 call h" if "next_retryable r"
    proof -
      have "first_attempt (connection c) (hp_calls h) (st_call st)" using p that by (cases r) (simp_all add: pulled_def next_retryable_def)
      then show ?thesis using st c(1) by (auto simp: fresh_stream_def first_attempt_def)
    qed
    ultimately show "moved sha (en_lib E) call h (call\<lparr>cl_server_streaming_resource := Some st'\<rparr>) h'
      \<and> (next_retryable r \<longrightarrow> \<not> fresh_stream 1 call h)" by blast
  qed
qed

definition pulled_on :: "(string \<Rightarrow> byte list) \<Rightarrow> 'ss lib \<Rightarrow> call_obj \<Rightarrow> 'ss heap \<Rightarrow> 'e \<times> call_obj \<times> 'ss heap \<times> io_world \<Rightarrow> bool" where
  "pulled_on sha L call h r \<longleftrightarrow> (case r of (e, call', h', w') \<Rightarrow> moved sha L call h call' h')"

lemma pulled_on_tuple [simp]: "pulled_on sha L call h (e, call', h', w') \<longleftrightarrow> moved sha L call h call' h'"
  by (simp add: pulled_on_def)

lemma pulled_on_from: "moved sha L call h call1 h1 \<Longrightarrow> pulled_on sha L call1 h1 r \<Longrightarrow> pulled_on sha L call h r"
  by (auto simp: pulled_on_def intro: moved_trans)

lemma reopen_inv: "call_inv sha L call h \<Longrightarrow> call_inv sha L (call\<lparr>cl_server_streaming_opened := False\<rparr>) h
    \<and> moved sha L call h (call\<lparr>cl_server_streaming_opened := False\<rparr>) h"
  using moved_local [of sha L call h "call\<lparr>cl_server_streaming_opened := False\<rparr>"] by (auto simp: call_inv_def call_wf_def moved_def)

lemma retry_safe:
  assumes env: "env_ok E" and inv: "call_inv sha (en_lib E) call h" and init: "cl_initialized call"
  shows "safe (stream_ready sha (en_lib E) 1 False call h) (grpc_lite_retry_call_stream E call h w)"
  unfolding grpc_lite_retry_call_stream_def
  by (rule safe_mono [OF open_attempt_safe [OF env]]) (use reopen_inv [OF inv] init in \<open>auto intro: stream_ready_from\<close>)

lemma moved_init: "moved sha L call h call' h' \<Longrightarrow> cl_initialized call' = cl_initialized call \<and> call_inv sha L call' h'"
  by (simp add: moved_def kept_call_def)

lemma ensure_open_safe:
  assumes env: "env_ok E" and inv: "call_inv sha (en_lib E) call h" and init: "cl_initialized call"
  shows "safe (\<lambda>(e, call', h', w'). moved sha (en_lib E) call h call' h'
      \<and> (e = None \<longrightarrow> cl_status_ready call' \<or> cl_server_streaming_opened call' \<and> cl_server_streaming_resource call' \<noteq> None))
    (if \<not> cl_server_streaming_opened call then grpc_lite_open_call_stream_attempt E 0 True call h w else Ok (None, call, h, w))"
proof (cases "cl_server_streaming_opened call")
  case True
  then show ?thesis using inv moved_refl [OF inv] by (auto simp: call_inv_def call_wf_def)
next
  case False
  have "safe (\<lambda>(e, call', h', w'). moved sha (en_lib E) call h call' h'
      \<and> (e = None \<longrightarrow> cl_status_ready call' \<or> cl_server_streaming_opened call' \<and> cl_server_streaming_resource call' \<noteq> None))
    (grpc_lite_open_call_stream_attempt E 0 True call h w)"
    by (rule safe_mono [OF open_attempt_safe [OF env inv init False]]) (auto simp: stream_ready_def fresh_stream_def)
  then show ?thesis using False by simp
qed

lemma next_for_call_safe:
  assumes env: "env_ok E"
  shows "call_inv sha (en_lib E) call h \<Longrightarrow> cl_initialized call \<Longrightarrow> safe (pulled_on sha (en_lib E) call h) (next_for_call E n call h w)"
proof (induction n arbitrary: call h w)
  case (Suc n)
  show ?case unfolding next_for_call.simps
  proof (rule safe4 [OF ensure_open_safe [OF env Suc.prems]], goal_cases)
    case (1 e call1 h1 w1)
    then have m: "moved sha (en_lib E) call h call1 h1" by simp
    have i1: "call_inv sha (en_lib E) call1 h1" "cl_initialized call1" using moved_init [OF m] Suc.prems(2) by simp_all
    have status: "cl_status_ready call1 \<Longrightarrow> cl_status call1 \<noteq> None" using i1(1) by (auto simp: call_inv_def call_wf_def)
    have pull: "safe (pulled_on sha (en_lib E) call h) (and_then (server_streaming_call_next_resource_core (en_lib E) (en_globals E) (en_dec E)
                      (en_next E h1 w1 (stream_connection st h1)) st h1 w1) (\<lambda>(r, st, h, w).
                    (let call = call1\<lparr>cl_server_streaming_resource := Some st\<rparr>
                     in if \<not> next_retryable r \<or> cl_initial_metadata_ready call \<or> cl_status_ready call then Ok (Inr r, call, h, w)
                        else and_then (grpc_lite_retry_call_stream E call h w) (\<lambda>(e, call, h, w).
                               case e of Some e \<Rightarrow> Ok (Inl e, call, h, w) | None \<Rightarrow> next_for_call E n call h w))))"
      if "cl_server_streaming_resource call1 = Some st" for st
    proof (rule safe4 [OF next_moved [OF env i1(1) that]], goal_cases)
      case (1 r st2 h2 w2)
      let ?call = "call1\<lparr>cl_server_streaming_resource := Some st2\<rparr>"
      have m2: "moved sha (en_lib E) call h ?call h2" using 1 moved_trans [OF m] by simp
      have i2: "call_inv sha (en_lib E) ?call h2" "cl_initialized ?call" using moved_init [OF m2] Suc.prems(2) by simp_all
      have "safe (pulled_on sha (en_lib E) call h) (and_then (grpc_lite_retry_call_stream E ?call h2 w2) (\<lambda>(e, call, h, w).
                               case e of Some e \<Rightarrow> Ok (Inl e, call, h, w) | None \<Rightarrow> next_for_call E n call h w))"
      proof (rule safe4 [OF retry_safe [OF env i2]], goal_cases)
        case (1 e call3 h3 w3)
        then have m3: "moved sha (en_lib E) call h call3 h3" using moved_trans [OF m2] by (simp add: stream_ready_def)
        then have "call_inv sha (en_lib E) call3 h3" "cl_initialized call3" using moved_init [OF m3] Suc.prems(2) by simp_all
        then have "safe (pulled_on sha (en_lib E) call h) (next_for_call E n call3 h3 w3)"
          by (intro safe_mono [OF Suc.IH]) (auto intro: pulled_on_from [OF m3])
        then show ?case using m3 by (cases e) simp_all
      qed
      then show ?case using m2 by (simp add: Let_def)
    qed
    show ?case
    proof (cases e)
      case (Some x)
      then show ?thesis using m by simp
    next
      case None
      then show ?thesis using m 1 status pull by (auto split: option.split)
    qed
  qed
qed simp

section \<open>The bound of the loops\<close>

lemma and_then_cong: "safe Q r \<Longrightarrow> (\<And>x. Q x \<Longrightarrow> f x = g x) \<Longrightarrow> and_then r f = and_then r g"
  by (cases r) auto

text \<open>After a retry the loop is left in its next iteration.\<close>

lemma retried_final:
  assumes env: "env_ok E" and inv: "call_inv sha (en_lib E) call h"
    and o: "cl_server_streaming_opened call" and r: "cl_status_ready call \<or> fresh_stream 1 call h"
  shows "next_for_call E (Suc n) call h w = next_for_call E (Suc m) call h w"
proof (cases "cl_status_ready call")
  case True
  then show ?thesis using o by simp
next
  case False
  then have f: "fresh_stream 1 call h" using r by simp
  then obtain st where st: "cl_server_streaming_resource call = Some st" by (auto simp: fresh_stream_def)
  show ?thesis using o False st
    by (simp only: next_for_call.simps st not_True_eq_False if_False Stream_Registry.and_then.simps prod.case option.case)
       (rule and_then_cong [OF next_moved [OF env inv st]], use f in \<open>auto simp: Let_def\<close>)
qed

lemma next_bound:
  assumes env: "env_ok E" and inv: "call_inv sha (en_lib E) call h" and init: "cl_initialized call"
  shows "next_for_call E (Suc (Suc n)) call h w = next_for_call E 2 call h w"
proof -
  have retry: "and_then (grpc_lite_retry_call_stream E call2 h2 w2) (\<lambda>(e, call, h, w).
        case e of Some e \<Rightarrow> Ok (Inl e, call, h, w) | None \<Rightarrow> next_for_call E (Suc n) call h w)
      = and_then (grpc_lite_retry_call_stream E call2 h2 w2) (\<lambda>(e, call, h, w).
        case e of Some e \<Rightarrow> Ok (Inl e, call, h, w) | None \<Rightarrow> next_for_call E (Suc 0) call h w)"
    if i2: "call_inv sha (en_lib E) call2 h2" "cl_initialized call2" for call2 h2 w2
  proof (rule and_then_cong [OF retry_safe [OF env i2]], clarify)
    fix e call3 h3 w3 assume s: "stream_ready sha (en_lib E) 1 False call2 h2 (e, call3, h3, w3)"
    then have "call_inv sha (en_lib E) call3 h3" by (simp add: stream_ready_def moved_def)
    from retried_final [OF env this, of n w3 0] s
    show "(case e of Some e \<Rightarrow> Ok (Inl e, call3, h3, w3) | None \<Rightarrow> next_for_call E (Suc n) call3 h3 w3)
        = (case e of Some e \<Rightarrow> Ok (Inl e, call3, h3, w3) | None \<Rightarrow> next_for_call E (Suc 0) call3 h3 w3)"
      by (cases e) (simp_all add: stream_ready_def del: next_for_call.simps)
  qed
  have two: "2 = Suc (Suc 0)" by simp
  show ?thesis unfolding two next_for_call.simps(2) [of E "Suc n"] next_for_call.simps(2) [of E "Suc 0"]
  proof (rule and_then_cong [OF ensure_open_safe [OF env inv init]], clarify, goal_cases)
    case (1 e call1 h1 w1)
    then have m: "moved sha (en_lib E) call h call1 h1" by simp
    have i1: "call_inv sha (en_lib E) call1 h1" "cl_initialized call1" using moved_init [OF m] init by simp_all
    have pull: "and_then (server_streaming_call_next_resource_core (en_lib E) (en_globals E) (en_dec E)
                      (en_next E h1 w1 (stream_connection st h1)) st h1 w1) (\<lambda>(r, st, h, w).
                    (let call = call1\<lparr>cl_server_streaming_resource := Some st\<rparr>
                     in if \<not> next_retryable r \<or> cl_initial_metadata_ready call \<or> cl_status_ready call then Ok (Inr r, call, h, w)
                        else and_then (grpc_lite_retry_call_stream E call h w) (\<lambda>(e, call, h, w).
                               case e of Some e \<Rightarrow> Ok (Inl e, call, h, w) | None \<Rightarrow> next_for_call E (Suc n) call h w)))
              = and_then (server_streaming_call_next_resource_core (en_lib E) (en_globals E) (en_dec E)
                      (en_next E h1 w1 (stream_connection st h1)) st h1 w1) (\<lambda>(r, st, h, w).
                    (let call = call1\<lparr>cl_server_streaming_resource := Some st\<rparr>
                     in if \<not> next_retryable r \<or> cl_initial_metadata_ready call \<or> cl_status_ready call then Ok (Inr r, call, h, w)
                        else and_then (grpc_lite_retry_call_stream E call h w) (\<lambda>(e, call, h, w).
                               case e of Some e \<Rightarrow> Ok (Inl e, call, h, w) | None \<Rightarrow> next_for_call E (Suc 0) call h w)))"
      if "cl_server_streaming_resource call1 = Some st" for st
    proof (rule and_then_cong [OF next_moved [OF env i1(1) that]], clarify, goal_cases)
      case (1 r st2 h2 w2)
      have "call_inv sha (en_lib E) (call1\<lparr>cl_server_streaming_resource := Some st2\<rparr>) h2" using 1 by (simp add: moved_def)
      from retry [OF this] i1(2) show ?case by (simp add: Let_def del: next_for_call.simps)
    qed
    show ?case by (cases "cl_server_streaming_resource call1") (simp_all only: option.case pull)
  qed
qed

section \<open>Batches\<close>

lemma record_initial_wf: "call_wf sha call \<Longrightarrow> call_wf sha (record_initial_metadata i call)"
  by (simp add: call_wf_def record_initial_metadata_def)

lemma record_end_wf: "call_wf sha call \<Longrightarrow> call_wf sha (record_stream_end s i t call)"
  by (auto simp: call_wf_def record_initial_metadata_def record_stream_end_def grpc_lite_make_status_object_def)

lemma record_fields [simp]:
  "kept_call call (record_initial_metadata i call)" "kept_call call (record_stream_end s i t call)"
  "cl_server_streaming_resource (record_initial_metadata i call) = cl_server_streaming_resource call"
  "cl_server_streaming_resource (record_stream_end s i t call) = cl_server_streaming_resource call"
  "cl_status_ready (record_stream_end s i t call)"
  by (simp_all add: kept_call_def record_initial_metadata_def record_stream_end_def)

lemma moved_record:
  assumes "moved sha L call h call1 h1"
  shows "moved sha L call h (record_initial_metadata i call1) h1" "moved sha L call h (record_stream_end s i t call1) h1"
proof -
  have inv: "call_inv sha L call1 h1" and wf: "call_wf sha call1" using assms by (simp_all add: moved_def call_inv_def)
  show "moved sha L call h (record_initial_metadata i call1) h1"
    by (rule moved_trans [OF assms], rule moved_local [OF inv record_initial_wf [OF wf]]) simp_all
  show "moved sha L call h (record_stream_end s i t call1) h1"
    by (rule moved_trans [OF assms], rule moved_local [OF inv record_end_wf [OF wf]]) simp_all
qed

lemma next_safe:
  assumes "env_ok E" "call_inv sha (en_lib E) call h" "cl_initialized call"
  shows "safe (pulled_on sha (en_lib E) call h) (grpc_lite_server_streaming_next_for_call E call h w)"
  unfolding grpc_lite_server_streaming_next_for_call_def by (rule next_for_call_safe [OF assms])

definition status_known :: "(string \<Rightarrow> byte list) \<Rightarrow> 'ss lib \<Rightarrow> call_obj \<Rightarrow> 'ss heap \<Rightarrow> string option \<times> call_obj \<times> 'ss heap \<times> io_world \<Rightarrow> bool" where
  "status_known sha L call h r \<longleftrightarrow> (case r of (e, call', h', w') \<Rightarrow> moved sha L call h call' h' \<and> (e = None \<longrightarrow> cl_status_ready call'))"

lemma status_known_tuple [simp]:
  "status_known sha L call h (e, call', h', w') \<longleftrightarrow> moved sha L call h call' h' \<and> (e = None \<longrightarrow> cl_status_ready call')"
  by (simp add: status_known_def)

lemma drain_safe:
  assumes env: "env_ok E"
  shows "call_inv sha (en_lib E) call h \<Longrightarrow> cl_initialized call \<Longrightarrow> safe (status_known sha (en_lib E) call h) (drain_stream E fuel call h w)"
proof (induction fuel arbitrary: call h w)
  case (Suc fuel)
  show ?case unfolding drain_stream.simps
  proof (rule safe4 [OF next_safe [OF env Suc.prems]], goal_cases)
    case (1 r call1 h1 w1)
    then have m: "moved sha (en_lib E) call h call1 h1" by simp
    then have i1: "call_inv sha (en_lib E) call1 h1" "cl_initialized call1" using moved_init [OF m] Suc.prems(2) by simp_all
    have "safe (status_known sha (en_lib E) call h) (drain_stream E fuel call1 h1 w1)"
      by (rule safe_mono [OF Suc.IH [OF i1]]) (auto simp: status_known_def intro: moved_trans [OF m])
    then show ?case using m moved_record(2) [OF m] by (auto split: sum.split streaming_next_result.split)
  qed
qed simp

definition received :: "(string \<Rightarrow> byte list) \<Rightarrow> 'ss lib \<Rightarrow> batch \<Rightarrow> call_obj \<Rightarrow> 'ss heap
    \<Rightarrow> string option \<times> byte list option option \<times> call_obj \<times> 'ss heap \<times> io_world \<Rightarrow> bool" where
  "received sha L ops call h r \<longleftrightarrow> (case r of (e, m, call', h', w') \<Rightarrow> moved sha L call h call' h'
     \<and> (e = None \<longrightarrow> ops GRPC_OP_RECV_STATUS_ON_CLIENT \<noteq> None \<longrightarrow> cl_status_ready call'))"

lemma received_tuple [simp]:
  "received sha L ops call h (e, m, call', h', w') \<longleftrightarrow> moved sha L call h call' h'
     \<and> (e = None \<longrightarrow> ops GRPC_OP_RECV_STATUS_ON_CLIENT \<noteq> None \<longrightarrow> cl_status_ready call')"
  by (simp add: received_def)

lemma batch_receive_safe:
  assumes env: "env_ok E" and inv: "call_inv sha (en_lib E) call h" and init: "cl_initialized call"
  shows "safe (received sha (en_lib E) ops call h) (batch_receive E fuel ops call h w)"
proof -
  have unary: "safe (received sha (en_lib E) ops call h) (and_then (grpc_lite_perform_call_unary E call h w) (\<lambda>(e, call, h, w). Ok (e, None, call, h, w)))"
    by (rule safe4 [OF perform_unary_safe [OF env inv init]]) (auto simp: unary_ended_def)
  have drain: "safe (received sha (en_lib E) ops call h) (and_then (drain_stream E fuel call h w) (\<lambda>(e, call, h, w). Ok (e, None, call, h, w)))"
    by (rule safe4 [OF drain_safe [OF env inv init]]) auto
  have message: "safe (received sha (en_lib E) ops call h) (and_then (grpc_lite_server_streaming_next_for_call E call h w) (\<lambda>(r, call, h, w).
               case r of
                 Inl e \<Rightarrow> Ok (Some e, None, call, h, w)
               | Inr (NextDone s i t a) \<Rightarrow> Ok (None, Some None, record_stream_end s i t call, h, w)
               | Inr (NextMessage m i) \<Rightarrow> Ok (None, Some (Some m), record_initial_metadata i call, h, w)))"
    if "ops GRPC_OP_RECV_STATUS_ON_CLIENT = None"
    by (rule safe4 [OF next_safe [OF env inv init]])
       (use that moved_record in \<open>auto split: sum.split streaming_next_result.split\<close>)
  have wf: "cl_unary_performed call \<Longrightarrow> cl_status_ready call" using inv by (simp add: call_inv_def call_wf_def)
  have idle: "received sha (en_lib E) ops call h (None, None, call, h, w)" if "ops GRPC_OP_RECV_STATUS_ON_CLIENT = None \<or> cl_status_ready call"
    using that moved_refl [OF inv] by auto
  show ?thesis
  proof (cases "ops GRPC_OP_RECV_STATUS_ON_CLIENT = None")
    case True
    then show ?thesis using message [OF True] idle by (simp add: batch_receive_def)
  next
    case False
    then show ?thesis using unary drain idle wf by (simp add: batch_receive_def Let_def)
  qed
qed

lemma store_message_shape:
  assumes "store_send_message message call = (e, call')"
  shows "\<exists>p q. call' = call\<lparr>cl_request_payload := p, cl_unary_response_payload := q\<rparr>"
proof -
  have refl: "\<exists>p q. c = c\<lparr>cl_request_payload := p, cl_unary_response_payload := q\<rparr>" for c :: call_obj
    by (rule exI [of _ "cl_request_payload c"], rule exI [of _ "cl_unary_response_payload c"]) simp
  show ?thesis using assms refl [of call]
    by (auto simp: store_send_message_def split: op_value.splits option.splits php_value.splits)
qed

lemma store_batch_shape:
  assumes "grpc_lite_store_send_batch ops call = (e, call')"
  shows "\<exists>m p q. call' = call\<lparr>cl_metadata := m, cl_request_payload := p, cl_unary_response_payload := q\<rparr>"
proof -
  define call1 where "call1 = (case ops GRPC_OP_SEND_INITIAL_METADATA of None \<Rightarrow> call
      | Some (OpArray m) \<Rightarrow> call\<lparr>cl_metadata := m\<rparr> | Some OpOther \<Rightarrow> call\<lparr>cl_metadata := []\<rparr>)"
  have "\<exists>m. c = c\<lparr>cl_metadata := m\<rparr>" for c :: call_obj by (rule exI [of _ "cl_metadata c"]) simp
  then have "\<exists>m. call1 = call\<lparr>cl_metadata := m\<rparr>" unfolding call1_def by (simp split: option.split op_value.split) blast
  then obtain m where m: "call1 = call\<lparr>cl_metadata := m\<rparr>" by blast
  have r: "(case ops GRPC_OP_SEND_MESSAGE of None \<Rightarrow> (None, call1) | Some message \<Rightarrow> store_send_message message call1) = (e, call')"
    using assms by (simp only: grpc_lite_store_send_batch_def call1_def Let_def)
  show ?thesis
  proof (cases "ops GRPC_OP_SEND_MESSAGE")
    case None
    then have "call' = call\<lparr>cl_metadata := m\<rparr>" using r m by simp
    also have "\<dots> = call\<lparr>cl_metadata := m, cl_request_payload := cl_request_payload call, cl_unary_response_payload := cl_unary_response_payload call\<rparr>"
      by simp
    finally have "call' = call\<lparr>cl_metadata := m, cl_request_payload := cl_request_payload call, cl_unary_response_payload := cl_unary_response_payload call\<rparr>" .
    then show ?thesis by blast
  next
    case (Some message)
    then obtain p q where "call' = call1\<lparr>cl_request_payload := p, cl_unary_response_payload := q\<rparr>" using r store_message_shape by force
    then have "call' = call\<lparr>cl_metadata := m, cl_request_payload := p, cl_unary_response_payload := q\<rparr>" using m by simp
    then show ?thesis by blast
  qed
qed

lemma store_send_moved:
  assumes inv: "call_inv sha L call h"
    and r: "(if ops GRPC_OP_SEND_INITIAL_METADATA \<noteq> None \<or> ops GRPC_OP_SEND_MESSAGE \<noteq> None \<or> ops GRPC_OP_SEND_CLOSE_FROM_CLIENT \<noteq> None
             then grpc_lite_store_send_batch ops call else (None, call)) = (e, call')"
  shows "moved sha L call h call' h"
proof (cases "call' = call")
  case True
  then show ?thesis using moved_refl [OF inv] by simp
next
  case False
  have wf: "call_wf sha call" using inv by (simp add: call_inv_def)
  from False r have "grpc_lite_store_send_batch ops call = (e, call')" by (simp split: if_splits)
  then obtain m p q where c: "call' = call\<lparr>cl_metadata := m, cl_request_payload := p, cl_unary_response_payload := q\<rparr>"
    using store_batch_shape by blast
  show ?thesis unfolding c by (rule moved_local [OF inv]) (use wf in \<open>simp_all add: call_wf_def kept_call_def\<close>)
qed

definition batch_done :: "(string \<Rightarrow> byte list) \<Rightarrow> 'ss lib \<Rightarrow> batch \<Rightarrow> call_obj \<Rightarrow> 'ss heap
    \<Rightarrow> (string + event) \<times> call_obj \<times> 'ss heap \<times> io_world \<Rightarrow> bool" where
  "batch_done sha L ops call h r \<longleftrightarrow> (case r of (res, call', h', w') \<Rightarrow> moved sha L call h call' h'
     \<and> (\<forall>ev. res = Inr ev \<longrightarrow> ops GRPC_OP_RECV_STATUS_ON_CLIENT \<noteq> None \<longrightarrow>
          cl_status_ready call' \<and> cl_status call' \<noteq> None \<and> ev_status ev = cl_status call'))"

lemma mark_cancelled_moved:
  assumes inv: "call_inv sha L call h"
  shows "moved sha L call h (grpc_lite_mark_call_cancelled call) h" "cl_status_ready (grpc_lite_mark_call_cancelled call)"
proof -
  have "call_wf sha call" using inv by (simp add: call_inv_def)
  then show "moved sha L call h (grpc_lite_mark_call_cancelled call) h"
    by (intro moved_local [OF inv])
       (auto simp: call_wf_def kept_call_def grpc_lite_mark_call_cancelled_def grpc_lite_make_status_object_def)
  show "cl_status_ready (grpc_lite_mark_call_cancelled call)" by (simp add: grpc_lite_mark_call_cancelled_def)
qed

lemma event_status:
  assumes "call_wf sha call" "cl_status_ready call" "ops GRPC_OP_RECV_STATUS_ON_CLIENT \<noteq> None"
  shows "ev_status (ended_event ops call) = cl_status call" "ev_status (batch_event ops m call) = cl_status call" "cl_status call \<noteq> None"
  using assms by (auto simp: call_wf_def ended_event_def batch_event_def Let_def grpc_lite_add_event_status_def)

lemma batch_doneI:
  assumes "moved sha L call h call' h'"
    and "ops GRPC_OP_RECV_STATUS_ON_CLIENT \<noteq> None \<Longrightarrow> cl_status_ready call'"
    and "ev = ended_event ops call' \<or> ev = batch_event ops m call'"
  shows "batch_done sha L ops call h (Inr ev, call', h', w')"
proof -
  have "call_wf sha call'" using assms(1) by (simp add: moved_def call_inv_def)
  from event_status [OF this] show ?thesis using assms by (auto simp: batch_done_def)
qed

lemma startBatch_safe:
  assumes env: "env_ok E" and inv: "call_inv sha (en_lib E) call h"
  shows "safe (batch_done sha (en_lib E) ops call h) (Call_startBatch E fuel ops call h w)"
proof (cases "cl_initialized call")
  case False
  then show ?thesis using moved_refl [OF inv] by (simp add: Call_startBatch_def batch_done_def)
next
  case True
  obtain e call1 where st: "(if ops GRPC_OP_SEND_INITIAL_METADATA \<noteq> None \<or> ops GRPC_OP_SEND_MESSAGE \<noteq> None \<or> ops GRPC_OP_SEND_CLOSE_FROM_CLIENT \<noteq> None
             then grpc_lite_store_send_batch ops call else (None, call)) = (e, call1)" by fastforce
  note m = store_send_moved [OF inv st]
  have i1: "call_inv sha (en_lib E) call1 h" "cl_initialized call1" using moved_init [OF m] True by simp_all
  note c = mark_cancelled_moved [OF i1(1)]
  have cancelled: "batch_done sha (en_lib E) ops call h (Inr (ended_event ops (grpc_lite_mark_call_cancelled call1)), grpc_lite_mark_call_cancelled call1, h, w)"
    by (rule batch_doneI [OF moved_trans [OF m c(1)]]) (use c(2) in simp_all)
  have ready: "batch_done sha (en_lib E) ops call h (Inr (ended_event ops call1), call1, h, w)" if "cl_status_ready call1"
    by (rule batch_doneI [OF m]) (use that in simp_all)
  have run: "safe (batch_done sha (en_lib E) ops call h) (and_then (batch_receive E fuel ops call1 h w) (\<lambda>(e, message, call, h, w).
                 case e of Some e \<Rightarrow> Ok (Inl e, call, h, w) | None \<Rightarrow> Ok (Inr (batch_event ops message call), call, h, w)))"
  proof (rule safe_and_then [OF batch_receive_safe [OF env i1]], clarify)
    fix e message call2 h2 w2 assume "received sha (en_lib E) ops call1 h (e, message, call2, h2, w2)"
    then have r: "moved sha (en_lib E) call h call2 h2" "e = None \<Longrightarrow> ops GRPC_OP_RECV_STATUS_ON_CLIENT \<noteq> None \<Longrightarrow> cl_status_ready call2"
      using moved_trans [OF m] by simp_all
    show "safe (batch_done sha (en_lib E) ops call h) (case e of None \<Rightarrow> Ok (Inr (batch_event ops message call2), call2, h2, w2) | Some e \<Rightarrow> Ok (Inl e, call2, h2, w2))"
      using r batch_doneI [of sha "en_lib E" call h call2 h2 ops "batch_event ops message call2" message w2] by (cases e) (simp_all add: batch_done_def)
  qed
  have threw: "batch_done sha (en_lib E) ops call h (Inl x, call1, h, w)" for x using m by (simp add: batch_done_def)
  show ?thesis unfolding Call_startBatch_def st prod.case using True threw cancelled ready run by (cases e) (simp_all add: Let_def)
qed

section \<open>Cancelling, freeing, closing\<close>

lemma call_cancel_safe:
  assumes env: "env_ok E" and inv: "call_inv sha (en_lib E) call h"
  shows "safe (pulled_on sha (en_lib E) call h) (Call_cancel E call h w)"
proof -
  let ?call = "call\<lparr>cl_cancelled := True\<rparr>"
  have wf: "call_wf sha (?call\<lparr>cl_server_streaming_resource := Some st\<rparr>)" for st using inv by (simp add: call_inv_def call_wf_def)
  have m: "moved sha (en_lib E) call h ?call h" by (rule moved_local [OF inv]) (use inv in \<open>simp_all add: call_inv_def\<close>)
  have held: "safe (pulled_on sha (en_lib E) call h) (and_then (server_streaming_call_cancel_resource (en_lib E) (en_send E h w (stream_connection st h)) st h w) (\<lambda>(st, h, w).
                  Ok (None :: string option, ?call\<lparr>cl_server_streaming_resource := Some st\<rparr>, h, w)))"
    if st: "cl_server_streaming_resource call = Some st" for st
  proof -
    obtain c where c: "hp_calls h (st_call st) = Some c" "stream_connection st h = connection c"
      "holding (en_lib E) (st_call st) (connection c) (hp_calls h) h h" using stream_live [OF inv st] by metis
    have s: "script_ok (en_lib E) (connection c) (hp_calls h) (en_send E h w (stream_connection st h))"
      using env_laws(5) [OF env, of "connection c" h w] c(2) by simp
    show ?thesis
    proof (rule safe3 [OF cancel_resource_held [OF env_laws(1) [OF env] c(3) s]], goal_cases)
      case (1 st' h' w')
      have "heap_inv (en_lib E) {} {} h' \<and> st_call st' = st_call st \<and> hp_calls h' (st_call st) \<noteq> None \<and> rest (Some (st_call st)) h' = rest (Some (st_call st)) h"
      proof (cases "(st', h', w') = (st, h, w)")
        case True
        then show ?thesis using c(1) inv by (simp add: call_inv_def)
      next
        case False
        then have "let_go (en_lib E) (st_call st) (connection c) h h'" "st_call st' = st_call st" using 1 by (simp_all split: if_splits)
        then show ?thesis using rest_but [of "st_call st" h' h] by (auto simp: let_go_def)
      qed
      then show ?case using wf st by (simp add: moved_def call_inv_def resource_id_def kept_call_def)
    qed
  qed
  show ?thesis using held m moved_refl [OF inv]
    by (cases "cl_server_streaming_opened call"; cases "cl_server_streaming_resource call") (simp_all add: Call_cancel_def Let_def)
qed

lemma free_safe:
  assumes env: "env_ok E" and inv: "call_inv sha (en_lib E) call h"
  shows "safe (\<lambda>(h', w'). heap_inv (en_lib E) {} {} h' \<and> rest None h' = rest (resource_id call) h) (grpc_lite_call_free_object E call h w)"
proof -
  let ?call = "call\<lparr>cl_server_streaming_opened := False\<rparr>"
  have d: "drop_streaming_resource E call h w = and_then (drop_streaming_resource E ?call h w) (\<lambda>(c, h, w). Ok (call\<lparr>cl_server_streaming_resource := None\<rparr>, h, w))"
  proof (cases "cl_server_streaming_resource call")
    case (Some st)
    then show ?thesis
      by (cases "destroy_server_streaming_call_state (en_lib E) (en_send E h w (stream_connection st h)) st h w")
         (auto simp: drop_streaming_resource_def)
  qed (simp add: drop_streaming_resource_def)
  have "call_inv sha (en_lib E) ?call h" using reopen_inv [OF inv] by simp
  from drop_resource_safe [OF env this, of w] have "safe (\<lambda>(call', h', w'). heap_inv (en_lib E) {} {} h' \<and> rest None h' = rest (resource_id call) h) (drop_streaming_resource E ?call h w)"
    by (rule safe_mono) (auto simp: moved_def call_inv_def resource_id_def)
  then show ?thesis unfolding grpc_lite_call_free_object_def d by (cases "drop_streaming_resource E ?call h w") auto
qed

lemma close_safe:
  assumes inv: "heap_inv L {} {} h"
  shows "returns (\<lambda>(e, h'). heap_inv L {} {} h' \<and> hp_calls h' = hp_calls h) (Channel_close channel h)"
proof -
  have "returns (\<lambda>(e, h'). heap_inv L {} {} h' \<and> hp_calls h' = hp_calls h)
      (and_then (discard_persistent_connection key (pe_connection entry) h) (\<lambda>h. Ok (None, h)))" if f: "cache_find key h = Some entry" for key entry
  proof -
    have ok: "cache_ok h" using inv by (simp add: heap_defs)
    obtain c where c: "hp_conns h (pe_connection entry) = Some c" using cached_live [OF ok cache_find_entry(2) [OF ok f]] by blast
    have inv': "heap_inv L {} (insert (pe_connection entry) {}) h" using inv by (rule heap_inv_mono) simp_all
    from discard_inv [OF inv' c keyed_found [OF ok f]] show ?thesis by (auto simp: discarded_def)
  qed
  then show ?thesis using inv by (auto simp: Channel_close_def split: option.split)
qed

section \<open>Examples\<close>

text \<open>The allocator takes the least free address; nghttp2 does nothing on its own.\<close>

definition idle_env :: "((int \<Rightarrow> call_id option), nat) client_env" where
  "idle_env = \<lparr>en_lib = table_lib, en_globals = example_globals, en_enc = id, en_dec = Some, en_setup = (\<lambda>h w. table_env),
     en_conn = (\<lambda>h. LEAST i. hp_conns h i = None), en_call = (\<lambda>h. LEAST k. hp_calls h k = None),
     en_preflight = (\<lambda>h w key. []), en_unary = (\<lambda>h w self. \<lparr>cs_initial = ([], id, 0), cs_rounds = [], cs_cancel = ([], id, 0)\<rparr>),
     en_send = (\<lambda>h w p. ([], id, 0)), en_next = (\<lambda>h w p. table_pull)\<rparr>"

lemma least_free: "finite (dom m) \<Longrightarrow> m (LEAST k. m k = None) = None" for m :: "nat \<rightharpoonup> 'a"
  by (rule LeastI_ex) (metis domIff ex_new_if_finite infinite_UNIV_nat)

lemma table_setup: "setup_ok table_lib table_env"
  using table_laws(2) by (simp add: setup_ok_def setup_laws_def table_env_def table_lib_def)

lemma idle_env_ok: "env_ok idle_env" "en_lib idle_env = table_lib"
proof -
  have send: "send_script_ok table_lib self ([], id, 0) calls" for self calls
    using table_script_ok [of "Some self" calls] by (simp add: script_ok_def)
  show "env_ok idle_env"
    using table_laws(1) table_submit_laws table_setup table_script_ok send
    by (simp add: env_ok_def allocator_ok_def scripts_ok_def idle_env_def least_free call_script_ok_def)
qed (simp add: idle_env_def)

definition idle_call :: call_obj where
  "idle_call = snd (Call_construct (snd plain_channel) ''/s/m'' \<lparr>tv_microseconds = 0\<rparr> grpc_lite_call_create_object)"

lemma plain_ready: "channel_ready text_bytes (snd plain_channel)"
  using example_channels_key(1) construct_ready [of text_bytes "''h:80''" _ _ "snd plain_channel"]
  unfolding plain_channel_def by (metis prod.collapse)

lemma idle_call_eq: "idle_call = grpc_lite_call_create_object\<lparr>cl_channel := Some (snd plain_channel), cl_method := Some ''/s/m'', cl_initialized := True\<rparr>"
  using plain_ready by (simp add: idle_call_def Call_construct_def channel_ready_def grpc_lite_call_create_object_def validate_grpc_path_def)

lemma idle_call_inv: "heap_inv L {} {} h \<Longrightarrow> call_inv text_bytes L idle_call h"
  using plain_ready
  by (simp add: idle_call_eq call_inv_def call_wf_def resource_id_def grpc_lite_call_create_object_def validate_grpc_path_def)

section \<open>Properties\<close>

text \<open>
  C38.  The two retry loops are bounded by the single transparent retry the client allows itself.  The loop of a unary call over its
  two attempts is always left with a result, an error or an exception, never by running out of attempts; and the endless loop that
  pulls from a stream never starts a third iteration: every bound from two on gives the same outcome.
\<close>

theorem two_attempts_suffice:
  assumes "env_ok E" "call_inv sha (en_lib E) call h" "cl_initialized call"
  shows "(\<forall>r h' w'. unary_attempts E channel key call [0, 1] h w = Ok (r, h', w') \<longrightarrow> r \<noteq> AttemptNone)
    \<and> (\<forall>n \<ge> 2. next_for_call E n call h w = grpc_lite_server_streaming_next_for_call E call h w)"
proof (intro conjI allI impI)
  have "heap_inv (en_lib E) {} {} h" using assms(2) by (simp add: call_inv_def)
  note s = unary_attempts_safe [OF assms(1) this, of key channel call w]
  show "r \<noteq> AttemptNone" if "unary_attempts E channel key call [0, 1] h w = Ok (r, h', w')" for r h' w'
    using safe_OkD [OF s that] by (simp add: concluded_def)
  show "next_for_call E n call h w = grpc_lite_server_streaming_next_for_call E call h w" if "2 \<le> n" for n
    using next_bound [OF assms, of "n - 2" w] that by (simp add: grpc_lite_server_streaming_next_for_call_def numeral_2_eq_2 Suc_diff_Suc)
qed

theorem two_attempts_suffice_witness:
  "next_for_call idle_env 5 idle_call table_heap idle_world = next_for_call idle_env 2 idle_call table_heap idle_world"
proof -
  have i: "call_inv text_bytes (en_lib idle_env) idle_call table_heap" using idle_call_inv [OF table_heap_inv] idle_env_ok(2) by simp
  have "cl_initialized idle_call" by (simp add: idle_call_eq)
  from two_attempts_suffice [OF idle_env_ok(1) i this, of "snd plain_channel" "''k''" idle_world]
  have "\<forall>n \<ge> 2. next_for_call idle_env n idle_call table_heap idle_world = grpc_lite_server_streaming_next_for_call idle_env idle_call table_heap idle_world"
    by (rule conjunct2)
  from spec [OF this, of 5]
  have "next_for_call idle_env 5 idle_call table_heap idle_world = grpc_lite_server_streaming_next_for_call idle_env idle_call table_heap idle_world"
    by simp
  then show ?thesis by (simp only: grpc_lite_server_streaming_next_for_call_def)
qed


definition status_batch :: batch where
  "status_batch = [GRPC_OP_RECV_STATUS_ON_CLIENT \<mapsto> OpOther]"


end
