(* ===== verification/Client.thy ===== *)
theory Client
  imports Call_Safety
begin

text \<open>
  The module as a whole (\<open>src/grpc.c\<close>): its start with the default configuration, its shutdown, and a PHP process that
  creates channel and call objects and uses them in any order.
\<close>

section \<open>The process\<close>

record 'ss process =
  pr_heap :: "'ss heap"
  pr_globals :: module_globals
  pr_default_roots :: "string option"
  pr_channels :: "nat \<rightharpoonup> channel_obj"
  pr_calls :: "nat \<rightharpoonup> call_obj"

definition GRPC_LITE_HTTP2_DEFAULT_MAX_HEADER_LIST_SIZE :: int where
  "GRPC_LITE_HTTP2_DEFAULT_MAX_HEADER_LIST_SIZE = 64 * 1024"

definition GRPC_LITE_PREFLIGHT_DRAIN_DEFAULT_MAX_BYTES :: int where
  "GRPC_LITE_PREFLIGHT_DRAIN_DEFAULT_MAX_BYTES = 65536"

definition default_globals :: module_globals where
  "default_globals =
     \<lparr>http2_stream_window_size = 8 * 1024 * 1024, http2_connection_window_size = 8 * 1024 * 1024,
      http2_max_frame_size = GRPC_LITE_HTTP2_DEFAULT_MAX_FRAME_SIZE,
      http2_max_header_list_size = GRPC_LITE_HTTP2_DEFAULT_MAX_HEADER_LIST_SIZE,
      server_streaming_read_ahead_max_messages = 32, server_streaming_read_ahead_max_bytes = 8 * 1024 * 1024,
      preflight_drain_max_bytes = GRPC_LITE_PREFLIGHT_DRAIN_DEFAULT_MAX_BYTES\<rparr>"

definition PHP_GINIT :: "'ss process" where
  "PHP_GINIT =
     \<lparr>pr_heap = \<lparr>hp_conns = (\<lambda>_. None), hp_calls = (\<lambda>_. None), hp_cache = [], hp_initialized = True\<rparr>,
      pr_globals = default_globals, pr_default_roots = None, pr_channels = (\<lambda>_. None), pr_calls = (\<lambda>_. None)\<rparr>"

fun destroy_entries :: "(string \<times> persistent_connection_entry) list \<Rightarrow> 'ss heap \<Rightarrow> 'ss heap res" where
  "destroy_entries [] h = Ok h"
| "destroy_entries ((key, entry) # entries) h =
     and_then (destroy_persistent_connection_entry entry True h) (destroy_entries entries)"

definition PHP_GSHUTDOWN :: "'ss process \<Rightarrow> 'ss process res" where
  "PHP_GSHUTDOWN s =
     (if \<not> hp_initialized (pr_heap s) then Ok s
      else and_then (destroy_entries (hp_cache (pr_heap s)) (pr_heap s)) (\<lambda>h.
        Ok (s\<lparr>pr_heap := h\<lparr>hp_cache := [], hp_initialized := False\<rparr>, pr_default_roots := None\<rparr>)))"

section \<open>Using the objects\<close>

text \<open>
  What a PHP script can do; objects have numbers.  A batch carries a bound on the number of messages it skips, an object that does
  not exist has no methods.  Releasing the last reference of a call frees it.
\<close>

datatype php_op =
    NewChannel nat
  | ConstructChannel nat string "(string \<times> opt_value) list"
  | CloseChannel nat
  | NewCall nat
  | ConstructCall nat nat string timeval
  | SetCredentials nat call_credentials
  | StartBatch nat nat batch
  | CancelCall nat
  | FreeCall nat
  | SetDefaultRootsPem string
  | InvalidateDefaultRootsPem
  | IniSetReadAhead int int

definition on_object :: "nat \<Rightarrow> (nat \<rightharpoonup> 'o) \<Rightarrow> 's \<Rightarrow> ('o \<Rightarrow> 's res) \<Rightarrow> 's res" where
  "on_object i objects s f = (case objects i of None \<Rightarrow> Ok s | Some obj \<Rightarrow> f obj)"

definition put_object :: "nat \<Rightarrow> call_obj option \<Rightarrow> 'ss heap \<Rightarrow> 'ss process \<Rightarrow> 'ss process" where
  "put_object i v h s = s\<lparr>pr_calls := (pr_calls s)(i := v), pr_heap := h\<rparr>"

fun perform :: "(string \<Rightarrow> byte list) \<Rightarrow> ('ss, 'x) client_env \<Rightarrow> php_op \<times> io_world \<Rightarrow> 'ss process \<Rightarrow> 'ss process res" where
  "perform sha E (NewChannel i, w) s =
     Ok (if pr_channels s i = None then s\<lparr>pr_channels := (pr_channels s)(i \<mapsto> grpc_lite_channel_create_object)\<rparr> else s)"
| "perform sha E (ConstructChannel i target opts, w) s =
     on_object i (pr_channels s) s (\<lambda>obj. Ok (s\<lparr>pr_channels := (pr_channels s)(i \<mapsto> snd (Channel_construct sha target opts obj))\<rparr>))"
| "perform sha E (CloseChannel i, w) s =
     on_object i (pr_channels s) s (\<lambda>obj. and_then (Channel_close obj (pr_heap s)) (\<lambda>(e, h). Ok (s\<lparr>pr_heap := h\<rparr>)))"
| "perform sha E (NewCall i, w) s =
     Ok (if pr_calls s i = None then put_object i (Some grpc_lite_call_create_object) (pr_heap s) s else s)"
| "perform sha E (ConstructCall i j method deadline, w) s =
     on_object i (pr_calls s) s (\<lambda>call. on_object j (pr_channels s) s (\<lambda>channel.
       Ok (put_object i (Some (snd (Call_construct channel method deadline call))) (pr_heap s) s)))"
| "perform sha E (SetCredentials i credentials, w) s =
     on_object i (pr_calls s) s (\<lambda>call. Ok (put_object i (Some (snd (Call_setCredentials credentials call))) (pr_heap s) s))"
| "perform sha E (StartBatch i fuel ops, w) s =
     on_object i (pr_calls s) s (\<lambda>call.
       and_then (Call_startBatch (E\<lparr>en_globals := pr_globals s\<rparr>) fuel ops call (pr_heap s) w) (\<lambda>(r, call, h, w). Ok (put_object i (Some call) h s)))"
| "perform sha E (CancelCall i, w) s =
     on_object i (pr_calls s) s (\<lambda>call.
       and_then (Call_cancel (E\<lparr>en_globals := pr_globals s\<rparr>) call (pr_heap s) w) (\<lambda>(e, call, h, w). Ok (put_object i (Some call) h s)))"
| "perform sha E (FreeCall i, w) s =
     on_object i (pr_calls s) s (\<lambda>call.
       and_then (grpc_lite_call_free_object (E\<lparr>en_globals := pr_globals s\<rparr>) call (pr_heap s) w) (\<lambda>(h, w). Ok (put_object i None h s)))"
| "perform sha E (SetDefaultRootsPem pem, w) s = Ok (s\<lparr>pr_default_roots := setDefaultRootsPem pem (pr_default_roots s)\<rparr>)"
| "perform sha E (InvalidateDefaultRootsPem, w) s = Ok (s\<lparr>pr_default_roots := invalidateDefaultRootsPem (pr_default_roots s)\<rparr>)"
| "perform sha E (IniSetReadAhead messages bytes, w) s =
     Ok (s\<lparr>pr_globals := (pr_globals s)\<lparr>server_streaming_read_ahead_max_messages := messages,
                                      server_streaming_read_ahead_max_bytes := bytes\<rparr>\<rparr>)"

text \<open>Touching a freed object crashes the process; an operation that waits for ever makes no step.\<close>

datatype 's running = Running 's | Crashed

inductive machine_step :: "('op \<Rightarrow> 's \<Rightarrow> 's res) \<Rightarrow> 's running \<Rightarrow> 's running \<Rightarrow> bool" for act where
  step_done: "act op s = Ok s' \<Longrightarrow> machine_step act (Running s) (Running s')"
| step_crash: "act op s = Fault \<Longrightarrow> machine_step act (Running s) Crashed"

inductive_cases machine_stepE: "machine_step act st st'"

section \<open>Machines that do not crash\<close>

locale safe_machine =
  fixes act :: "'op \<Rightarrow> 's \<Rightarrow> 's res" and good :: "'s \<Rightarrow> bool"
  assumes act_safe: "good s \<Longrightarrow> safe good (act op s)"
begin

lemma reach_good: "(machine_step act)\<^sup>*\<^sup>* st st' \<Longrightarrow> st = Running s \<Longrightarrow> good s \<Longrightarrow> \<exists>s'. st' = Running s' \<and> good s'"
proof (induction rule: rtranclp_induct)
  case (step y z)
  then obtain t where t: "y = Running t" "good t" by blast
  have "act op t \<noteq> Fault" for op using act_safe [OF t(2), of op] by auto
  with step.hyps(2) show ?case using act_safe [OF t(2)] t(1) by (auto elim!: machine_stepE dest: safe_OkD)
qed simp

end

section \<open>The invariant\<close>

definition holders :: "(nat \<rightharpoonup> call_obj) \<Rightarrow> call_id \<Rightarrow> nat set" where
  "holders objects k = {i. \<exists>call. objects i = Some call \<and> resource_id call = Some k}"

text \<open>Every call of the heap is the stream of exactly one object, and no object has a stream that is gone.\<close>

definition tracked :: "(nat \<rightharpoonup> call_obj) \<Rightarrow> 'ss heap \<Rightarrow> bool" where
  "tracked objects h \<longleftrightarrow> (\<forall>k. if hp_calls h k = None then holders objects k = {} else is_singleton (holders objects k))"

definition process_ok :: "(string \<Rightarrow> byte list) \<Rightarrow> ('ss, 'x) client_env \<Rightarrow> 'ss process \<Rightarrow> bool" where
  "process_ok sha E s \<longleftrightarrow> env_ok E \<and> heap_inv (en_lib E) {} {} (pr_heap s) \<and> tracked (pr_calls s) (pr_heap s)
     \<and> (\<forall>i call. pr_calls s i = Some call \<longrightarrow> call_wf sha call)
     \<and> (\<forall>i channel. pr_channels s i = Some channel \<longrightarrow> ch_initialized channel \<longrightarrow> channel_ready sha channel)"

definition stream_of :: "call_obj option \<Rightarrow> call_id option" where
  "stream_of v = Option.bind v resource_id"

lemma stream_of_simps [simp]: "stream_of None = None" "stream_of (Some call) = resource_id call"
  by (simp_all add: stream_of_def)

lemma holders_upd: "holders (objects(i := v)) k = (if stream_of v = Some k then insert i (holders objects k) else holders objects k - {i})"
  by (cases v) (auto simp: holders_def)

lemma holders_mem: "i \<in> holders objects k \<longleftrightarrow> stream_of (objects i) = Some k"
  by (cases "objects i") (simp_all add: holders_def)

lemma tracked_upd:
  assumes t: "tracked objects h" and r: "rest (stream_of v) h' = rest (stream_of (objects i)) h"
    and live: "\<And>k. stream_of v = Some k \<Longrightarrow> hp_calls h' k \<noteq> None"
  shows "tracked (objects(i := v)) h'"
  unfolding tracked_def
proof
  fix k
  have t: "if hp_calls h k = None then holders objects k = {} else is_singleton (holders objects k)" using t by (simp add: tracked_def)
  have r: "rest (stream_of v) h' k = rest (stream_of (objects i)) h k" using r by simp
  have sole: "holders objects k = {i}" if "stream_of (objects i) = Some k"
    using t that holders_mem [of i objects k] by (auto simp: is_singleton_def split: if_splits)
  show "if hp_calls h' k = None then holders (objects(i := v)) k = {} else is_singleton (holders (objects(i := v)) k)"
  proof (cases "stream_of v = Some k")
    case True
    then have "stream_of (objects i) = Some k \<or> hp_calls h k = None" using r by (auto simp: rest_def split: if_splits)
    then have "insert i (holders objects k) = {i}" using sole t by auto
    then have "is_singleton (holders (objects(i := v)) k)" using True by (simp only: holders_upd if_True is_singletonI simp_thms)
    then show ?thesis using live [OF True] by (simp only: if_False)
  next
    case False
    then have u: "holders (objects(i := v)) k = holders objects k - {i}" by (simp add: holders_upd)
    show ?thesis
    proof (cases "stream_of (objects i) = Some k")
      case True
      then show ?thesis using r sole False u by (simp add: rest_def)
    next
      case other: False
      then have "hp_calls h' k = None \<longleftrightarrow> hp_calls h k = None" using r False by (simp add: rest_def) (metis option.map_disc_iff)
      moreover have "holders (objects(i := v)) k = holders objects k" using u other holders_mem [of i objects k] by simp
      ultimately show ?thesis using t by simp
    qed
  qed
qed

section \<open>Every operation keeps the invariant\<close>

lemma env_ok_globals [simp]: "env_ok (E\<lparr>en_globals := G\<rparr>) = env_ok E" "en_lib (E\<lparr>en_globals := G\<rparr>) = en_lib E"
  by (simp_all add: env_ok_def allocator_ok_def scripts_ok_def)

lemma tracked_live:
  assumes t: "tracked objects h" and i: "objects i = Some call" "resource_id call = Some k"
  shows "hp_calls h k \<noteq> None"
proof -
  have "i \<in> holders objects k" using i by (simp add: holders_mem)
  then show ?thesis using t [unfolded tracked_def, rule_format, of k] by (auto split: if_splits)
qed

lemma object_inv:
  assumes "process_ok sha E s" "pr_calls s i = Some call"
  shows "call_inv sha (en_lib E) call (pr_heap s)"
  using assms tracked_live [of "pr_calls s" "pr_heap s" i call] by (auto simp: process_ok_def call_inv_def)

text \<open>Replacing one call object, or creating or freeing it.\<close>

lemma put_object_ok:
  assumes s: "process_ok sha E s" and inv: "heap_inv (en_lib E) {} {} h'" and wf: "\<And>call. v = Some call \<Longrightarrow> call_wf sha call"
    and r: "rest (stream_of v) h' = rest (stream_of (pr_calls s i)) (pr_heap s)"
    and live: "\<And>k. stream_of v = Some k \<Longrightarrow> hp_calls h' k \<noteq> None"
  shows "process_ok sha E (put_object i v h' s)"
proof -
  have "tracked ((pr_calls s)(i := v)) h'" by (rule tracked_upd [where h = "pr_heap s"]) (use s r live in \<open>simp_all add: process_ok_def\<close>)
  then show ?thesis using s inv wf by (auto simp: process_ok_def put_object_def)
qed

lemma put_moved:
  assumes "process_ok sha E s" "pr_calls s i = Some call" "moved sha (en_lib E) call (pr_heap s) call' h'"
  shows "process_ok sha E (put_object i (Some call') h' s)"
  using assms by (intro put_object_ok) (auto simp: moved_def call_inv_def)

lemma put_local:
  assumes s: "process_ok sha E s" and i: "pr_calls s i = v" and v': "call_wf sha call'" "resource_id call' = stream_of v"
  shows "process_ok sha E (put_object i (Some call') (pr_heap s) s)"
  by (rule put_object_ok [OF s])
     (use s i v' tracked_live [of "pr_calls s" "pr_heap s" i] in \<open>auto simp: process_ok_def stream_of_def bind_eq_Some_conv\<close>)

lemma create_wf: "call_wf sha grpc_lite_call_create_object" "resource_id grpc_lite_call_create_object = None"
  by (simp_all add: call_wf_def resource_id_def grpc_lite_call_create_object_def)

lemma construct_call_wf:
  assumes "call_wf sha call" "ch_initialized channel \<longrightarrow> channel_ready sha channel"
  shows "call_wf sha (snd (Call_construct channel method deadline call))" "resource_id (snd (Call_construct channel method deadline call)) = resource_id call"
  using assms by (auto simp: Call_construct_def call_wf_def resource_id_def split: option.split)

lemma set_credentials_wf:
  assumes "call_wf sha call"
  shows "call_wf sha (snd (Call_setCredentials c call))" "resource_id (snd (Call_setCredentials c call)) = resource_id call"
  using assms by (auto simp: Call_setCredentials_def call_wf_def resource_id_def)

lemma construct_channel_ready:
  assumes "ch_initialized obj \<longrightarrow> channel_ready sha obj" "ch_initialized (snd (Channel_construct sha target opts obj))"
  shows "channel_ready sha (snd (Channel_construct sha target opts obj))"
proof (cases "fst (Channel_construct sha target opts obj)")
  case None
  then show ?thesis using construct_ready [of sha target opts obj] by (metis prod.collapse)
next
  case (Some e)
  then have e: "Channel_construct sha target opts obj = (Some e, snd (Channel_construct sha target opts obj))" by (metis prod.collapse)
  show ?thesis
  proof (cases "ch_initialized obj")
    case True
    then show ?thesis using assms(1) by (simp add: Channel_construct_def)
  next
    case False
    from construct_failed [OF e False] show ?thesis using assms(2) by (simp add: grpc_lite_channel_clear_fields_def)
  qed
qed

lemma on_object_safe: "P s \<Longrightarrow> (\<And>obj. objects i = Some obj \<Longrightarrow> safe P (f obj)) \<Longrightarrow> safe P (on_object i objects s f)"
  by (auto simp: on_object_def split: option.split)

lemma process_ok_heap:
  "process_ok sha E s \<Longrightarrow> heap_inv (en_lib E) {} {} h \<Longrightarrow> hp_calls h = hp_calls (pr_heap s) \<Longrightarrow> process_ok sha E (s\<lparr>pr_heap := h\<rparr>)"
  by (simp add: process_ok_def tracked_def)

lemma close_ok:
  assumes s: "process_ok sha E s"
  shows "safe (process_ok sha E) (and_then (Channel_close obj (pr_heap s)) (\<lambda>(e, h). Ok (s\<lparr>pr_heap := h\<rparr>)))"
proof -
  have "heap_inv (en_lib E) {} {} (pr_heap s)" using s by (simp add: process_ok_def)
  from returns_safe [OF close_safe [OF this]] show ?thesis by (rule safe2) (use process_ok_heap [OF s] in simp)
qed

lemma batch_ok:
  assumes s: "process_ok sha E s" and i: "pr_calls s i = Some call"
  shows "safe (process_ok sha E) (and_then (Call_startBatch (E\<lparr>en_globals := G\<rparr>) fuel ops call (pr_heap s) w) (\<lambda>(r, call, h, w). Ok (put_object i (Some call) h s)))"
proof -
  have "env_ok (E\<lparr>en_globals := G\<rparr>)" "call_inv sha (en_lib (E\<lparr>en_globals := G\<rparr>)) call (pr_heap s)"
    using object_inv [OF assms] s by (simp_all add: process_ok_def)
  from startBatch_safe [OF this] show ?thesis by (rule safe4) (use put_moved [OF assms] in \<open>simp add: batch_done_def\<close>)
qed

lemma cancel_ok:
  assumes s: "process_ok sha E s" and i: "pr_calls s i = Some call"
  shows "safe (process_ok sha E) (and_then (Call_cancel (E\<lparr>en_globals := G\<rparr>) call (pr_heap s) w) (\<lambda>(e, call, h, w). Ok (put_object i (Some call) h s)))"
proof -
  have "env_ok (E\<lparr>en_globals := G\<rparr>)" "call_inv sha (en_lib (E\<lparr>en_globals := G\<rparr>)) call (pr_heap s)"
    using object_inv [OF assms] s by (simp_all add: process_ok_def)
  from call_cancel_safe [OF this] show ?thesis by (rule safe4) (use put_moved [OF assms] in simp)
qed

lemma free_ok:
  assumes s: "process_ok sha E s" and i: "pr_calls s i = Some call"
  shows "safe (process_ok sha E) (and_then (grpc_lite_call_free_object (E\<lparr>en_globals := G\<rparr>) call (pr_heap s) w) (\<lambda>(h, w). Ok (put_object i None h s)))"
proof -
  have "env_ok (E\<lparr>en_globals := G\<rparr>)" "call_inv sha (en_lib (E\<lparr>en_globals := G\<rparr>)) call (pr_heap s)"
    using object_inv [OF assms] s by (simp_all add: process_ok_def)
  from free_safe [OF this] show ?thesis
    by (rule safe2) (use i in \<open>auto intro!: put_object_ok [OF s]\<close>)
qed

lemma perform_safe:
  assumes s: "process_ok sha E s"
  shows "safe (process_ok sha E) (perform sha E op s)"
proof -
  have wf: "pr_calls s i = Some call \<Longrightarrow> call_wf sha call" for i call using s by (simp add: process_ok_def)
  have ch: "pr_channels s i = Some c \<Longrightarrow> ch_initialized c \<longrightarrow> channel_ready sha c" for i c using s by (simp add: process_ok_def)
  have channels: "process_ok sha E (s\<lparr>pr_channels := (pr_channels s)(i \<mapsto> c)\<rparr>)" if "ch_initialized c \<longrightarrow> channel_ready sha c" for i c
    using s that by (simp add: process_ok_def)
  obtain opr w where op: "op = (opr, w)" by fastforce
  show ?thesis unfolding op
  proof (cases opr)
    case (NewChannel i)
    then show "safe (process_ok sha E) (perform sha E (opr, w) s)"
      using s channels [of grpc_lite_channel_create_object i] by (simp add: grpc_lite_channel_create_object_def)
  next
    case (ConstructChannel i target opts)
    have "process_ok sha E (s\<lparr>pr_channels := (pr_channels s)(i \<mapsto> snd (Channel_construct sha target opts obj))\<rparr>)" if "pr_channels s i = Some obj" for obj
      by (rule channels) (use construct_channel_ready [of obj sha target opts] ch [OF that] in blast)
    then show "safe (process_ok sha E) (perform sha E (opr, w) s)" using ConstructChannel s by (auto intro: on_object_safe)
  next
    case (CloseChannel i)
    then show "safe (process_ok sha E) (perform sha E (opr, w) s)" using s close_ok [OF s] by (auto intro: on_object_safe)
  next
    case (NewCall i)
    then show "safe (process_ok sha E) (perform sha E (opr, w) s)" using s put_local [OF s, of i None] create_wf by simp
  next
    case (ConstructCall i j path deadline)
    have "process_ok sha E (put_object i (Some (snd (Call_construct channel path deadline call))) (pr_heap s) s)"
      if i: "pr_calls s i = Some call" and j: "pr_channels s j = Some channel" for call channel
      by (rule put_local [OF s i]) (use construct_call_wf [OF wf [OF i] ch [OF j]] in simp_all)
    then show "safe (process_ok sha E) (perform sha E (opr, w) s)" using ConstructCall s by (auto intro!: on_object_safe)
  next
    case (SetCredentials i c)
    have "process_ok sha E (put_object i (Some (snd (Call_setCredentials c call))) (pr_heap s) s)" if i: "pr_calls s i = Some call" for call
      by (rule put_local [OF s i]) (use set_credentials_wf [OF wf [OF i]] in simp_all)
    then show "safe (process_ok sha E) (perform sha E (opr, w) s)" using SetCredentials s by (auto intro: on_object_safe)
  next
    case (StartBatch i fuel ops)
    then show "safe (process_ok sha E) (perform sha E (opr, w) s)" using s batch_ok [OF s] by (auto intro: on_object_safe)
  next
    case (CancelCall i)
    then show "safe (process_ok sha E) (perform sha E (opr, w) s)" using s cancel_ok [OF s] by (auto intro: on_object_safe)
  next
    case (FreeCall i)
    then show "safe (process_ok sha E) (perform sha E (opr, w) s)" using s free_ok [OF s] by (auto intro: on_object_safe)
  qed (use s in \<open>simp_all add: process_ok_def\<close>)
qed

interpretation php: safe_machine "perform sha E" "process_ok sha E" for sha E
  by unfold_locales (rule perform_safe)

lemma init_ok: "env_ok E \<Longrightarrow> process_ok sha E PHP_GINIT"
  by (simp add: process_ok_def PHP_GINIT_def heap_defs calls_wf_def links_ok_def cache_ok_def kept_alive_def tracked_def holders_def)

section \<open>Shutdown\<close>

lemma destroy_entries_ok:
  assumes "distinct (map (\<lambda>(key, e). pe_connection e) es)" "\<And>key e. (key, e) \<in> set es \<Longrightarrow> hp_conns h (pe_connection e) \<noteq> None"
  shows "\<exists>h'. destroy_entries es h = Ok h' \<and> hp_calls h' = hp_calls h
    \<and> (\<forall>j. hp_conns h' j = (if \<exists>key e. (key, e) \<in> set es \<and> pe_connection e = j then None else hp_conns h j))"
  using assms
proof (induction es arbitrary: h)
  case (Cons entry es)
  obtain key e where e: "entry = (key, e)" by fastforce
  let ?h = "h\<lparr>hp_conns := (hp_conns h)(pe_connection e := None)\<rparr>"
  obtain c where c: "hp_conns h (pe_connection e) = Some c" using Cons.prems(2) [of key e] e by auto
  have run: "destroy_persistent_connection_entry e True h = Ok ?h"
    using c by (simp add: destroy_persistent_connection_entry_def destroy_h2_connection_def on_conn_def)
  have "hp_conns ?h (pe_connection d) \<noteq> None" if d: "(l, d) \<in> set es" for l d
  proof -
    have "pe_connection d \<noteq> pe_connection e" using Cons.prems(1) d e by force
    then show ?thesis using Cons.prems(2) [of l d] d by simp
  qed
  with Cons.IH [of ?h] Cons.prems(1) obtain h' where h': "destroy_entries es ?h = Ok h'" "hp_calls h' = hp_calls h"
    "\<forall>j. hp_conns h' j = (if \<exists>key e. (key, e) \<in> set es \<and> pe_connection e = j then None else hp_conns ?h j)" by auto
  show ?case by (rule exI [of _ h']) (use h' run e in auto)
qed simp

text \<open>Without calls no connection has an owner, so all of them are in the cache.\<close>

lemma shutdown_frees:
  assumes s: "process_ok sha E s" and none: "\<And>i call. pr_calls s i = Some call \<Longrightarrow> resource_id call = None"
  shows "\<exists>s'. PHP_GSHUTDOWN s = Ok s' \<and> hp_conns (pr_heap s') = (\<lambda>_. None) \<and> hp_calls (pr_heap s') = (\<lambda>_. None) \<and> hp_cache (pr_heap s') = []"
proof -
  let ?h = "pr_heap s"
  have inv: "heap_inv (en_lib E) {} {} ?h" and t: "tracked (pr_calls s) ?h" using s by (simp_all add: process_ok_def)
  have ok: "cache_ok ?h" using inv by (simp add: heap_defs)
  have "holders (pr_calls s) k = {}" for k using none by (auto simp: holders_def)
  then have calls: "hp_calls ?h = (\<lambda>_. None)" using t by (auto simp: tracked_def is_singleton_def split: if_splits)
  have all: "hp_conns ?h j = None" if "\<not> cached ?h j" for j
  proof (rule ccontr)
    assume "hp_conns ?h j \<noteq> None"
    then obtain c where c: "hp_conns ?h j = Some c" by blast
    have "owners (hp_calls ?h) j = {}" by (simp add: owners_def calls)
    then have "h2_stream_owner_count c = 0" using heap_inv_conn(2) [OF inv c] by simp
    then show False using kept_aliveD [of "{}" ?h j c] inv c that by (auto simp: heap_inv_def)
  qed
  show ?thesis
  proof (cases "hp_initialized ?h")
    case False
    then have "hp_cache ?h = []" using ok by (simp add: cache_ok_def)
    then show ?thesis using False calls all by (auto simp: PHP_GSHUTDOWN_def cached_def)
  next
    case True
    from destroy_entries_ok [of "hp_cache ?h" ?h] ok obtain h' where h': "destroy_entries (hp_cache ?h) ?h = Ok h'" "hp_calls h' = hp_calls ?h"
      "\<forall>j. hp_conns h' j = (if \<exists>key e. (key, e) \<in> set (hp_cache ?h) \<and> pe_connection e = j then None else hp_conns ?h j)"
      unfolding cache_ok_def by (metis option.distinct(1))
    have "hp_conns h' = (\<lambda>_. None)" using h'(3) all by (auto simp: cached_def)
    then show ?thesis using True h'(1,2) calls by (auto simp: PHP_GSHUTDOWN_def)
  qed
qed

section \<open>An example\<close>

text \<open>A script that constructs a call, cancels it, asks for the status and frees the object.\<close>

definition script_start :: "(int \<Rightarrow> call_id option) process" where
  "script_start = PHP_GINIT"

definition example_ops :: "(php_op \<times> io_world) list" where
  "example_ops =
     [(NewChannel 0, idle_world),
      (ConstructChannel 0 ''h:80'' [(''credentials'', OptCredentials (createInsecure None))], idle_world),
      (NewCall 1, idle_world), (ConstructCall 1 0 ''/s/m'' \<lparr>tv_microseconds = 0\<rparr>, idle_world),
      (CancelCall 1, idle_world), (StartBatch 1 1 status_batch, idle_world), (FreeCall 1, idle_world), (CloseChannel 0, idle_world)]"

fun perform_all :: "(string \<Rightarrow> byte list) \<Rightarrow> ('ss, 'x) client_env \<Rightarrow> (php_op \<times> io_world) list \<Rightarrow> 'ss process \<Rightarrow> 'ss process res" where
  "perform_all sha E [] s = Ok s"
| "perform_all sha E (op # ops) s = and_then (perform sha E op s) (perform_all sha E ops)"

lemma perform_all_reaches:
  "perform_all sha E ops s = Ok s' \<Longrightarrow> (machine_step (perform sha E))\<^sup>*\<^sup>* (Running s) (Running s')"
proof (induction ops arbitrary: s)
  case (Cons op ops)
  then obtain t where "perform sha E op s = Ok t" "perform_all sha E ops t = Ok s'" by (auto simp: Stream_Registry.and_then_Ok)
  then show ?case using Cons.IH [of t] by (meson converse_rtranclp_into_rtranclp step_done)
qed simp

lemma example_run:
  "\<exists>s. perform_all text_bytes idle_env example_ops script_start = Ok s \<and> pr_calls s = (\<lambda>_. None) \<and> pr_channels s 0 = Some (snd plain_channel)"
proof -
  have ch: "Channel_construct text_bytes ''h:80'' [(''credentials'', OptCredentials (createInsecure None))] grpc_lite_channel_create_object = plain_channel"
    by (simp add: plain_channel_def)
  have init: "ch_initialized (snd plain_channel)" "ch_connection_key (snd plain_channel) \<noteq> None" using plain_ready by (simp_all add: channel_ready_def)
  have c: "snd (Call_construct (snd plain_channel) ''/s/m'' \<lparr>tv_microseconds = 0\<rparr> grpc_lite_call_create_object) = idle_call"
    by (simp add: idle_call_def)
  have shape: "cl_initialized idle_call" "\<not> cl_server_streaming_opened idle_call" "cl_server_streaming_resource idle_call = None" by (simp_all add: idle_call_eq grpc_lite_call_create_object_def)
  show ?thesis using init shape
    by (auto simp: example_ops_def script_start_def PHP_GINIT_def on_object_def put_object_def ch c Call_cancel_def Call_startBatch_def
        status_batch_def Let_def grpc_lite_call_free_object_def drop_streaming_resource_def Channel_close_def cache_find_def
        grpc_lite_mark_call_cancelled_def)
qed

end
