(* ===== verification/Trace.thy ===== *)
theory Trace
  imports Call_Object
begin

text \<open>
  The trace file (\<open>src/src/transport.c\<close>, \<open>src/src/wrapper_adapter.c\<close>): one JSON record per line, opt-in by environment
  variables that are read once.  Records describe frames in both directions, transport reads and writes, request headers
  and finished calls.
\<close>

unbundle bit_operations_syntax

section \<open>Configuration\<close>

record trace_cache =
  trace_file_path_cache :: "string option"
  trace_wire_bytes_cache :: bool

definition grpc_lite_trace_cache_init :: "string option \<Rightarrow> string option \<Rightarrow> trace_cache \<Rightarrow> trace_cache" where
  "grpc_lite_trace_cache_init path wire_bytes cache =
     cache\<lparr>trace_file_path_cache :=
             (case path of
                Some p \<Rightarrow> if trace_file_path_cache cache = None \<and> p \<noteq> [] then Some p else trace_file_path_cache cache
              | None \<Rightarrow> trace_file_path_cache cache),
           trace_wire_bytes_cache := (case wire_bytes of None \<Rightarrow> False | Some v \<Rightarrow> v \<noteq> [] \<and> hd v \<noteq> CHR ''0'')\<rparr>"

definition grpc_lite_trace_cache_shutdown :: "trace_cache \<Rightarrow> trace_cache" where
  "grpc_lite_trace_cache_shutdown cache = cache\<lparr>trace_file_path_cache := None, trace_wire_bytes_cache := False\<rparr>"

definition grpc_lite_trace_file_path :: "trace_cache \<Rightarrow> string option" where
  "grpc_lite_trace_file_path cache = trace_file_path_cache cache"

definition grpc_lite_trace_wire_bytes_enabled :: "trace_cache \<Rightarrow> bool" where
  "grpc_lite_trace_wire_bytes_enabled cache \<longleftrightarrow> trace_wire_bytes_cache cache"

text \<open>
  The outside of the tracer: its process number, the readings of the monotonic clock, whether each attempt to
  open the file succeeds; and the file with the number of readings and attempts so far.
\<close>

record trace_env =
  tn_cache :: trace_cache
  tn_pid :: int
  tn_now :: "nat \<Rightarrow> nat"
  tn_open :: "nat \<Rightarrow> bool"

record trace_log =
  tl_opens :: nat
  tl_reads :: nat
  tl_text :: string

definition grpc_lite_trace_open_and_lock :: "trace_env \<Rightarrow> trace_log \<Rightarrow> bool \<times> trace_log" where
  "grpc_lite_trace_open_and_lock E log =
     (case grpc_lite_trace_file_path (tn_cache E) of
        None \<Rightarrow> (False, log)
      | Some path \<Rightarrow> (tn_open E (tl_opens log), log\<lparr>tl_opens := tl_opens log + 1\<rparr>))"

section \<open>Text\<close>

definition json_char :: "char \<Rightarrow> string" where
  "json_char c =
     (if uchar c = 0x5C then [CHR 0x5C, CHR 0x5C]
      else if uchar c = 0x22 then [CHR 0x5C, CHR 0x22]
      else if uchar c = 0x08 then [CHR 0x5C, CHR ''b'']
      else if uchar c = 0x0C then [CHR 0x5C, CHR ''f'']
      else if uchar c = 0x0A then [CHR 0x5C, CHR ''n'']
      else if uchar c = 0x0D then [CHR 0x5C, CHR ''r'']
      else if uchar c = 0x09 then [CHR 0x5C, CHR ''t'']
      else if uchar c < 0x20 then [CHR 0x5C, CHR ''u'', CHR ''0'', CHR ''0'', hex_digit (uchar c div 16), hex_digit (uchar c mod 16)]
      else [c])"

definition grpc_lite_trace_json_string :: "string \<Rightarrow> string" where
  "grpc_lite_trace_json_string s = CHR 0x22 # concat (map json_char s) @ [CHR 0x22]"

definition grpc_lite_trace_hex :: "byte list \<Rightarrow> string" where
  "grpc_lite_trace_hex bytes = CHR 0x22 # hex_bytes bytes @ [CHR 0x22]"

definition grpc_lite_trace_sha256_hex :: "(string \<Rightarrow> byte list) \<Rightarrow> string \<Rightarrow> string" where
  "grpc_lite_trace_sha256_hex sha value = grpc_lite_trace_hex (sha value)"

definition grpc_lite_trace_header_value_is_sensitive :: "string \<Rightarrow> bool" where
  "grpc_lite_trace_header_value_is_sensitive name \<longleftrightarrow>
     name = ''authorization'' \<or> name = ''x-goog-user-project'' \<or> name = ''x-goog-request-params''
     \<or> name = ''google-cloud-resource-prefix''"

definition grpc_lite_h2_frame_type_name :: "nat \<Rightarrow> string" where
  "grpc_lite_h2_frame_type_name type =
     (if type = 0 then ''DATA'' else if type = 1 then ''HEADERS'' else if type = 2 then ''PRIORITY''
      else if type = 3 then ''RST_STREAM'' else if type = 4 then ''SETTINGS'' else if type = 5 then ''PUSH_PROMISE''
      else if type = 6 then ''PING'' else if type = 7 then ''GOAWAY'' else if type = 8 then ''WINDOW_UPDATE''
      else if type = 9 then ''CONTINUATION'' else ''UNKNOWN'')"

definition grpc_lite_h2_setting_name :: "nat \<Rightarrow> string" where
  "grpc_lite_h2_setting_name ident =
     (if ident = 1 then ''HEADER_TABLE_SIZE'' else if ident = 2 then ''ENABLE_PUSH'' else if ident = 3 then ''MAX_CONCURRENT_STREAMS''
      else if ident = 4 then ''INITIAL_WINDOW_SIZE'' else if ident = 5 then ''MAX_FRAME_SIZE''
      else if ident = 6 then ''MAX_HEADER_LIST_SIZE'' else ''UNKNOWN'')"

text \<open>A key with its separating comma.\<close>

definition json_key :: "string \<Rightarrow> string" where
  "json_key k = '','' @ [CHR 0x22] @ k @ [CHR 0x22] @ '':''"

text \<open>What every record begins with, and a whole record.\<close>

definition trace_record :: "trace_env \<Rightarrow> string \<Rightarrow> string \<Rightarrow> trace_log \<Rightarrow> trace_log" where
  "trace_record E event body log =
     log\<lparr>tl_reads := tl_reads log + 1,
         tl_text := tl_text log @ ''{'' @ tl (json_key ''monotonic_us'') @ dec_nat (tn_now E (tl_reads log)) @ json_key ''pid'' @ dec_int (tn_pid E)
           @ json_key ''event'' @ grpc_lite_trace_json_string event @ body @ ''}'' @ [CHR 0x0A]\<rparr>"

section \<open>Frames\<close>

definition grpc_lite_read_be32 :: "byte list \<Rightarrow> u32" where
  "grpc_lite_read_be32 bytes =
     push_bit 24 (ucast (bytes ! 0)) OR push_bit 16 (ucast (bytes ! 1)) OR push_bit 8 (ucast (bytes ! 2)) OR ucast (bytes ! 3)"

definition grpc_lite_read_be16 :: "byte list \<Rightarrow> 16 word" where
  "grpc_lite_read_be16 bytes = push_bit 8 (ucast (bytes ! 0)) OR ucast (bytes ! 1)"

definition frame_length :: "byte list \<Rightarrow> nat" where
  "frame_length data = unat (push_bit 16 (ucast (data ! 0)) OR push_bit 8 (ucast (data ! 1)) OR (ucast (data ! 2)) :: u32)"

definition frame_stream_id :: "byte list \<Rightarrow> int" where
  "frame_stream_id data =
     uint (push_bit 24 (ucast (data ! 5) AND 0x7F) OR push_bit 16 (ucast (data ! 6)) OR push_bit 8 (ucast (data ! 7)) OR ucast (data ! 8) :: u32)"

definition setting_text :: "nat \<Rightarrow> nat \<Rightarrow> string" where
  "setting_text ident value =
     ''{'' @ tl (json_key ''id'') @ dec_nat ident @ json_key ''name'' @ grpc_lite_trace_json_string (grpc_lite_h2_setting_name ident)
     @ json_key ''value'' @ dec_nat value @ ''}''"

fun settings_text :: "(nat \<times> nat) list \<Rightarrow> string" where
  "settings_text [] = []"
| "settings_text [(ident, value)] = setting_text ident value"
| "settings_text ((ident, value) # entries) = setting_text ident value @ '','' @ settings_text entries"

definition grpc_lite_trace_settings_entries_from_payload :: "byte list \<Rightarrow> string" where
  "grpc_lite_trace_settings_entries_from_payload payload =
     (if length payload mod 6 \<noteq> 0 then []
      else json_key ''settings_count'' @ dec_nat (length payload div 6) @ json_key ''settings'' @ ''[''
        @ settings_text (map (\<lambda>i. (unat (grpc_lite_read_be16 (drop (i * 6) payload)), unat (grpc_lite_read_be32 (drop (i * 6 + 2) payload))))
            [0..<length payload div 6]) @ '']'')"

definition grpc_lite_trace_settings_entries_from_frame :: "(nat \<times> nat) list \<Rightarrow> string" where
  "grpc_lite_trace_settings_entries_from_frame settings =
     json_key ''settings_count'' @ dec_nat (length settings) @ json_key ''settings'' @ ''['' @ settings_text settings @ '']''"

text \<open>The method of a call; a stream without call or method adds nothing.\<close>

definition method_text :: "'ss lib \<Rightarrow> 'ss h2_connection \<Rightarrow> call_store \<Rightarrow> int \<Rightarrow> string" where
  "method_text L c calls sid =
     (case Option.bind (Option.bind (grpc_call_from_stream_id L c sid) calls) method_path of
        None \<Rightarrow> []
      | Some path \<Rightarrow> json_key ''rpc_method'' @ grpc_lite_trace_json_string path)"

definition outbound_body :: "'ss lib \<Rightarrow> trace_env \<Rightarrow> 'ss h2_connection \<Rightarrow> call_store \<Rightarrow> byte list \<Rightarrow> string" where
  "outbound_body L E c calls data =
     (let len = length data; frame_len = frame_length data; type = unat (data ! 3); flags = unat (data ! 4); sid = frame_stream_id data
      in json_key ''stream_id'' @ dec_int sid @ json_key ''frame_type'' @ grpc_lite_trace_json_string (grpc_lite_h2_frame_type_name type)
         @ json_key ''frame_type_id'' @ dec_nat type @ json_key ''flags'' @ dec_nat flags
         @ json_key ''frame_payload_len'' @ dec_nat frame_len @ json_key ''chunk_len'' @ dec_nat len
         @ (if 0 < sid then method_text L c calls sid else [])
         @ (if type = 4 \<and> 9 + frame_len \<le> len then grpc_lite_trace_settings_entries_from_payload (take frame_len (drop 9 data))
            else if type = 8 \<and> 13 \<le> len \<and> frame_len = 4
              then json_key ''window_size_increment'' @ dec_nat (unat (grpc_lite_read_be32 (drop 9 data) AND 0x7FFFFFFF))
            else if type = 3 \<and> 13 \<le> len \<and> frame_len = 4 then json_key ''error_code'' @ dec_nat (unat (grpc_lite_read_be32 (drop 9 data)))
            else [])
         @ (if type = 1 then json_key ''header_block_len'' @ dec_nat frame_len
            else if grpc_lite_trace_wire_bytes_enabled (tn_cache E) \<and> (type = 4 \<or> type = 8 \<or> type = 6 \<or> type = 7) \<and> 9 + frame_len \<le> len
              then json_key ''payload_hex'' @ grpc_lite_trace_hex (take frame_len (drop 9 data))
            else []))"

definition grpc_lite_trace_outbound_frame_record ::
    "'ss lib \<Rightarrow> trace_env \<Rightarrow> 'ss h2_connection \<Rightarrow> call_store \<Rightarrow> byte list \<Rightarrow> trace_log \<Rightarrow> trace_log" where
  "grpc_lite_trace_outbound_frame_record L E c calls data log =
     (if grpc_lite_trace_file_path (tn_cache E) = None \<or> length data < 9 then log
      else case grpc_lite_trace_open_and_lock E log of
        (False, log) \<Rightarrow> log
      | (True, log) \<Rightarrow> trace_record E ''wire.frame_out'' (outbound_body L E c calls data) log)"

definition connection_preface :: "byte list" where
  "connection_preface = text_bytes (''PRI * HTTP/2.0'' @ [CHR 0x0D, CHR 0x0A, CHR 0x0D, CHR 0x0A] @ ''SM'' @ [CHR 0x0D, CHR 0x0A, CHR 0x0D, CHR 0x0A])"

text \<open>The frames of a chunk one after the other; the result has the bytes that are left.\<close>

function trace_frames ::
    "'ss lib \<Rightarrow> trace_env \<Rightarrow> 'ss h2_connection \<Rightarrow> call_store \<Rightarrow> byte list \<Rightarrow> trace_log \<Rightarrow> byte list \<times> trace_log" where
  "trace_frames L E c calls data log =
     (if length data < 9 \<or> length data < frame_length data + 9 then (data, log)
      else trace_frames L E c calls (drop (frame_length data + 9) data)
             (grpc_lite_trace_outbound_frame_record L E c calls (take (frame_length data + 9) data) log))"
  by pat_completeness auto
termination
  by (relation "measure (\<lambda>(L, E, c, calls, data, log). length data)") auto

declare trace_frames.simps [simp del]

definition trace_chunk_frames ::
    "'ss lib \<Rightarrow> trace_env \<Rightarrow> 'ss h2_connection \<Rightarrow> call_store \<Rightarrow> nat \<Rightarrow> byte list \<Rightarrow> trace_log \<Rightarrow> trace_log" where
  "trace_chunk_frames L E c calls len data log =
     (case trace_frames L E c calls data log of
        ([], log) \<Rightarrow> log
      | (left, log) \<Rightarrow>
          (case grpc_lite_trace_open_and_lock E log of
             (False, log) \<Rightarrow> log
           | (True, log) \<Rightarrow>
               trace_record E ''wire.chunk_unparsed''
                 (json_key ''chunk_len'' @ dec_nat len @ json_key ''offset'' @ dec_nat (len - length left)
                  @ json_key ''remaining_len'' @ dec_nat (length left)) log))"

definition grpc_lite_trace_outbound_frame ::
    "'ss lib \<Rightarrow> trace_env \<Rightarrow> 'ss h2_connection \<Rightarrow> call_store \<Rightarrow> byte list \<Rightarrow> trace_log \<Rightarrow> trace_log" where
  "grpc_lite_trace_outbound_frame L E c calls data log =
     (if grpc_lite_trace_file_path (tn_cache E) = None then log
      else if 24 \<le> length data \<and> take 24 data = connection_preface then
        (case grpc_lite_trace_open_and_lock E log of
           (False, log) \<Rightarrow> log
         | (True, log) \<Rightarrow>
             trace_chunk_frames L E c calls (length data) (drop 24 data)
               (trace_record E ''wire.connection_preface'' (json_key ''chunk_len'' @ ''24'') log))
      else trace_chunk_frames L E c calls (length data) data log)"

text \<open>A frame as nghttp2 reports it; the fields of its union are read only for the type they belong to.\<close>

record inbound_frame =
  if_stream_id :: int
  if_type :: nat
  if_flags :: nat
  if_length :: nat
  if_settings :: "(nat \<times> nat) list"
  if_window_size_increment :: int
  if_last_stream_id :: int
  if_error_code :: nat

definition grpc_lite_trace_inbound_frame ::
    "'ss lib \<Rightarrow> trace_env \<Rightarrow> 'ss h2_connection \<Rightarrow> call_store \<Rightarrow> inbound_frame \<Rightarrow> trace_log \<Rightarrow> trace_log" where
  "grpc_lite_trace_inbound_frame L E c calls frame log =
     (if grpc_lite_trace_file_path (tn_cache E) = None then log
      else case grpc_lite_trace_open_and_lock E log of
        (False, log) \<Rightarrow> log
      | (True, log) \<Rightarrow>
          trace_record E ''wire.frame_in''
            (json_key ''stream_id'' @ dec_int (if_stream_id frame) @ json_key ''frame_type''
             @ grpc_lite_trace_json_string (grpc_lite_h2_frame_type_name (if_type frame)) @ json_key ''frame_type_id'' @ dec_nat (if_type frame)
             @ json_key ''flags'' @ dec_nat (if_flags frame) @ json_key ''frame_payload_len'' @ dec_nat (if_length frame)
             @ method_text L c calls (if_stream_id frame)
             @ (if if_type frame = 4 then grpc_lite_trace_settings_entries_from_frame (if_settings frame)
                else if if_type frame = 8 then json_key ''window_size_increment'' @ dec_int (if_window_size_increment frame)
                else if if_type frame = 7 then json_key ''last_stream_id'' @ dec_int (if_last_stream_id frame) @ json_key ''error_code'' @ dec_nat (if_error_code frame)
                else if if_type frame = 3 then json_key ''error_code'' @ dec_nat (if_error_code frame)
                else [])) log)"

section \<open>Transport and headers\<close>

definition grpc_lite_trace_transport_io ::
    "trace_env \<Rightarrow> 'ss h2_connection \<Rightarrow> call_store \<Rightarrow> string \<Rightarrow> nat \<Rightarrow> int \<Rightarrow> int \<Rightarrow> int \<Rightarrow> trace_log \<Rightarrow> trace_log" where
  "grpc_lite_trace_transport_io E c calls event requested_len result_len ssl_error saved_errno log =
     (if grpc_lite_trace_file_path (tn_cache E) = None then log
      else case grpc_lite_trace_open_and_lock E log of
        (False, log) \<Rightarrow> log
      | (True, log) \<Rightarrow>
          trace_record E event
            (json_key ''requested_len'' @ dec_nat requested_len @ json_key ''result_len'' @ dec_int result_len
             @ (if ssl_error \<noteq> 0 then json_key ''ssl_error'' @ dec_int ssl_error else [])
             @ (if saved_errno \<noteq> 0 then json_key ''errno'' @ dec_int saved_errno else [])
             @ (case Option.bind (h2_current_io_call c) calls of
                  None \<Rightarrow> []
                | Some call \<Rightarrow>
                    (case method_path call of
                       None \<Rightarrow> []
                     | Some path \<Rightarrow> json_key ''rpc_method'' @ grpc_lite_trace_json_string path @ json_key ''stream_id'' @ dec_int (stream_id call)))) log)"

text \<open>The record \<open>destroy_h2_connection\<close> writes before it releases anything.\<close>

definition trace_connection_destroy :: "trace_env \<Rightarrow> 'ss h2_connection \<Rightarrow> trace_log \<Rightarrow> trace_log" where
  "trace_connection_destroy E c log =
     (if grpc_lite_trace_file_path (tn_cache E) = None then log
      else case grpc_lite_trace_open_and_lock E log of
        (False, log) \<Rightarrow> log
      | (True, log) \<Rightarrow>
          trace_record E ''transport.connection_destroy''
            (json_key ''fd'' @ dec_int (h2_fd c) @ json_key ''dead'' @ (if h2_dead c then ''true'' else ''false'')) log)"

text \<open>A header is its name, its value and its flags.\<close>

definition header_body :: "(string \<Rightarrow> byte list) \<Rightarrow> grpc_call \<Rightarrow> nat \<Rightarrow> string \<times> string \<times> nat \<Rightarrow> string" where
  "header_body sha call index header =
     (case header of (name, value, flags) \<Rightarrow>
        json_key ''stream_id'' @ dec_int (stream_id call) @ json_key ''rpc_method'' @ grpc_lite_trace_json_string (opt_text (method_path call))
        @ json_key ''index'' @ dec_nat index @ json_key ''name'' @ grpc_lite_trace_json_string name
        @ json_key ''value_len'' @ dec_nat (length value) @ json_key ''flags'' @ dec_nat flags
        @ json_key ''sensitive'' @ (if grpc_lite_trace_header_value_is_sensitive name then ''true'' else ''false'')
        @ (if grpc_lite_trace_header_value_is_sensitive name then json_key ''value_sha256'' @ grpc_lite_trace_sha256_hex sha value
           else json_key ''value'' @ grpc_lite_trace_json_string value))"

fun trace_headers :: "(string \<Rightarrow> byte list) \<Rightarrow> trace_env \<Rightarrow> grpc_call \<Rightarrow> nat \<Rightarrow> (string \<times> string \<times> nat) list \<Rightarrow> trace_log \<Rightarrow> trace_log" where
  "trace_headers sha E call i [] log = log"
| "trace_headers sha E call i (header # headers) log =
     trace_headers sha E call (Suc i) headers (trace_record E ''wire.request_header'' (header_body sha call i header) log)"

definition grpc_lite_trace_request_headers ::
    "(string \<Rightarrow> byte list) \<Rightarrow> trace_env \<Rightarrow> grpc_call \<Rightarrow> (string \<times> string \<times> nat) list \<Rightarrow> trace_log \<Rightarrow> trace_log" where
  "grpc_lite_trace_request_headers sha E call headers log =
     (if method_path call = None \<or> grpc_lite_trace_file_path (tn_cache E) = None then log
      else case grpc_lite_trace_open_and_lock E log of
        (False, log) \<Rightarrow> log
      | (True, log) \<Rightarrow> trace_headers sha E call 0 headers log)"

section \<open>Calls\<close>

text \<open>The clock is read before the file is opened.  \<open>started\<close> is the time the call was first used, 0 if it was not traced.\<close>

definition grpc_lite_trace_record_call ::
    "trace_env \<Rightarrow> call_obj \<Rightarrow> nat \<Rightarrow> string \<Rightarrow> string \<Rightarrow> int \<Rightarrow> nat \<Rightarrow> nat \<Rightarrow> int \<Rightarrow> trace_log \<Rightarrow> trace_log" where
  "grpc_lite_trace_record_call E call started event kind status_code request_len response_len persistent_reused log =
     (case (grpc_lite_trace_file_path (tn_cache E), cl_method call) of
        (Some path, Some m) \<Rightarrow>
          (let now = tn_now E (tl_reads log);
               elapsed = (if 0 < started \<and> started \<le> now then now - started else 0);
               log = log\<lparr>tl_reads := tl_reads log + 1, tl_opens := tl_opens log + 1\<rparr>
           in if \<not> tn_open E (tl_opens log - 1) then log
              else log\<lparr>tl_text := tl_text log @ ''{'' @ tl (json_key ''monotonic_us'') @ dec_nat now @ json_key ''pid'' @ dec_int (tn_pid E)
                @ json_key ''event'' @ [CHR 0x22] @ event @ [CHR 0x22] @ json_key ''transport_impl'' @ [CHR 0x22] @ ''grpc-lite'' @ [CHR 0x22]
                @ json_key ''rpc_kind'' @ [CHR 0x22] @ kind @ [CHR 0x22] @ json_key ''rpc_method'' @ [CHR 0x22] @ c_str m @ [CHR 0x22]
                @ json_key ''elapsed_us'' @ dec_nat elapsed @ json_key ''status_code'' @ dec_int status_code
                @ json_key ''request_bytes'' @ dec_nat request_len @ json_key ''response_bytes'' @ dec_nat response_len
                @ json_key ''persistent_reused''
                @ (if persistent_reused < 0 then ''null'' else if persistent_reused \<noteq> 0 then ''true'' else ''false'') @ ''}'' @ [CHR 0x0A]\<rparr>)
      | _ \<Rightarrow> log)"

section \<open>Reading a string back\<close>

text \<open>The value of an escape letter and of a hexadecimal digit, and a reader for the inside of a JSON string.\<close>

definition unescaped :: "char \<Rightarrow> char" where
  "unescaped c =
     (if c = CHR ''b'' then CHR 0x08 else if c = CHR ''f'' then CHR 0x0C else if c = CHR ''n'' then CHR 0x0A
      else if c = CHR ''r'' then CHR 0x0D else if c = CHR ''t'' then CHR 0x09 else c)"

definition hex_value :: "char \<Rightarrow> nat" where
  "hex_value c = (if uchar c \<le> 57 then uchar c - 48 else uchar c - 87)"

fun json_read :: "string \<Rightarrow> (string \<times> string) option" where
  "json_read [] = None"
| "json_read (c # cs) =
     (if c = CHR 0x22 then Some ([], cs)
      else if c = CHR 0x5C then
        (case cs of
           [] \<Rightarrow> None
         | e # r \<Rightarrow>
             if e = CHR ''u'' then
               (case r of
                  a # b # x # y # r \<Rightarrow> map_option (\<lambda>(s, r). (char_of (16 * hex_value x + hex_value y) # s, r)) (json_read r)
                | _ \<Rightarrow> None)
             else map_option (\<lambda>(s, r). (unescaped e # s, r)) (json_read r))
      else map_option (\<lambda>(s, r). (c # s, r)) (json_read cs))"

lemma hex_value_digit: "n < 16 \<Longrightarrow> hex_value (hex_digit n) = n"
proof -
  have "\<forall>n < 16. hex_value (hex_digit n) = n" unfolding hex_digit_def hex_value_def by code_simp
  then show "n < 16 \<Longrightarrow> hex_value (hex_digit n) = n" by blast
qed

lemma json_read_char: "json_read (json_char c @ r) = map_option (\<lambda>(s, r). (c # s, r)) (json_read r)"
proof (cases "uchar c = 0x5C \<or> uchar c = 0x22 \<or> uchar c = 0x08 \<or> uchar c = 0x0C \<or> uchar c = 0x0A \<or> uchar c = 0x0D \<or> uchar c = 0x09")
  case True
  then have "c \<in> {CHR 0x5C, CHR 0x22, CHR 0x08, CHR 0x0C, CHR 0x0A, CHR 0x0D, CHR 0x09}" by (auto simp: char_uchar_iff)
  then show ?thesis by (auto simp: json_char_def unescaped_def)
next
  case False
  then have n: "c \<noteq> CHR 0x5C" "c \<noteq> CHR 0x22" by (auto simp: char_uchar_iff)
  show ?thesis
  proof (cases "uchar c < 0x20")
    case True
    have "16 * hex_value (hex_digit (uchar c div 16)) + hex_value (hex_digit (uchar c mod 16)) = uchar c"
      using True by (simp add: hex_value_digit)
    then show ?thesis using True False by (simp add: json_char_def)
  next
    case big: False
    then show ?thesis using False n by (simp add: json_char_def)
  qed
qed

lemma json_string_read: "json_read (tl (grpc_lite_trace_json_string s) @ r) = Some (s, r)"
proof -
  have "json_read (concat (map json_char s) @ CHR 0x22 # r) = Some (s, r)"
    by (induction s) (simp_all add: json_read_char del: json_read.simps(2), simp)
  then show ?thesis by (simp add: grpc_lite_trace_json_string_def)
qed

section \<open>Lines\<close>

definition printable :: "string \<Rightarrow> bool" where
  "printable s \<longleftrightarrow> list_all (\<lambda>c. 32 \<le> uchar c) s"

lemma printable_simps [simp]:
  "printable []" "printable (c # s) \<longleftrightarrow> 32 \<le> uchar c \<and> printable s" "printable (s @ t) \<longleftrightarrow> printable s \<and> printable t"
  by (simp_all add: printable_def)

lemma printable_digits: "list_all is_digit s \<Longrightarrow> printable s"
  by (auto simp: printable_def is_digit_def elim!: list.pred_mono_strong)

lemma printable_json_key: "printable k \<Longrightarrow> printable (json_key k)"
  by (simp add: json_key_def)

lemma printable_numbers [simp]: "printable (dec_nat n)" "printable (dec_int i)"
  using printable_digits [OF dec_nat_digits] by (simp_all add: dec_int_def)

lemma hex_digit_printable: "n < 16 \<Longrightarrow> 32 \<le> uchar (hex_digit n)"
proof -
  have "\<forall>n < 16. 32 \<le> uchar (hex_digit n)" unfolding hex_digit_def by code_simp
  then show "n < 16 \<Longrightarrow> 32 \<le> uchar (hex_digit n)" by blast
qed

lemma printable_hex [simp]: "printable (grpc_lite_trace_hex bs)"
proof -
  have "printable (hex_bytes bs)"
  proof (induction bs)
    case (Cons b bs)
    have "unat b < 256" by (rule unat_byte)
    then show ?case using Cons hex_digit_printable by simp
  qed simp
  then show ?thesis by (simp add: grpc_lite_trace_hex_def)
qed

lemma printable_json [simp]: "printable (grpc_lite_trace_json_string s)"
proof -
  have "printable (json_char c)" for c using hex_digit_printable by (simp add: json_char_def)
  then have "printable (concat (map json_char s))" by (induction s) simp_all
  then show ?thesis by (simp add: grpc_lite_trace_json_string_def)
qed

lemma printable_header: "printable (header_body sha call i header)"
  by (cases header) (simp add: header_body_def json_key_def grpc_lite_trace_sha256_hex_def)

text \<open>Whole lines, none of them with a line break or another control character inside.\<close>

definition whole_lines :: "nat \<Rightarrow> string \<Rightarrow> string \<Rightarrow> bool" where
  "whole_lines n old new \<longleftrightarrow> (\<exists>ls. new = old @ concat (map (\<lambda>l. l @ [CHR 0x0A]) ls) \<and> length ls = n \<and> list_all printable ls)"

lemma whole_lines_0: "whole_lines 0 old old"
  by (simp add: whole_lines_def)

lemma record_line: "printable body \<Longrightarrow> whole_lines 1 (tl_text log) (tl_text (trace_record E event body log))"
  unfolding whole_lines_def trace_record_def
  by (rule exI [of _ "[''{'' @ tl (json_key ''monotonic_us'') @ dec_nat (tn_now E (tl_reads log)) @ json_key ''pid'' @ dec_int (tn_pid E)
           @ json_key ''event'' @ grpc_lite_trace_json_string event @ body @ ''}'']"])
     (simp add: json_key_def)

lemma whole_lines_trans: "whole_lines m a b \<Longrightarrow> whole_lines n b c \<Longrightarrow> whole_lines (m + n) a c"
  unfolding whole_lines_def by (elim exE conjE, rule_tac x = "ls @ lsa" in exI) simp

lemma trace_headers_lines: "whole_lines (length headers) (tl_text log) (tl_text (trace_headers sha E call i headers log))"
proof (induction headers arbitrary: i log)
  case (Cons header headers)
  have "whole_lines 1 (tl_text log) (tl_text (trace_record E ''wire.request_header'' (header_body sha call i header) log))"
    by (rule record_line) (rule printable_header)
  from whole_lines_trans [OF this Cons.IH] show ?case by simp
qed (simp add: whole_lines_0)

section \<open>What a reader of the trace learns\<close>

text \<open>Two headers that differ at most in a sensitive value, with values of the same length and digest.\<close>

definition same_public_header :: "(string \<Rightarrow> byte list) \<Rightarrow> string \<times> string \<times> nat \<Rightarrow> string \<times> string \<times> nat \<Rightarrow> bool" where
  "same_public_header sha a b \<longleftrightarrow>
     (case (a, b) of ((name, value, flags), (name', value', flags')) \<Rightarrow>
        name = name' \<and> flags = flags'
        \<and> (if grpc_lite_trace_header_value_is_sensitive name then length value = length value' \<and> sha value = sha value' else value = value'))"

lemma header_body_public: "same_public_header sha a b \<Longrightarrow> header_body sha call i a = header_body sha call i b"
  by (auto simp: same_public_header_def header_body_def grpc_lite_trace_sha256_hex_def split: prod.splits if_splits)

lemma trace_headers_public:
  "list_all2 (same_public_header sha) hs hs' \<Longrightarrow> trace_headers sha E call i hs log = trace_headers sha E call i hs' log"
  by (induction hs hs' arbitrary: i log rule: list_all2_induct) (simp_all add: header_body_public)

text \<open>A frame: nine bytes of header, then as many bytes as the header says.\<close>

definition frame_wf :: "byte list \<Rightarrow> bool" where
  "frame_wf f \<longleftrightarrow> 9 \<le> length f \<and> length f = frame_length f + 9"

text \<open>
  Two frames of a type HTTP/2 defines with the same header, that differ at most in the payload of a DATA, HEADERS or
  CONTINUATION frame.
\<close>

definition same_public_frame :: "byte list \<Rightarrow> byte list \<Rightarrow> bool" where
  "same_public_frame f g \<longleftrightarrow> frame_wf f \<and> unat (f ! 3) \<le> 9 \<and> length g = length f \<and> take 9 g = take 9 f \<and> (unat (f ! 3) \<notin> {0, 1, 9} \<longrightarrow> g = f)"

lemma header_bytes:
  assumes "take 9 g = take 9 f" "9 \<le> length f" "length g = length f"
  shows "frame_length g = frame_length f" "frame_stream_id g = frame_stream_id f" "g ! 3 = f ! 3" "g ! 4 = f ! 4"
proof -
  have "g ! i = f ! i" if "i < 9" for i using assms that by (metis nth_take)
  then show "frame_length g = frame_length f" "frame_stream_id g = frame_stream_id f" "g ! 3 = f ! 3" "g ! 4 = f ! 4"
    by (simp_all add: frame_length_def frame_stream_id_def)
qed

lemma outbound_body_public: "same_public_frame f g \<Longrightarrow> outbound_body L E c calls g = outbound_body L E c calls f"
proof -
  assume s: "same_public_frame f g"
  show ?thesis
  proof (cases "unat (f ! 3) \<in> {0, 1, 9}")
    case True
    have "frame_length g = frame_length f" "frame_stream_id g = frame_stream_id f" "g ! 3 = f ! 3" "g ! 4 = f ! 4" "length g = length f"
      using s header_bytes [of g f] by (simp_all add: same_public_frame_def frame_wf_def)
    then show ?thesis using True unfolding outbound_body_def Let_def by auto
  next
    case False
    then show ?thesis using s by (simp add: same_public_frame_def)
  qed
qed

lemma frame_record_public:
  "same_public_frame f g \<Longrightarrow> grpc_lite_trace_outbound_frame_record L E c calls g log = grpc_lite_trace_outbound_frame_record L E c calls f log"
  unfolding grpc_lite_trace_outbound_frame_record_def by (subst outbound_body_public, assumption) (simp add: same_public_frame_def)

text \<open>A chunk of whole frames is traced frame by frame, with nothing left.\<close>

lemma trace_frames_concat:
  "list_all frame_wf fs \<Longrightarrow> trace_frames L E c calls (concat fs) log = ([], fold (grpc_lite_trace_outbound_frame_record L E c calls) fs log)"
proof (induction fs arbitrary: log)
  case Nil
  then show ?case by (simp add: trace_frames.simps)
next
  case (Cons f fs)
  then have f: "9 \<le> length f" "length f = frame_length f + 9" by (simp_all add: frame_wf_def)
  then have l: "frame_length (f @ concat fs) = frame_length f" by (simp add: frame_length_def nth_append)
  have "trace_frames L E c calls (concat (f # fs)) log =
      trace_frames L E c calls (concat fs) (grpc_lite_trace_outbound_frame_record L E c calls f log)"
    by (subst trace_frames.simps) (use f l in simp)
  then show ?case using Cons by simp
qed

lemma frame_wf_public: "same_public_frame f g \<Longrightarrow> frame_wf f \<and> frame_wf g"
  using header_bytes [of g f] by (simp add: same_public_frame_def frame_wf_def)

lemma chunk_public:
  assumes "list_all2 same_public_frame fs gs"
  shows "trace_chunk_frames L E c calls n (concat gs) log = trace_chunk_frames L E c calls n (concat fs) log"
proof -
  have wf: "list_all frame_wf fs" "list_all frame_wf gs" using assms
    by (induction rule: list_all2_induct) (use frame_wf_public in auto)
  have "fold (grpc_lite_trace_outbound_frame_record L E c calls) gs log = fold (grpc_lite_trace_outbound_frame_record L E c calls) fs log"
    using assms by (induction arbitrary: log rule: list_all2_induct) (simp_all add: frame_record_public)
  then show ?thesis using wf by (simp add: trace_chunk_frames_def trace_frames_concat)
qed

text \<open>The fourth byte of the connection preface is not the type of a frame.\<close>

lemma preface_byte: "take 24 (f @ r) = connection_preface \<Longrightarrow> 9 \<le> length f \<Longrightarrow> f ! 3 = 32"
proof -
  assume p: "take 24 (f @ r) = connection_preface" and n: "9 \<le> length f"
  have "take 24 (f @ r) ! 3 = f ! 3" using n by (simp add: nth_append)
  then show ?thesis using p by (simp add: connection_preface_def text_bytes_def)
qed

lemma no_preface:
  assumes "list_all frame_wf fs" "list_all (\<lambda>f. unat (f ! 3) \<le> 9) fs"
  shows "take 24 (concat fs) \<noteq> connection_preface"
proof (cases fs)
  case Nil
  then show ?thesis by (simp add: connection_preface_def text_bytes_def)
next
  case (Cons f fs')
  have "f ! 3 \<noteq> 32" using assms Cons by auto
  then show ?thesis using preface_byte [of f "concat fs'"] assms Cons by (auto simp: frame_wf_def)
qed

lemma preface_public:
  assumes "list_all2 same_public_frame fs gs"
  shows "length (concat gs) = length (concat fs)" "take 24 (concat fs) \<noteq> connection_preface" "take 24 (concat gs) \<noteq> connection_preface"
proof -
  show "length (concat gs) = length (concat fs)" using assms by (induction rule: list_all2_induct) (simp_all add: same_public_frame_def)
  have step: "unat (f ! 3) \<le> 9 \<and> unat (g ! 3) \<le> 9" if "same_public_frame f g" for f g
    using that header_bytes(3) [of g f] by (simp add: same_public_frame_def frame_wf_def)
  have "list_all frame_wf fs \<and> list_all frame_wf gs" "list_all (\<lambda>f. unat (f ! 3) \<le> 9) fs \<and> list_all (\<lambda>f. unat (f ! 3) \<le> 9) gs"
    using assms by (induction rule: list_all2_induct) (simp_all add: frame_wf_public step)
  then show "take 24 (concat fs) \<noteq> connection_preface" "take 24 (concat gs) \<noteq> connection_preface"
    using no_preface [of fs] no_preface [of gs] by simp_all
qed

section \<open>Properties\<close>


definition example_log :: trace_log where
  "example_log = \<lparr>tl_opens = 0, tl_reads = 0, tl_text = []\<rparr>"

definition example_trace :: trace_env where
  "example_trace = \<lparr>tn_cache = \<lparr>trace_file_path_cache = Some ''t'', trace_wire_bytes_cache = True\<rparr>, tn_pid = 7, tn_now = (\<lambda>_. 5), tn_open = (\<lambda>_. True)\<rparr>"


text \<open>The record of a finished call writes its method as it is: a quotation mark, which is valid in a path, ends the string early.\<close>

lemma call_record_not_escaped:
  "validate_grpc_path (''/s/m'' @ [CHR 0x22]) = None
   \<and> json_read (tl (grpc_lite_trace_json_string (''/s/m'' @ [CHR 0x22]))) = Some (''/s/m'' @ [CHR 0x22], [])
   \<and> (\<exists>before after. tl_text (grpc_lite_trace_record_call example_trace (grpc_lite_call_create_object\<lparr>cl_method := Some (''/s/m'' @ [CHR 0x22])\<rparr>)
          0 ''rpc.end'' ''unary'' 0 0 0 0 example_log)
        = before @ json_key ''rpc_method'' @ [CHR 0x22] @ after \<and> (\<exists>r. json_read after = Some (''/s/m'', r)))"
proof (intro conjI)
  show "validate_grpc_path (''/s/m'' @ [CHR 0x22]) = None" by (simp add: validate_grpc_path_def)
  show "json_read (tl (grpc_lite_trace_json_string (''/s/m'' @ [CHR 0x22]))) = Some (''/s/m'' @ [CHR 0x22], [])"
    using json_string_read [of _ "[]"] by simp
  show "\<exists>before after. tl_text (grpc_lite_trace_record_call example_trace (grpc_lite_call_create_object\<lparr>cl_method := Some (''/s/m'' @ [CHR 0x22])\<rparr>)
          0 ''rpc.end'' ''unary'' 0 0 0 0 example_log)
        = before @ json_key ''rpc_method'' @ [CHR 0x22] @ after \<and> (\<exists>r. json_read after = Some (''/s/m'', r))"
    by (rule exI [of _ "''{'' @ tl (json_key ''monotonic_us'') @ dec_nat 5 @ json_key ''pid'' @ dec_int 7
             @ json_key ''event'' @ [CHR 0x22] @ ''rpc.end'' @ [CHR 0x22] @ json_key ''transport_impl'' @ [CHR 0x22] @ ''grpc-lite'' @ [CHR 0x22]
             @ json_key ''rpc_kind'' @ [CHR 0x22] @ ''unary'' @ [CHR 0x22]"])
       (simp add: grpc_lite_trace_record_call_def example_trace_def example_log_def grpc_lite_trace_file_path_def Let_def c_str_def)
qed

end
