(* ===== verification/Spec2Isabelle.thy ===== *)
theory Spec2Isabelle
  imports Protocol_Core Transport_Core Status_Core Read_Ahead Exchange_Events Request_Headers Response_Metadata Wire_Send
    Stream_Registry Session_Driver Connection_Setup Connection_Cache Connection_Ownership Connection_Preflight Call_Driver
    Unary_Call Server_Streaming_Call Surface Call_Object Wrapper_Adapter Call_Safety Client Trace
begin

text \<open>
  A verification library of php-grpc-lite, a gRPC client for PHP written as a C extension over nghttp2 and
  OpenSSL (\<open>src/grpc.c\<close>, \<open>src/src/*.c\<close>).

  \<^bold>\<open>The program.\<close>  A PHP call builds a request header block, obtains a persistent HTTP/2 connection from a
  process-wide cache (opening TCP and TLS when there is none, checking an idle one before it is reused),
  submits the request to the nghttp2 session, and drives the session: bytes read from the socket are fed to
  nghttp2, which calls back with headers, DATA chunks, RST_STREAM, GOAWAY and stream-close events; frames
  nghttp2 wants to send are coalesced and written under a deadline.  The callbacks update the call
  (\<open>grpc_call\<close>), whose final fields are mapped to a gRPC status.  Several calls can share a connection, so
  one call that drives the session delivers events of the others.

  \<^bold>\<open>The theories,\<close> in the order of the imports.

  \<^item> \<open>Prelude\<close>: generic lemmas on bytes, numbers as text, options and lists.
  \<^item> \<open>Protocol_Core\<close> (\<open>protocol_core.c\<close> and the \<open>grpc-message\<close> decoder): the status, content-type and timeout
    texts of the protocol and percent-decoding.  C1 to C3.
  \<^item> \<open>Transport_Core\<close> (\<open>transport_core.c\<close>): limits and HTTP/2 settings derived from the configuration at
    their C width, validation of paths and channel inputs, the authority buffer.  C4 to C7.
  \<^item> \<open>Exchange_State\<close> (\<open>grpc_exchange_state.h\<close>, \<open>transport.h\<close>, \<open>grpc_result.h\<close>): the records \<open>grpc_call\<close> and
    \<open>h2_connection\<close>, the nghttp2 parameter \<open>'ss lib\<close>, and the connection flags (dead, draining, usable).
  \<^item> \<open>Status_Core\<close> (\<open>status_core.c\<close> and the details texts): from a finished call to a status and to the
    decision whether the attempt may be repeated.  C8, C10.
  \<^item> \<open>Response_Parser\<close>: the length-prefixed message decoder of the DATA callback (direct and aggregating
    variants), its queue, its limits; round trip, independence of chunking, termination.  C11 to C14.
  \<^item> \<open>Read_Ahead\<close>: the interface \<open>parser_invariant\<close> (what a step of the decoder may do to call and
    connection) as a locale, interpreted on the decoder; read-ahead limits.  C15, C16.
  \<^item> \<open>Request_Headers\<close>: the header array with its inline and grown storage, validation of user metadata,
    refinement of a list specification.  C17, C18.
  \<^item> \<open>Response_Metadata\<close>: response headers and trailers, the metadata limits, \<open>-bin\<close> values.  C19, C20.
  \<^item> \<open>Stream_Registry\<close>: the intrusive list of active streams and the session's user-data pointers;
    registration, unregistration, GOAWAY.  C24.
  \<^item> \<open>Exchange_Events\<close>: sequences of events of one stream and the status they lead to.  C21.
  \<^item> \<open>Wire_IO\<close>, \<open>Wire_Send\<close>: poll, read and write loops under deadlines, the coalescing buffer, the send and
    DATA callbacks and the frame-sending driver.  C22, C23.
  \<^item> \<open>Session_Driver\<close>: all receive and send callbacks over the store of calls.  C25.
  \<^item> \<open>Connection_Setup\<close> (\<open>connect_tcp\<close>, \<open>tls_config.c\<close>, \<open>configure_tls_connection\<close>,
    \<open>create_h2_connection\<close>): from host and port to a connection with its preface sent.  C26.
  \<^item> \<open>Connection_Cache\<close>: the cache of persistent connections, preflight of idle ones, ownership counts,
    detaching, cancelling, destruction.
  \<^item> \<open>Connection_Ownership\<close>, \<open>Connection_Preflight\<close>: the invariant of the heap of connections and calls (exact owner
    counts, no dangling pointer, no leaked connection) and its preservation by every operation of the
    cache.  C27, C28.
  \<^item> \<open>Call_Driver\<close>, \<open>Unary_Call\<close> (\<open>unary_call.c\<close>): the steps of a call on the heap and the whole unary call with its
    lifetime contract.  C29.
  \<^item> \<open>Server_Streaming_Call\<close> (\<open>server_streaming_call.c\<close>): opening, pulling, cancelling and destroying a stream; safety on
    the heap, delivery in order, finality of the status.  C30 to C33.
  \<^item> \<open>Surface\<close> (\<open>surface.c\<close>): timeval arithmetic, credentials, channel targets, connection keys, the channel object.
    C34 to C36.
  \<^item> \<open>Call_Object\<close> (\<open>surface.c\<close>, \<open>wrapper_adapter.c\<close>): the call object, merging of plugin metadata, send batches and
    events.  C37.
  \<^item> \<open>Wrapper_Adapter\<close> (\<open>wrapper_adapter.c\<close>): unary and streaming calls with their transparent retry, \<open>startBatch\<close>,
    cancelling and freeing.
  \<^item> \<open>Call_Safety\<close>: what the operations of a call rely on (\<open>env_ok\<close>), the well-formedness of the object, and that
    every operation keeps it, the heap invariant and all other calls; the bounds of the retry loops.  C38, C39.
  \<^item> \<open>Client\<close> (\<open>grpc.c\<close>): module start and shutdown, and a PHP process that uses channel and call objects in any order; the locale
    \<open>safe_machine\<close> turns the safety of single operations into that of all runs.  C40, below.
  \<^item> \<open>Trace\<close> (\<open>transport.c\<close>, \<open>wrapper_adapter.c\<close>): the opt-in trace file, its JSON text, the walk over sent
    frames and every kind of record; a JSON string is read back unchanged; redaction of secrets.  C9.

  \<^bold>\<open>Modelling choices.\<close>  C structures are records, enumerations datatypes, \<open>uint32_t\<close> and \<open>int32_t\<close> values whose
  overflow matters are words, \<open>size_t\<close> counters are naturals.  Calls and connections live in stores indexed
  by address; freeing removes the address and touching a freed one is the value \<open>Fault\<close> of the result
  type \<open>res\<close>.  nghttp2 and OpenSSL are parameters: \<open>'ss lib\<close> and \<open>tls_env\<close> hold the functions the code calls,
  and the laws used (\<open>user_data_laws\<close>, \<open>rst_laws\<close>, \<open>adv_ok\<close>, \<open>sources_ok\<close>, \<open>setup_laws\<close>, \<open>submit_laws\<close>) are named hypotheses.
  System calls answer from the finite scripts of an \<open>io_world\<close>; a system call past the end of its script
  (the process waits) is \<open>None\<close> or \<open>Blocked\<close>.  Which callbacks nghttp2 makes is a script too, and the theorems quantify over all
  scripts.  Loops are structural on these scripts; the two list walks of the stream registry, which could
  run into a cycle, are \<open>partial_function\<close>s and are proved to return; the decoder loop of a DATA chunk is a
  \<open>partial_function\<close> as well, proved total for the direct decoder and divergent on one input of the
  aggregating one.  The preflight drain loop counts down the 64 iterations of the code.  A \<open>client_env\<close> bundles what a call object takes
  from outside, each answer depending on the heap and the world at the time; \<open>env_ok\<close> are the laws of its parts.  The
  loop that pulls from a stream runs with bound 2, shown equal to every larger bound (C38); the loop that
  skips messages until the status has a bound given by the caller, and exceeding it counts as waiting (\<open>Blocked\<close>), so the safety theorems
  hold for every bound.

  \<^bold>\<open>Not modelled.\<close>  The benchmark and diagnostic entry points (\<open>src/src/diagnostic\<close>, compiled only with
  \<open>PHP_GRPC_LITE_ENABLE_BENCH\<close>), the test-fault seam
  (\<open>grpc_lite_test_fault_enabled\<close>, which never fires in production builds), reference counts of PHP strings and objects,
  locking of the trace file (the other components are modelled with tracing off), credentials plugins that call back into the call they serve, and the registration of classes, constants and ini
  entries with the PHP engine.
\<close>

section \<open>Properties\<close>



end
